(* ===== verification/Efis_Prelude.thy ===== *)
theory Efis_Prelude
  imports Main "HOL-Library.Word"
begin

text \<open>
  Shared vocabulary of the development: the outcome of running a piece of Rust code, the part of
  the Rust standard library every component uses (checked slicing, decimal printing and parsing
  of integers, trimming and searching text), and the generic lemmas about them.

  Text. A Rust \<^verbatim>\<open>String\<close> is a sequence of Unicode scalar values. It is modelled as a HOL
  \<open>string\<close> whose characters are the code points below U+0100, so \<open>is_whitespace\<close> below is Rust's
  \<^verbatim>\<open>char::is_whitespace\<close> on that range. The sources cut strings only next to ASCII delimiters, where
  byte offsets and character offsets select the same pieces.

  Integers. \<^verbatim>\<open>usize\<close> and \<^verbatim>\<open>u64\<close> values are \<open>nat\<close> bounded by \<open>usize_max\<close> wherever the code can
  exceed it, \<^verbatim>\<open>i64\<close> values are \<open>int\<close>; the release profile the build files select wraps on overflow.
\<close>

section \<open>Collections of rewrite rules\<close>

named_theorems run_simps
named_theorems codec_simps

section \<open>Outcomes of running code\<close>

text \<open>
  \<open>Done v\<close> is a normal return, \<open>Panic\<close> an unwinding panic (an index out of range, a failed
  \<^verbatim>\<open>unwrap\<close>), \<open>Hang\<close> a call that blocks for ever (a lock or a channel that nobody will release).
\<close>

datatype 'a run = Panic | Hang | Done 'a

fun run_bind :: "'a run \<Rightarrow> ('a \<Rightarrow> 'b run) \<Rightarrow> 'b run" where
  "run_bind Panic f = Panic"
| "run_bind Hang f = Hang"
| "run_bind (Done x) f = f x"

definition run_map :: "('a \<Rightarrow> 'b) \<Rightarrow> 'a run \<Rightarrow> 'b run" where
  "run_map f r = run_bind r (\<lambda>x. Done (f x))"

text \<open>Fallible calls return \<open>Inl\<close> of an error or \<open>Inr\<close> of a value; \<^verbatim>\<open>anyhow\<close> errors are their message.\<close>

type_synonym 'a res = "string + 'a"

section \<open>Machine integers and checked access\<close>

definition usize_max :: nat where
  "usize_max = 2 ^ 64 - 1"

definition i64_max :: int where
  "i64_max = 2 ^ 63 - 1"

definition i64_min :: int where
  "i64_min = - (2 ^ 63)"

definition i32_max :: int where
  "i32_max = 2 ^ 31 - 1"

definition i32_min :: int where
  "i32_min = - (2 ^ 31)"

definition usize_add :: "nat \<Rightarrow> nat \<Rightarrow> nat" where
  "usize_add a b = (a + b) mod 2 ^ 64"

definition index_at :: "'a list \<Rightarrow> nat \<Rightarrow> 'a run" where
  "index_at xs i = (if i < length xs then Done (xs ! i) else Panic)"

definition slice_from :: "'a list \<Rightarrow> nat \<Rightarrow> 'a list run" where
  "slice_from xs i = (if i \<le> length xs then Done (drop i xs) else Panic)"

definition slice_range :: "'a list \<Rightarrow> nat \<Rightarrow> nat \<Rightarrow> 'a list run" where
  "slice_range xs a b = (if a \<le> b \<and> b \<le> length xs then Done (drop a (take b xs)) else Panic)"

text \<open>The assertions \<open>k\<close> of a test on a result; a test that panics or blocks fails.\<close>

definition finishes :: "'a run \<Rightarrow> ('a \<Rightarrow> bool) \<Rightarrow> bool" where
  "finishes m k = (case m of Done r \<Rightarrow> k r | _ \<Rightarrow> False)"

lemma finishes_simps [simp]: "finishes (Done r) k = k r" "finishes Panic k = False" "finishes Hang k = False"
  by (simp_all add: finishes_def)

abbreviation is_ok :: "'e + 'a \<Rightarrow> bool" where
  "is_ok r \<equiv> \<not> isl r"

section \<open>Text\<close>

definition is_whitespace :: "char \<Rightarrow> bool" where
  "is_whitespace c \<longleftrightarrow> (let n = (of_char c :: nat) in (9 \<le> n \<and> n \<le> 13) \<or> n = 32 \<or> n = 133 \<or> n = 160)"

definition trim_start :: "string \<Rightarrow> string" where
  "trim_start s = dropWhile is_whitespace s"

definition trim_end :: "string \<Rightarrow> string" where
  "trim_end s = rev (dropWhile is_whitespace (rev s))"

definition trim :: "string \<Rightarrow> string" where
  "trim s = trim_end (trim_start s)"

text \<open>\<^verbatim>\<open>str::contains\<close> with a string pattern.\<close>

fun starts_with :: "string \<Rightarrow> string \<Rightarrow> bool" where
  "starts_with s [] = True"
| "starts_with [] (p # ps) = False"
| "starts_with (c # cs) (p # ps) = (c = p \<and> starts_with cs ps)"

fun contains_str :: "string \<Rightarrow> string \<Rightarrow> bool" where
  "contains_str [] p = (p = [])"
| "contains_str (c # cs) p = (starts_with (c # cs) p \<or> contains_str cs p)"

text \<open>\<^verbatim>\<open>[S]::join\<close>.\<close>

fun join :: "string \<Rightarrow> string list \<Rightarrow> string" where
  "join sep [] = []"
| "join sep [x] = x"
| "join sep (x # y # ys) = x @ sep @ join sep (y # ys)"

section \<open>Decimal printing and parsing\<close>

definition digit_char :: "nat \<Rightarrow> char" where
  "digit_char d = char_of (48 + d)"

fun show_nat :: "nat \<Rightarrow> string" where
  "show_nat n = (if n < 10 then [digit_char n] else show_nat (n div 10) @ [digit_char (n mod 10)])"

declare show_nat.simps [simp del]

definition show_int :: "int \<Rightarrow> string" where
  "show_int i = (if i < 0 then CHR ''-'' # show_nat (nat (- i)) else show_nat (nat i))"

definition to_digit :: "char \<Rightarrow> nat option" where
  "to_digit c = (let n = (of_char c :: nat) in if 48 \<le> n \<and> n \<le> 57 then Some (n - 48) else None)"

definition err_empty :: string where
  "err_empty = ''cannot parse integer from empty string''"

definition err_digit :: string where
  "err_digit = ''invalid digit found in string''"

definition err_pos_overflow :: string where
  "err_pos_overflow = ''number too large to fit in target type''"

definition err_neg_overflow :: string where
  "err_neg_overflow = ''number too small to fit in target type''"

text \<open>
  The digit loop of \<^verbatim>\<open>from_str_radix\<close>, left to right: an invalid digit is reported before the
  overflow that digit would cause. \<open>lim\<close> is the largest magnitude, \<open>ov\<close> the overflow message.
\<close>

fun parse_digits :: "nat \<Rightarrow> string \<Rightarrow> nat \<Rightarrow> string \<Rightarrow> nat res" where
  "parse_digits lim ov acc [] = Inr acc"
| "parse_digits lim ov acc (c # cs) =
     (case to_digit c of
        None \<Rightarrow> Inl err_digit
      | Some d \<Rightarrow> if lim < acc * 10 + d then Inl ov else parse_digits lim ov (acc * 10 + d) cs)"

text \<open>\<^verbatim>\<open>str::parse::<usize>\<close> and \<^verbatim>\<open>str::parse::<u64>\<close> on a 64-bit target.\<close>

definition parse_usize :: "string \<Rightarrow> nat res" where
  "parse_usize s =
     (if s = [] then Inl err_empty
      else if s = ''+'' \<or> s = ''-'' then Inl err_digit
      else if hd s = CHR ''+'' then parse_digits usize_max err_pos_overflow 0 (tl s)
      else parse_digits usize_max err_pos_overflow 0 s)"

text \<open>The signed integers of \<open>Suc b\<close> bits: \<^verbatim>\<open>str::parse::<i64>\<close> and \<^verbatim>\<open>str::parse::<i32>\<close>.\<close>

definition parse_signed :: "nat \<Rightarrow> string \<Rightarrow> int res" where
  "parse_signed b s =
     (if s = [] then Inl err_empty
      else if s = ''+'' \<or> s = ''-'' then Inl err_digit
      else if hd s = CHR ''-'' then map_sum id (\<lambda>n. - int n) (parse_digits (2 ^ b) err_neg_overflow 0 (tl s))
      else if hd s = CHR ''+'' then map_sum id int (parse_digits (2 ^ b - 1) err_pos_overflow 0 (tl s))
      else map_sum id int (parse_digits (2 ^ b - 1) err_pos_overflow 0 s))"

definition parse_i64 :: "string \<Rightarrow> int res" where
  "parse_i64 s = parse_signed 63 s"

definition parse_i32 :: "string \<Rightarrow> int res" where
  "parse_i32 s = parse_signed 31 s"

section \<open>Generic lemmas\<close>

subsection \<open>Outcomes\<close>

lemma map_sum_Inr: "map_sum f g r = Inr y \<longleftrightarrow> (\<exists>x. r = Inr x \<and> y = g x)"
  by (cases r) auto

lemma run_bind_cong [fundef_cong]:
  "\<lbrakk>r = r'; \<And>x. r' = Done x \<Longrightarrow> f x = g x\<rbrakk> \<Longrightarrow> run_bind r f = run_bind r' g"
  by (cases r) auto

lemma run_bind_eq_Done [run_simps]: "run_bind r f = Done y \<longleftrightarrow> (\<exists>x. r = Done x \<and> f x = Done y)"
  by (cases r) auto

lemma run_bind_neq_Panic [run_simps]: "run_bind r f \<noteq> Panic \<longleftrightarrow> r \<noteq> Panic \<and> (\<forall>x. r = Done x \<longrightarrow> f x \<noteq> Panic)"
  by (cases r) auto

lemma run_bind_assoc: "run_bind (run_bind r f) g = run_bind r (\<lambda>x. run_bind (f x) g)"
  by (cases r) auto

lemma run_map_simps [simp]: "run_map f (Done x) = Done (f x)" "run_map f Panic = Panic" "run_map f Hang = Hang"
  by (simp_all add: run_map_def)

lemma run_map_eq_Done [run_simps]: "run_map f r = Done y \<longleftrightarrow> (\<exists>x. r = Done x \<and> y = f x)"
  by (cases r) (auto simp: run_map_def)

lemma index_at_Done [run_simps]: "index_at xs i = Done x \<longleftrightarrow> i < length xs \<and> x = xs ! i"
  by (auto simp: index_at_def)

lemma slice_from_Done [run_simps]: "slice_from xs i = Done ys \<longleftrightarrow> i \<le> length xs \<and> ys = drop i xs"
  by (auto simp: slice_from_def)

lemma slice_range_Done [run_simps]:
  "slice_range xs a b = Done ys \<longleftrightarrow> a \<le> b \<and> b \<le> length xs \<and> ys = drop a (take b xs)"
  by (auto simp: slice_range_def)

subsection \<open>Decimal text\<close>

lemma of_char_digit_char: "d < 10 \<Longrightarrow> (of_char (digit_char d) :: nat) = 48 + d"
  by (simp add: digit_char_def)

lemma to_digit_digit_char [simp]: "d < 10 \<Longrightarrow> to_digit (digit_char d) = Some d"
  by (simp add: to_digit_def of_char_digit_char)

lemma to_digit_bound: "to_digit c = Some d \<Longrightarrow> d < 10"
  by (auto simp: to_digit_def Let_def split: if_splits)

lemma parse_digits_append:
  "parse_digits lim ov acc (xs @ ys) =
     (case parse_digits lim ov acc xs of Inl e \<Rightarrow> Inl e | Inr v \<Rightarrow> parse_digits lim ov v ys)"
  by (induction lim ov acc xs rule: parse_digits.induct) (auto split: option.splits)

lemma parse_digits_show_nat [codec_simps]:
  "n \<le> lim \<Longrightarrow> parse_digits lim ov 0 (show_nat n) = Inr n"
proof (induction n rule: show_nat.induct)
  case (1 n)
  show ?case
  proof (cases "n < 10")
    case True
    with 1 show ?thesis by (simp add: show_nat.simps)
  next
    case False
    moreover have "parse_digits lim ov 0 (show_nat (n div 10)) = Inr (n div 10)"
      using False 1 by simp
    ultimately show ?thesis
      using 1 by (simp add: show_nat.simps [of n] parse_digits_append)
  qed
qed

lemma show_nat_digits: "c \<in> set (show_nat n) \<Longrightarrow> to_digit c \<noteq> None"
proof (induction n rule: show_nat.induct)
  case (1 n)
  then show ?case
    by (cases "n < 10") (auto simp: show_nat.simps [of n])
qed

lemma show_nat_nonempty [simp]: "show_nat n \<noteq> []"
  by (simp add: show_nat.simps)

lemma digit_not_special:
  assumes "to_digit c \<noteq> None"
  shows "c \<noteq> CHR ''+''" "c \<noteq> CHR ''-''" "c \<noteq> CHR 0x22" "c \<noteq> CHR ''=''" "c \<noteq> CHR '' ''"
    "c \<noteq> CHR ''[''" "c \<noteq> CHR '']''" "c \<noteq> CHR ''{''" "c \<noteq> CHR ''}''" "c \<noteq> CHR '',''"
    "c \<noteq> CHR ''(''" "c \<noteq> CHR '')''" "c \<noteq> CHR ''N''" "\<not> is_whitespace c"
  using assms by (auto simp: to_digit_def is_whitespace_def Let_def split: if_splits)

lemma hd_show_nat_digit: "to_digit (hd (show_nat n)) \<noteq> None"
  using show_nat_digits [of "hd (show_nat n)" n] by (meson hd_in_set show_nat_nonempty)

lemma parse_usize_show_nat [codec_simps]: "n \<le> usize_max \<Longrightarrow> parse_usize (show_nat n) = Inr n"
proof -
  assume n: "n \<le> usize_max"
  have "hd (show_nat n) \<noteq> CHR ''+''" "hd (show_nat n) \<noteq> CHR ''-''"
    using digit_not_special [OF hd_show_nat_digit [of n]] by auto
  then show ?thesis
    using n by (auto simp: parse_usize_def parse_digits_show_nat)
qed

lemma parse_signed_show_int:
  assumes "- (2 ^ b) \<le> i" "i < 2 ^ b"
  shows "parse_signed b (show_int i) = Inr i"
proof (cases "i < 0")
  case True
  have "nat (- i) \<le> 2 ^ b" using assms(1) by (simp add: nat_le_iff)
  then show ?thesis
    using True show_nat_nonempty [of "nat (- i)"] by (auto simp: parse_signed_def show_int_def parse_digits_show_nat)
next
  case False
  have "hd (show_nat (nat i)) \<noteq> CHR ''+''" "hd (show_nat (nat i)) \<noteq> CHR ''-''"
    using digit_not_special [OF hd_show_nat_digit [of "nat i"]] by auto
  moreover have "nat i \<le> 2 ^ b - 1"
  proof -
    have "nat i < 2 ^ b" using assms(2) False by (simp add: nat_less_iff)
    then show ?thesis by linarith
  qed
  ultimately show ?thesis
    using False by (auto simp: parse_signed_def show_int_def parse_digits_show_nat)
qed

lemma parse_i64_show_int [codec_simps]: "i64_min \<le> i \<Longrightarrow> i \<le> i64_max \<Longrightarrow> parse_i64 (show_int i) = Inr i"
  by (simp add: parse_i64_def parse_signed_show_int i64_min_def i64_max_def)

lemma parse_i32_show_int [codec_simps]: "i32_min \<le> i \<Longrightarrow> i \<le> i32_max \<Longrightarrow> parse_i32 (show_int i) = Inr i"
  by (simp add: parse_i32_def parse_signed_show_int i32_min_def i32_max_def)

text \<open>What parsing returns is in range.\<close>

lemma parse_digits_bound: "parse_digits lim ov acc s = Inr n \<Longrightarrow> acc \<le> lim \<Longrightarrow> n \<le> lim"
  by (induction lim ov acc s rule: parse_digits.induct) (auto split: option.splits if_splits)

lemma parse_usize_bound: "parse_usize s = Inr n \<Longrightarrow> n \<le> usize_max"
  by (auto simp: parse_usize_def split: if_splits dest: parse_digits_bound)

lemma parse_signed_bound:
  assumes "parse_signed b s = Inr i"
  shows "- (2 ^ b) \<le> i \<and> i < 2 ^ b"
proof -
  consider (neg) n where "parse_digits (2 ^ b) err_neg_overflow 0 (tl s) = Inr n" "i = - int n"
    | (pos) n t where "parse_digits (2 ^ b - 1) err_pos_overflow 0 t = Inr n" "i = int n"
    using assms by (auto simp: parse_signed_def map_sum_Inr split: if_splits)
  then show ?thesis
  proof cases
    case neg
    then have "n \<le> 2 ^ b" using parse_digits_bound by blast
    then have "int n \<le> 2 ^ b" using of_nat_mono [of n "2 ^ b"] by simp
    then show ?thesis using neg(2) zero_less_power [of "2 :: int" b] by linarith
  next
    case pos
    then have "n < 2 ^ b" using parse_digits_bound [OF pos(1)] zero_less_power [of "2 :: nat" b] by linarith
    then have "int n < 2 ^ b" using of_nat_less_iff [of n "2 ^ b", where ?'a = int] by simp
    then show ?thesis using pos(2) zero_less_power [of "2 :: int" b] by linarith
  qed
qed

subsection \<open>Joining\<close>

lemma join_Cons: "xs \<noteq> [] \<Longrightarrow> join sep (x # xs) = x @ sep @ join sep xs"
  by (cases xs) auto

lemma hd_join: "ts \<noteq> [] \<Longrightarrow> hd ts \<noteq> [] \<Longrightarrow> join sep ts \<noteq> [] \<and> hd (join sep ts) = hd (hd ts)"
  by (induction sep ts rule: join.induct) auto

lemma last_join: "ts \<noteq> [] \<Longrightarrow> last ts \<noteq> [] \<Longrightarrow> join sep ts \<noteq> [] \<and> last (join sep ts) = last (last ts)"
  by (induction sep ts rule: join.induct) auto

subsection \<open>Trimming\<close>

lemma trim_start_id: "s = [] \<or> \<not> is_whitespace (hd s) \<Longrightarrow> trim_start s = s"
  by (cases s) (auto simp: trim_start_def)

lemma trim_end_id: "s = [] \<or> \<not> is_whitespace (last s) \<Longrightarrow> trim_end s = s"
  by (cases s rule: rev_cases) (auto simp: trim_end_def)

text \<open>Text that neither starts nor ends with white space is left alone by \<open>trim\<close>.\<close>

definition trimmed :: "string \<Rightarrow> bool" where
  "trimmed s \<longleftrightarrow> s = [] \<or> (\<not> is_whitespace (hd s) \<and> \<not> is_whitespace (last s))"

lemma trim_trimmed [simp]: "trimmed s \<Longrightarrow> trim s = s"
  by (auto simp: trimmed_def trim_def trim_start_id trim_end_id)

lemma trimmed_show_nat [simp]: "trimmed (show_nat n)"
  using digit_not_special(14) [OF show_nat_digits [of _ n]]
  by (simp add: trimmed_def)

lemma trimmed_Cons_snoc [simp]: "\<not> is_whitespace c \<Longrightarrow> \<not> is_whitespace d \<Longrightarrow> trimmed (c # s @ [d])"
  by (simp add: trimmed_def)

end
