(* ===== verification/Vector_Index.thy ===== *)
theory Vector_Index
  imports Efis_Prelude "HOL-Library.Multiset"
begin

text \<open>
  The vector index of \<^verbatim>\<open>efis/src/vector/mod.rs\<close> and \<^verbatim>\<open>efis/src/vector/flat.rs\<close>: a flat array of
  rows, the identifier of every row, and a map from identifiers to row numbers.

  An \<^verbatim>\<open>f32\<close> is its 32 bits. Comparison, negation and the NaN test are exact on those bits; the
  rounding arithmetic of the processor is the parameter \<open>f32_ops\<close>. \<^verbatim>\<open>select_nth_unstable_by\<close> and
  \<^verbatim>\<open>sort_unstable_by\<close> leave the order of equal elements open, so they are the parameters of the
  locale \<open>unstable_sorting\<close>, whose laws are their documented contract.

  The lemmas show that an index is a finite map from identifiers to rows: \<open>flat_insert\<close> and
  \<open>flat_delete\<close> update that map, \<open>flat_search\<close> returns the nearest rows in order, and the place
  where the code loses the correspondence (the row numbers after a deletion) is made explicit.
\<close>

section \<open>Single-precision numbers\<close>

type_synonym f32 = "32 word"

record f32_ops =
  f_add :: "f32 \<Rightarrow> f32 \<Rightarrow> f32"
  f_sub :: "f32 \<Rightarrow> f32 \<Rightarrow> f32"
  f_mul :: "f32 \<Rightarrow> f32 \<Rightarrow> f32"
  f_sum_unit :: f32

definition f32_magnitude :: "f32 \<Rightarrow> int" where
  "f32_magnitude x = uint x mod 2 ^ 31"

definition f32_is_nan :: "f32 \<Rightarrow> bool" where
  "f32_is_nan x \<longleftrightarrow> 2139095040 < f32_magnitude x"

definition f32_neg :: "f32 \<Rightarrow> f32" where
  "f32_neg x = x + 2147483648"

text \<open>The value order of the numbers that are not NaN; both zeros have key 0.\<close>

definition f32_key :: "f32 \<Rightarrow> int" where
  "f32_key x = (if 2 ^ 31 \<le> uint x then - f32_magnitude x else f32_magnitude x)"

text \<open>The order of the wrapper \<^verbatim>\<open>F32\<close>: incomparable numbers count as equal.\<close>

datatype Ordering = Less | Equal | Greater

definition f32_partial_cmp :: "f32 \<Rightarrow> f32 \<Rightarrow> Ordering option" where
  "f32_partial_cmp x y =
     (if f32_is_nan x \<or> f32_is_nan y then None
      else Some (if f32_key x < f32_key y then Less else if f32_key x = f32_key y then Equal else Greater))"

definition F32_cmp :: "f32 \<Rightarrow> f32 \<Rightarrow> Ordering" where
  "F32_cmp x y = (case f32_partial_cmp x y of None \<Rightarrow> Equal | Some ord \<Rightarrow> ord)"

text \<open>On numbers it is the value order; with a NaN in between, equality is not transitive.\<close>

lemma F32_cmp_order:
  "\<not> f32_is_nan x \<Longrightarrow> \<not> f32_is_nan y \<Longrightarrow> F32_cmp x y = Less \<longleftrightarrow> f32_key x < f32_key y"
  "\<not> f32_is_nan x \<Longrightarrow> \<not> f32_is_nan y \<Longrightarrow> F32_cmp x y = Equal \<longleftrightarrow> f32_key x = f32_key y"
  by (auto simp: F32_cmp_def f32_partial_cmp_def)

lemma F32_cmp_not_transitive: "\<exists>x y z. F32_cmp x y = Equal \<and> F32_cmp y z = Equal \<and> F32_cmp x z = Less"
proof -
  have "F32_cmp 0 0x7FC00000 = Equal \<and> F32_cmp 0x7FC00000 1 = Equal \<and> F32_cmp 0 1 = Less"
    by (simp add: F32_cmp_def f32_partial_cmp_def f32_is_nan_def f32_magnitude_def f32_key_def)
  then show ?thesis by blast
qed

section \<open>Distances\<close>

datatype Distance = L2 | Cosine

fun f32_sum :: "f32_ops \<Rightarrow> f32 \<Rightarrow> f32 list \<Rightarrow> f32" where
  "f32_sum fo acc [] = acc"
| "f32_sum fo acc (x # xs) = f32_sum fo (f_add fo acc x) xs"

definition l2_distance :: "f32_ops \<Rightarrow> f32 list \<Rightarrow> f32 list \<Rightarrow> f32" where
  "l2_distance fo a b =
     f32_sum fo (f_sum_unit fo) (map (\<lambda>(x, y). let d = f_sub fo x y in f_mul fo d d) (zip a b))"

definition cosine_sim :: "f32_ops \<Rightarrow> f32 list \<Rightarrow> f32 list \<Rightarrow> f32" where
  "cosine_sim fo a b =
     f32_neg (f32_sum fo (f_sum_unit fo) (map (\<lambda>(x, y). f_mul fo x y) (zip a b)))"

section \<open>The flat index\<close>

record FlatIndex =
  dim :: nat
  vecs :: "f32 list"
  ids :: "nat list"
  idset :: "nat \<rightharpoonup> nat"

definition flat_new :: "nat \<Rightarrow> FlatIndex" where
  "flat_new n = \<lparr>dim = n, vecs = [], ids = [], idset = Map.empty\<rparr>"

text \<open>The loop \<^verbatim>\<open>for j in start..end { self.vecs[j] = v[j - start]; }\<close>; its range is as long as \<open>v\<close>.\<close>

fun write_row :: "f32 list \<Rightarrow> nat \<Rightarrow> f32 list \<Rightarrow> f32 list run" where
  "write_row vs j [] = Done vs"
| "write_row vs j (x # xs) = (if j < length vs then write_row (vs[j := x]) (Suc j) xs else Panic)"

definition flat_insert :: "nat \<Rightarrow> f32 list \<Rightarrow> FlatIndex \<Rightarrow> FlatIndex res run" where
  "flat_insert i v ix =
     (if length v \<noteq> dim ix then Done (Inl ''vector size is not equal to the original size'')
      else case idset ix i of
        Some p \<Rightarrow>
          run_bind (write_row (vecs ix) (dim ix * p) v) (\<lambda>vs. Done (Inr (ix\<lparr>vecs := vs\<rparr>)))
      | None \<Rightarrow>
          Done (Inr (ix\<lparr>vecs := vecs ix @ v,
                        idset := (idset ix)(i \<mapsto> length (ids ix)),
                        ids := ids ix @ [i]\<rparr>)))"

text \<open>\<^verbatim>\<open>slice::chunks\<close>.\<close>

function chunks :: "nat \<Rightarrow> 'a list \<Rightarrow> 'a list list" where
  "chunks n xs = (if n = 0 \<or> xs = [] then [] else take n xs # chunks n (drop n xs))"
  by pat_completeness auto
termination
  by (relation "measure (\<lambda>(n, xs). length xs)") auto

declare chunks.simps [simp del]

definition dist_fn :: "f32_ops \<Rightarrow> Distance \<Rightarrow> f32 list \<Rightarrow> f32 list \<Rightarrow> f32" where
  "dist_fn fo df = (case df of L2 \<Rightarrow> l2_distance fo | Cosine \<Rightarrow> cosine_sim fo)"

definition distances :: "f32_ops \<Rightarrow> Distance \<Rightarrow> f32 list \<Rightarrow> FlatIndex \<Rightarrow> (nat \<times> f32) list" where
  "distances fo df query ix =
     map (\<lambda>(chunk, i). (i, dist_fn fo df chunk query)) (zip (chunks (dim ix) (vecs ix)) (ids ix))"

text \<open>
  \<open>sel\<close> and \<open>srt\<close> are \<^verbatim>\<open>select_nth_unstable_by\<close> and \<^verbatim>\<open>sort_unstable_by\<close> with the comparison
  \<^verbatim>\<open>a.1.partial_cmp(&b.1).unwrap()\<close>. Selecting from an empty slice panics (the index \<^verbatim>\<open>k - 1\<close> is out of
  range), and so does comparing a NaN, which selecting among two or more elements must do.
  \<^verbatim>\<open>par_chunks(0)\<close> panics as well.
\<close>

definition flat_search ::
  "f32_ops \<Rightarrow> (nat \<Rightarrow> (nat \<times> f32) list \<Rightarrow> (nat \<times> f32) list) \<Rightarrow> ((nat \<times> f32) list \<Rightarrow> (nat \<times> f32) list)
    \<Rightarrow> f32 list \<Rightarrow> nat \<Rightarrow> Distance \<Rightarrow> FlatIndex \<Rightarrow> (nat \<times> f32) list run" where
  "flat_search fo sel srt query k df ix =
     (if k = 0 then Done []
      else if dim ix = 0 then Panic
      else
        let ds = distances fo df query ix; k' = min k (length ds) in
        if k' = 0 then Panic
        else if 2 \<le> length ds \<and> list_ex (\<lambda>d. f32_is_nan (snd d)) ds then Panic
        else Done (srt (take k' (sel (k' - 1) ds))))"

text \<open>The scan \<^verbatim>\<open>for (i, &vid) in self.ids.iter().enumerate()\<close> with its early \<^verbatim>\<open>break\<close>.\<close>

fun find_pos :: "nat list \<Rightarrow> nat \<Rightarrow> nat option" where
  "find_pos [] i = None"
| "find_pos (x # xs) i = (if i = x then Some 0 else map_option Suc (find_pos xs i))"

text \<open>The loop \<^verbatim>\<open>for i in start..end { self.vecs[i] = self.vecs[new_len + i - start]; }\<close>.\<close>

fun copy_row :: "f32 list \<Rightarrow> nat \<Rightarrow> nat \<Rightarrow> nat \<Rightarrow> f32 list run" where
  "copy_row vs i src 0 = Done vs"
| "copy_row vs i src (Suc n) =
     (if src < length vs \<and> i < length vs then copy_row (vs[i := vs ! src]) (Suc i) (Suc src) n else Panic)"

definition swap_remove :: "'a list \<Rightarrow> nat \<Rightarrow> 'a list" where
  "swap_remove xs i = butlast (xs[i := last xs])"

definition flat_delete :: "nat \<Rightarrow> FlatIndex \<Rightarrow> FlatIndex run" where
  "flat_delete i ix =
     (case find_pos (ids ix) i of
        None \<Rightarrow> Done ix
      | Some p \<Rightarrow>
          if length (vecs ix) < dim ix then Panic
          else
            let start = dim ix * p; new_len = length (vecs ix) - dim ix in
            run_bind (copy_row (vecs ix) start new_len (dim ix)) (\<lambda>vs.
              Done (ix\<lparr>vecs := take new_len vs,
                       ids := swap_remove (ids ix) p,
                       idset := (idset ix)(i := None)\<rparr>)))"

text \<open>
  The insertion loop of \<^verbatim>\<open>Efis::_vset\<close> over any index: a row of the wrong length is skipped, its
  error is dropped (\<^verbatim>\<open>let _ = val.insert(..)\<close>).
\<close>

fun batch_insert :: "(nat \<Rightarrow> f32 list \<Rightarrow> 'i \<Rightarrow> 'i res run) \<Rightarrow> (nat \<times> f32 list) list \<Rightarrow> 'i \<Rightarrow> 'i run" where
  "batch_insert ins [] x = Done x"
| "batch_insert ins ((i, v) # rs) x =
     run_bind (ins i v x) (\<lambda>r. batch_insert ins rs (case r of Inl e \<Rightarrow> x | Inr y \<Rightarrow> y))"

section \<open>The index as a finite map\<close>

definition row :: "FlatIndex \<Rightarrow> nat \<Rightarrow> f32 list" where
  "row ix p = take (dim ix) (drop (dim ix * p) (vecs ix))"

definition flat_abs :: "FlatIndex \<Rightarrow> nat \<rightharpoonup> f32 list" where
  "flat_abs ix i = map_option (row ix) (find_pos (ids ix) i)"

text \<open>\<open>flat_shape\<close> is what deletion keeps; \<open>flat_inv\<close> adds that \<open>idset\<close> gives the row numbers.\<close>

definition flat_shape :: "FlatIndex \<Rightarrow> bool" where
  "flat_shape ix \<longleftrightarrow> length (vecs ix) = dim ix * length (ids ix) \<and> distinct (ids ix)
     \<and> dom (idset ix) = set (ids ix)"

definition flat_inv :: "FlatIndex \<Rightarrow> bool" where
  "flat_inv ix \<longleftrightarrow> flat_shape ix \<and> (\<forall>i. idset ix i = find_pos (ids ix) i)"

lemma find_pos_Some: "find_pos xs i = Some p \<Longrightarrow> p < length xs \<and> xs ! p = i"
  by (induction xs arbitrary: p) (auto split: if_splits)

lemma find_pos_None: "find_pos xs i = None \<longleftrightarrow> i \<notin> set xs"
  by (induction xs) auto

lemma find_pos_nth: "distinct xs \<Longrightarrow> p < length xs \<Longrightarrow> find_pos xs (xs ! p) = Some p"
proof (induction xs arbitrary: p)
  case (Cons x xs)
  then show ?case by (cases p) auto
qed simp

lemma find_pos_append:
  "find_pos (xs @ ys) i = (case find_pos xs i of Some p \<Rightarrow> Some p | None \<Rightarrow> map_option ((+) (length xs)) (find_pos ys i))"
proof (induction xs)
  case Nil
  then show ?case by (cases "find_pos ys i") auto
next
  case (Cons x xs)
  then show ?case by (cases "find_pos ys i") (auto split: option.splits)
qed

lemma dom_flat_abs: "dom (flat_abs ix) = set (ids ix)"
  by (auto simp: flat_abs_def dom_def find_pos_None)

lemma write_row_Done:
  "j + length xs \<le> length vs \<Longrightarrow>
    write_row vs j xs = Done (take j vs @ xs @ drop (j + length xs) vs)"
proof (induction vs j xs rule: write_row.induct)
  case (2 vs j x xs)
  then have "write_row vs j (x # xs) = Done (take (Suc j) (vs[j := x]) @ xs @ drop (Suc j + length xs) (vs[j := x]))"
    by simp
  also have "take (Suc j) (vs[j := x]) = take j vs @ [x]"
    using 2(2) by (simp add: take_Suc_conv_app_nth)
  finally show ?case
    using 2(2) by simp
qed simp

lemma copy_row_Done:
  assumes "i + n \<le> src \<or> i = src" "src + n \<le> length vs"
  shows "copy_row vs i src n = Done (take i vs @ take n (drop src vs) @ drop (i + n) vs)"
  using assms
proof (induction vs i src n rule: copy_row.induct)
  case (2 vs i src n)
  let ?vs = "vs[i := vs ! src]"
  have "copy_row vs i src (Suc n) = copy_row ?vs (Suc i) (Suc src) n"
    using 2(2,3) by auto
  also have "\<dots> = Done (take (Suc i) ?vs @ take n (drop (Suc src) ?vs) @ drop (Suc i + n) ?vs)"
    using 2 by auto
  also have "take (Suc i) ?vs = take i vs @ [vs ! src]"
    using 2(2,3) by (subst take_Suc_conv_app_nth) auto
  also have "drop (Suc src) ?vs = drop (Suc src) vs"
    using 2(2) by auto
  also have "drop (Suc i + n) ?vs = drop (Suc i + n) vs"
    by simp
  finally show ?case
    using 2(3) by (simp add: Cons_nth_drop_Suc [symmetric])
qed simp

lemma row_append: "flat_shape ix \<Longrightarrow> p < length (ids ix) \<Longrightarrow>
    take (dim ix) (drop (dim ix * p) (vecs ix @ v)) = row ix p"
proof -
  assume "flat_shape ix" "p < length (ids ix)"
  then have "dim ix * p + dim ix \<le> length (vecs ix)"
    using mult_le_mono2 [of "Suc p" "length (ids ix)" "dim ix"] by (simp add: flat_shape_def)
  then show ?thesis by (simp add: row_def)
qed

lemma flat_abs_nth: "flat_shape ix \<Longrightarrow> p < length (ids ix) \<Longrightarrow> flat_abs ix (ids ix ! p) = Some (row ix p)"
  by (simp add: flat_abs_def flat_shape_def find_pos_nth)

lemma flat_abs_eqI:
  assumes "flat_shape ix" "dom m = set (ids ix)"
    and "\<And>p. p < length (ids ix) \<Longrightarrow> m (ids ix ! p) = Some (row ix p)"
  shows "flat_abs ix = m"
proof
  fix i
  show "flat_abs ix i = m i"
  proof (cases "i \<in> set (ids ix)")
    case True
    then obtain p where "p < length (ids ix)" "i = ids ix ! p"
      by (auto simp: in_set_conv_nth)
    then show ?thesis using assms flat_abs_nth by simp
  next
    case False
    then show ?thesis using assms(2) dom_flat_abs [of ix] by (metis domIff)
  qed
qed

lemma row_bound: "flat_shape ix \<Longrightarrow> p < length (ids ix) \<Longrightarrow> dim ix * p + dim ix \<le> length (vecs ix)"
  using mult_le_mono2 [of "Suc p" "length (ids ix)" "dim ix"] by (simp add: flat_shape_def)

lemma length_row [simp]: "flat_shape ix \<Longrightarrow> p < length (ids ix) \<Longrightarrow> length (row ix p) = dim ix"
  using row_bound [of ix p] by (simp add: row_def)

lemma row_disjoint: "p < q \<Longrightarrow> (d::nat) * p + d \<le> d * q"
  using mult_le_mono2 [of "Suc p" q d] by simp

subsection \<open>Insertion\<close>

lemma flat_inv_new [simp]: "flat_inv (flat_new n)"
  by (simp add: flat_inv_def flat_shape_def flat_new_def)

lemma flat_abs_new [simp]: "flat_abs (flat_new n) = Map.empty"
  by (simp add: flat_abs_def flat_new_def fun_eq_iff)

lemma row_overwrite:
  assumes "flat_shape ix" "p < length (ids ix)" "q < length (ids ix)" "length v = dim ix"
    and vs: "vs = take (dim ix * p) (vecs ix) @ v @ drop (dim ix * p + dim ix) (vecs ix)"
  shows "take (dim ix) (drop (dim ix * q) vs) = (if q = p then v else row ix q)"
proof -
  have len: "length (take (dim ix * p) (vecs ix)) = dim ix * p"
    using row_bound [OF assms(1,2)] by simp
  consider "q = p" | "q < p" | "p < q" by linarith
  then show ?thesis
  proof cases
    case 1
    then show ?thesis using vs len assms(4) by simp
  next
    case 2
    then show ?thesis
      using vs len row_disjoint [OF 2, of "dim ix"] by (auto simp: row_def take_drop min_def)
  next
    case 3
    have "drop (dim ix * q) vs = drop (dim ix * q) (vecs ix)"
      using 3 vs len assms(4) row_disjoint [OF 3, of "dim ix"] by simp
    then show ?thesis using 3 by (simp add: row_def)
  qed
qed

lemma flat_insert_new:
  assumes "flat_inv ix" "length v = dim ix" "i \<notin> set (ids ix)"
  defines "iy \<equiv> ix\<lparr>vecs := vecs ix @ v, idset := (idset ix)(i \<mapsto> length (ids ix)), ids := ids ix @ [i]\<rparr>"
  shows "flat_insert i v ix = Done (Inr iy) \<and> flat_inv iy \<and> flat_abs iy = (flat_abs ix)(i \<mapsto> v)"
proof -
  have shape: "flat_shape ix" using assms(1) by (simp add: flat_inv_def)
  have inv: "flat_inv iy"
    using assms by (auto simp: flat_inv_def flat_shape_def find_pos_append find_pos_None split: option.splits)
  have rows: "row iy p = (if p = length (ids ix) then v else row ix p)" if "p < length (ids iy)" for p
    using that shape assms(2) row_append [OF shape, of p v]
    by (auto simp: row_def iy_def flat_shape_def)
  have "flat_abs iy = (flat_abs ix)(i \<mapsto> v)"
  proof (rule flat_abs_eqI)
    show "flat_shape iy" using inv by (simp add: flat_inv_def)
    show "dom ((flat_abs ix)(i \<mapsto> v)) = set (ids iy)"
      by (auto simp: dom_flat_abs iy_def)
    show "((flat_abs ix)(i \<mapsto> v)) (ids iy ! p) = Some (row iy p)" if p: "p < length (ids iy)" for p
      using p rows [OF p] assms(3) flat_abs_nth [OF shape, of p] nth_mem [of p "ids ix"]
      by (auto simp: iy_def nth_append)
  qed
  moreover have "idset ix i = None"
    using assms(1,3) by (simp add: flat_inv_def find_pos_None)
  ultimately show ?thesis
    using inv assms(2) by (simp add: flat_insert_def iy_def)
qed

lemma flat_insert_old:
  assumes "flat_inv ix" "length v = dim ix" "i \<in> set (ids ix)"
  shows "\<exists>iy. flat_insert i v ix = Done (Inr iy) \<and> flat_inv iy \<and> dim iy = dim ix
    \<and> flat_abs iy = (flat_abs ix)(i \<mapsto> v)"
proof -
  have shape: "flat_shape ix" using assms(1) by (simp add: flat_inv_def)
  obtain p where p: "find_pos (ids ix) i = Some p"
    using assms(3) find_pos_None by fastforce
  then have pl: "p < length (ids ix)" and pi: "ids ix ! p = i"
    using find_pos_Some by auto
  define vs where "vs = take (dim ix * p) (vecs ix) @ v @ drop (dim ix * p + dim ix) (vecs ix)"
  define iy where "iy = ix\<lparr>vecs := vs\<rparr>"
  have w: "write_row (vecs ix) (dim ix * p) v = Done vs"
    using row_bound [OF shape pl] assms(2) by (simp add: write_row_Done vs_def)
  have "length vs = length (vecs ix)"
    using row_bound [OF shape pl] assms(2) by (simp add: vs_def)
  then have inv: "flat_inv iy"
    using assms(1) by (simp add: flat_inv_def flat_shape_def iy_def)
  have rows: "row iy q = (if q = p then v else row ix q)" if "q < length (ids ix)" for q
    using row_overwrite [OF shape pl that assms(2) vs_def] by (simp add: row_def iy_def)
  have "flat_abs iy = (flat_abs ix)(i \<mapsto> v)"
  proof (rule flat_abs_eqI)
    show "flat_shape iy" using inv by (simp add: flat_inv_def)
    show "dom ((flat_abs ix)(i \<mapsto> v)) = set (ids iy)"
      using assms(3) by (auto simp: dom_flat_abs iy_def)
    show "((flat_abs ix)(i \<mapsto> v)) (ids iy ! q) = Some (row iy q)" if "q < length (ids iy)" for q
    proof -
      have q: "q < length (ids ix)" using that by (simp add: iy_def)
      have "ids ix ! q = i \<longleftrightarrow> q = p"
        using q pl pi shape nth_eq_iff_index_eq [of "ids ix" q p] by (auto simp: flat_shape_def)
      then show ?thesis
        using q rows flat_abs_nth [OF shape q] by (simp add: iy_def)
    qed
  qed
  then show ?thesis
    using inv w assms(1,2) p by (auto simp: flat_insert_def flat_inv_def iy_def)
qed

lemma flat_insert_ok:
  assumes "flat_inv ix" "length v = dim ix"
  shows "\<exists>iy. flat_insert i v ix = Done (Inr iy) \<and> flat_inv iy \<and> dim iy = dim ix
    \<and> flat_abs iy = (flat_abs ix)(i \<mapsto> v)"
proof (cases "i \<in> set (ids ix)")
  case True
  then show ?thesis using flat_insert_old [OF assms] by blast
next
  case False
  then show ?thesis using flat_insert_new [OF assms] by fastforce
qed

subsection \<open>Deletion\<close>

lemma length_swap_remove [simp]: "length (swap_remove xs p) = length xs - 1"
  by (simp add: swap_remove_def)

lemma nth_swap_remove:
  "p < length xs \<Longrightarrow> q < length xs - 1 \<Longrightarrow>
    swap_remove xs p ! q = (if q = p then last xs else xs ! q)"
  by (auto simp: swap_remove_def nth_butlast)

lemma swap_remove_perm:
  assumes "p < length xs"
  shows "mset (swap_remove xs p) = mset xs - {#xs ! p#}"
proof (cases xs rule: rev_cases)
  case (snoc ys y)
  show ?thesis
  proof (cases "p = length ys")
    case True
    then show ?thesis using snoc by (simp add: swap_remove_def)
  next
    case False
    then have "p < length ys" using assms snoc by simp
    then show ?thesis
      using snoc by (simp add: swap_remove_def butlast_list_update list_update_append nth_append mset_update)
  qed
qed (use assms in simp)

lemma swap_remove_distinct:
  assumes "distinct xs" "p < length xs"
  shows "distinct (swap_remove xs p) \<and> set (swap_remove xs p) = set xs - {xs ! p}"
proof -
  have xs: "mset xs = mset_set (set xs)"
    using assms(1) mset_set_set by metis
  have "mset (swap_remove xs p) = mset_set (set xs - {xs ! p})"
    using swap_remove_perm [OF assms(2)] xs assms(2) by (simp add: mset_set_Diff)
  then show ?thesis
    by (metis distinct_count_atmost_1 count_mset_set' finite_set_mset_mset_set finite_Diff List.finite_set set_mset_mset)
qed

lemma copy_row_last:
  assumes "flat_shape ix" "p < length (ids ix)"
  defines "n \<equiv> length (vecs ix) - dim ix"
  shows "copy_row (vecs ix) (dim ix * p) n (dim ix) =
    Done (take (dim ix * p) (vecs ix) @ row ix (length (ids ix) - 1) @ drop (dim ix * p + dim ix) (vecs ix))"
proof -
  let ?N = "length (ids ix)"
  have n: "n = dim ix * (?N - 1)"
    using assms(1) by (simp add: n_def flat_shape_def diff_mult_distrib2)
  have "dim ix * p + dim ix \<le> n \<or> dim ix * p = n"
    using assms(2) row_disjoint [of p "?N - 1" "dim ix"] n by (cases "p = ?N - 1") auto
  moreover have "n + dim ix \<le> length (vecs ix)"
    using row_bound [OF assms(1,2)] by (simp add: n_def)
  ultimately show ?thesis
    by (simp add: copy_row_Done row_def n)
qed

lemma flat_delete_ok:
  assumes "flat_shape ix"
  shows "\<exists>iy. flat_delete i ix = Done iy \<and> flat_shape iy \<and> dim iy = dim ix
    \<and> flat_abs iy = (flat_abs ix)(i := None)"
proof (cases "find_pos (ids ix) i")
  case None
  then have "flat_abs ix i = None" by (simp add: flat_abs_def)
  then show ?thesis
    using None assms by (auto simp: flat_delete_def fun_upd_idem)
next
  case (Some p)
  let ?N = "length (ids ix)"
  have p: "p < ?N" "ids ix ! p = i" using find_pos_Some [OF Some] by auto
  define vs where "vs = take (dim ix * p) (vecs ix) @ row ix (?N - 1) @ drop (dim ix * p + dim ix) (vecs ix)"
  define iy where "iy = ix\<lparr>vecs := take (length (vecs ix) - dim ix) vs,
    ids := swap_remove (ids ix) p, idset := (idset ix)(i := None)\<rparr>"
  have len: "length (vecs ix) = dim ix * ?N" using assms by (simp add: flat_shape_def)
  have lrow: "length (row ix (?N - 1)) = dim ix" using p(1) assms by simp
  have lvs: "length vs = length (vecs ix)"
    using row_bound [OF assms p(1)] lrow by (simp add: vs_def)
  have del: "flat_delete i ix = Done iy"
    using Some copy_row_last [OF assms p(1)] row_bound [OF assms p(1)]
    by (simp add: flat_delete_def Let_def iy_def vs_def)
  have sr: "distinct (ids iy) \<and> set (ids iy) = set (ids ix) - {i}"
    using swap_remove_distinct [of "ids ix" p] assms p by (simp add: iy_def flat_shape_def)
  have shape: "flat_shape iy"
    using assms sr lvs len by (auto simp: flat_shape_def iy_def diff_mult_distrib2)
  have rows: "row iy q = (if q = p then row ix (?N - 1) else row ix q)" if "q < ?N - 1" for q
  proof -
    have "dim ix * q + dim ix \<le> length (vecs ix) - dim ix"
      using row_disjoint [OF that, of "dim ix"] len by (simp add: diff_mult_distrib2)
    then have "row iy q = take (dim ix) (drop (dim ix * q) vs)"
      by (simp add: row_def iy_def drop_take min_def)
    then show ?thesis
      using row_overwrite [OF assms p(1) _ lrow vs_def, of q] that by simp
  qed
  have "flat_abs iy = (flat_abs ix)(i := None)"
  proof (rule flat_abs_eqI [OF shape])
    show "dom ((flat_abs ix)(i := None)) = set (ids iy)"
      using sr by (auto simp: dom_flat_abs)
    show "((flat_abs ix)(i := None)) (ids iy ! q) = Some (row iy q)" if q: "q < length (ids iy)" for q
    proof -
      have ql: "q < ?N - 1" using q by (simp add: iy_def)
      have neq: "ids iy ! q \<noteq> i" using sr q nth_mem by fastforce
      have "ids ix \<noteq> []" using p(1) by auto
      then have "ids iy ! q = ids ix ! (if q = p then ?N - 1 else q)"
        using ql p(1) nth_swap_remove [OF p(1) ql] by (simp add: iy_def last_conv_nth)
      then show ?thesis
        using neq rows [OF ql] flat_abs_nth [OF assms, of "if q = p then ?N - 1 else q"] ql by auto
    qed
  qed
  then show ?thesis using del shape by (auto simp: iy_def)
qed

subsection \<open>Search\<close>

lemma distinct_submset:
  assumes "mset xs \<subseteq># mset ys" "distinct ys"
  shows "distinct xs"
proof -
  have "count (mset xs) a \<le> 1" for a
    using mset_subset_eq_count [OF assms(1), of a] assms(2)
    by (metis distinct_count_atmost_1 le_zero_eq linorder_not_le nat_le_linear not_less_eq_eq One_nat_def)
  then show ?thesis
    by (metis distinct_count_atmost_1 count_greater_eq_one_iff count_mset_0_iff le_antisym set_mset_mset)
qed

definition no_nan :: "(nat \<times> f32) list \<Rightarrow> bool" where
  "no_nan xs \<longleftrightarrow> (\<forall>x \<in> set xs. \<not> f32_is_nan (snd x))"

definition dist_key :: "nat \<times> f32 \<Rightarrow> int" where
  "dist_key x = f32_key (snd x)"

text \<open>
  What the standard library documents of the two sorting routines, on slices without a NaN: both
  permute their slice; selection puts the element of rank \<open>i\<close> at position \<open>i\<close> with nothing larger
  before it and nothing smaller after it; sorting sorts.
\<close>

locale unstable_sorting =
  fixes sel :: "nat \<Rightarrow> (nat \<times> f32) list \<Rightarrow> (nat \<times> f32) list"
    and srt :: "(nat \<times> f32) list \<Rightarrow> (nat \<times> f32) list"
  assumes sel_perm: "\<lbrakk>i < length xs; no_nan xs\<rbrakk> \<Longrightarrow> mset (sel i xs) = mset xs"
    and sel_low: "\<lbrakk>i < length xs; no_nan xs; j < i\<rbrakk> \<Longrightarrow> dist_key (sel i xs ! j) \<le> dist_key (sel i xs ! i)"
    and sel_high: "\<lbrakk>j < length xs; no_nan xs; i < j\<rbrakk> \<Longrightarrow> dist_key (sel i xs ! i) \<le> dist_key (sel i xs ! j)"
    and srt_perm: "no_nan xs \<Longrightarrow> mset (srt xs) = mset xs"
    and srt_sorted: "no_nan xs \<Longrightarrow> sorted (map dist_key (srt xs))"
begin

lemma top_k:
  assumes "no_nan ds" "0 < k" "k \<le> length ds"
  defines "r \<equiv> srt (take k (sel (k - 1) ds))"
  shows "length r = k \<and> sorted (map dist_key r) \<and> mset r \<subseteq># mset ds
    \<and> (\<forall>x \<in># mset ds - mset r. \<forall>y \<in> set r. dist_key y \<le> dist_key x)"
proof -
  let ?s = "sel (k - 1) ds"
  have perm: "mset ?s = mset ds" using assms(1-3) by (intro sel_perm) auto
  then have len: "length ?s = length ds" by (metis size_mset)
  have nn: "no_nan (take k ?s)"
    using assms(1) mset_eq_setD [OF perm] by (auto simp: no_nan_def dest: in_set_takeD)
  have r: "mset r = mset (take k ?s)" using srt_perm [OF nn] by (simp add: r_def)
  have split: "mset ds = mset (take k ?s) + mset (drop k ?s)"
    using perm by (metis append_take_drop_id mset_append)
  have pivot: "dist_key y \<le> dist_key (?s ! (k - 1))" if "y \<in> set (take k ?s)" for y
  proof -
    from that obtain j where j: "j < k" "y = ?s ! j"
      using len assms(3) by (auto simp: in_set_conv_nth)
    then show ?thesis
      using sel_low [of "k - 1" ds j] assms(1-3) by (cases "j = k - 1") auto
  qed
  have pivot2: "dist_key (?s ! (k - 1)) \<le> dist_key x" if "x \<in> set (drop k ?s)" for x
  proof -
    from that obtain j where "j < length ds - k" "x = ?s ! (k + j)"
      using len assms(3) by (auto simp: in_set_conv_nth)
    then show ?thesis using sel_high [of "k + j" ds "k - 1"] assms(1,2) by simp
  qed
  have "length r = k" using r len assms(3) by (metis length_take min_absorb2 size_mset)
  moreover have "set r = set (take k ?s)" using mset_eq_setD [OF r] .
  moreover have "mset ds - mset r = mset (drop k ?s)" using split r by simp
  moreover have "mset r \<subseteq># mset ds" using split r by simp
  moreover have "sorted (map dist_key r)" using srt_sorted [OF nn] by (simp add: r_def)
  moreover have "dist_key y \<le> dist_key x" if "y \<in> set (take k ?s)" "x \<in> set (drop k ?s)" for x y
    using order_trans [OF pivot [OF that(1)] pivot2 [OF that(2)]] .
  ultimately show ?thesis by auto
qed

end

text \<open>A reference implementation of both routines: stable sorting by distance.\<close>

definition ref_sort :: "(nat \<times> f32) list \<Rightarrow> (nat \<times> f32) list" where
  "ref_sort xs = sort_key dist_key xs"

definition ref_select :: "nat \<Rightarrow> (nat \<times> f32) list \<Rightarrow> (nat \<times> f32) list" where
  "ref_select i xs = sort_key dist_key xs"

interpretation std_sort: unstable_sorting ref_select ref_sort
proof unfold_locales
  fix i j :: nat and xs :: "(nat \<times> f32) list"
  have mono: "dist_key (sort_key dist_key xs ! a) \<le> dist_key (sort_key dist_key xs ! b)"
    if "a < b" "b < length xs" for a b
    using sorted_nth_mono [of "map dist_key (sort_key dist_key xs)" a b] that by simp
  show "i < length xs \<Longrightarrow> j < i \<Longrightarrow> dist_key (ref_select i xs ! j) \<le> dist_key (ref_select i xs ! i)"
    using mono by (simp add: ref_select_def)
  show "j < length xs \<Longrightarrow> i < j \<Longrightarrow> dist_key (ref_select i xs ! i) \<le> dist_key (ref_select i xs ! j)"
    using mono by (simp add: ref_select_def)
qed (simp_all add: ref_select_def ref_sort_def)

lemma chunks_rows:
  "length xs = n * m \<Longrightarrow> 0 < n \<Longrightarrow> chunks n xs = map (\<lambda>p. take n (drop (n * p) xs)) [0..<m]"
proof (induction m arbitrary: xs)
  case 0
  then show ?case by (simp add: chunks.simps)
next
  case (Suc m)
  then have "chunks n xs = take n xs # chunks n (drop n xs)"
    by (subst chunks.simps) auto
  also have "chunks n (drop n xs) = map (\<lambda>p. take n (drop (n * p) (drop n xs))) [0..<m]"
    using Suc by simp
  finally show ?case
    by (simp add: upt_rec [of 0 "Suc m"] map_Suc_upt [symmetric] add.commute del: upt_Suc)
qed

lemma distances_rows:
  assumes "flat_shape ix" "0 < dim ix"
  shows "distances fo df query ix =
    map (\<lambda>p. (ids ix ! p, dist_fn fo df (row ix p) query)) [0..<length (ids ix)]"
proof -
  have c: "chunks (dim ix) (vecs ix) = map (row ix) [0..<length (ids ix)]"
    using assms chunks_rows [of "vecs ix" "dim ix" "length (ids ix)"] by (simp add: flat_shape_def row_def [abs_def])
  have "zip (map (row ix) [0..<length (ids ix)]) (ids ix) = map (\<lambda>p. (row ix p, ids ix ! p)) [0..<length (ids ix)]"
    by (rule nth_equalityI) auto
  then show ?thesis by (simp add: distances_def c)
qed

lemma distances_abs:
  assumes "flat_shape ix" "0 < dim ix"
  shows "(i, d) \<in> set (distances fo df query ix) \<longleftrightarrow>
    (\<exists>v. flat_abs ix i = Some v \<and> d = dist_fn fo df v query)"
proof -
  have "(\<exists>v. flat_abs ix i = Some v \<and> d = dist_fn fo df v query) \<longleftrightarrow>
    (\<exists>p < length (ids ix). i = ids ix ! p \<and> d = dist_fn fo df (row ix p) query)"
    using assms(1) find_pos_Some [of "ids ix" i] find_pos_nth [of "ids ix"]
    by (fastforce simp: flat_abs_def flat_shape_def)
  then show ?thesis
    using assms by (auto simp: distances_rows)
qed

lemma distinct_distances:
  "flat_shape ix \<Longrightarrow> 0 < dim ix \<Longrightarrow> distinct (map fst (distances fo df query ix))"
  by (simp add: distances_rows flat_shape_def comp_def map_nth)

lemma flat_search_top_k:
  assumes "unstable_sorting sel srt" "flat_shape ix" "0 < dim ix" "ids ix \<noteq> []" "0 < k"
    and "no_nan (distances fo df query ix)"
  shows "\<exists>r. flat_search fo sel srt query k df ix = Done r
    \<and> length r = min k (length (ids ix)) \<and> sorted (map dist_key r) \<and> distinct (map fst r)
    \<and> (\<forall>(i, d) \<in> set r. \<exists>v. flat_abs ix i = Some v \<and> d = dist_fn fo df v query)
    \<and> (\<forall>i v. flat_abs ix i = Some v \<and> i \<notin> fst ` set r \<longrightarrow>
          (\<forall>x \<in> set r. dist_key x \<le> f32_key (dist_fn fo df v query)))"
proof -
  let ?ds = "distances fo df query ix" and ?k = "min k (length (ids ix))"
  have len: "length ?ds = length (ids ix)" using assms(2,3) by (simp add: distances_rows)
  define r where "r = srt (take ?k (sel (?k - 1) ?ds))"
  have ret: "flat_search fo sel srt query k df ix = Done r"
    using assms(3-6) len by (auto simp: flat_search_def Let_def r_def no_nan_def list_ex_iff)
  have top: "length r = ?k \<and> sorted (map dist_key r) \<and> mset r \<subseteq># mset ?ds
    \<and> (\<forall>x \<in># mset ?ds - mset r. \<forall>y \<in> set r. dist_key y \<le> dist_key x)"
    using unstable_sorting.top_k [OF assms(1,6), of ?k] assms(4,5) len by (simp add: r_def)
  have dist: "distinct (map fst r)"
    using top distinct_distances [OF assms(2,3)] distinct_submset [of "map fst r" "map fst ?ds"]
    by (simp add: image_mset_subseteq_mono)
  have sub: "set r \<subseteq> set ?ds" using top set_mset_mono [of "mset r" "mset ?ds"] by simp
  have rest: "dist_key x \<le> f32_key (dist_fn fo df v query)"
    if "flat_abs ix i = Some v" "i \<notin> fst ` set r" "x \<in> set r" for i v x
  proof -
    let ?e = "(i, dist_fn fo df v query)"
    have "?e \<in> set ?ds" "?e \<notin> set r"
      using that distances_abs [OF assms(2,3)] by (auto simp: image_iff)
    then have "count (mset r) ?e = 0" "0 < count (mset ?ds) ?e"
      by (simp_all only: count_mset_0_iff count_greater_zero_iff set_mset_mset not_False_eq_True)
    then have "?e \<in># mset ?ds - mset r"
      unfolding in_diff_count by linarith
    then show ?thesis using top that(3) by (fastforce simp: dist_key_def)
  qed
  show ?thesis
    using ret top dist sub rest distances_abs [OF assms(2,3)] by (intro exI [of _ r]) auto
qed

text \<open>
  C20. A search with a positive \<open>k\<close> over a non-empty index whose distances are all comparable
  returns, whatever the unstable sorting routines do with equal distances, the \<open>k\<close> nearest rows
  (all of them when there are fewer): distinct identifiers of stored rows with their distances, in
  ascending order, and no row left out is nearer than a row returned.
\<close>

theorem flat_search_nearest:
  assumes "unstable_sorting sel srt" "flat_shape ix" "0 < dim ix" "ids ix \<noteq> []" "0 < k"
    and "no_nan (distances fo df query ix)"
  shows "\<exists>r. flat_search fo sel srt query k df ix = Done r
    \<and> length r = min k (length (ids ix)) \<and> sorted (map dist_key r) \<and> distinct (map fst r)
    \<and> (\<forall>(i, d) \<in> set r. \<exists>v. flat_abs ix i = Some v \<and> d = dist_fn fo df v query)
    \<and> (\<forall>i v. flat_abs ix i = Some v \<and> i \<notin> fst ` set r \<longrightarrow>
          (\<forall>x \<in> set r. dist_key x \<le> f32_key (dist_fn fo df v query)))"
  using assms by (rule flat_search_top_k)

text \<open>A one-dimensional index with three rows, over word arithmetic, for the concrete instances.\<close>

definition demo_ops :: f32_ops where
  "demo_ops = \<lparr>f_add = (+), f_sub = (-), f_mul = (*), f_sum_unit = 0\<rparr>"

definition demo_ix :: FlatIndex where
  "demo_ix = \<lparr>dim = 1, vecs = [1, 5, 9], ids = [10, 20, 30], idset = [10 \<mapsto> 0, 20 \<mapsto> 1, 30 \<mapsto> 2]\<rparr>"

lemma demo_ix_inv: "flat_inv demo_ix"
  by (auto simp: flat_inv_def flat_shape_def demo_ix_def)

lemma demo_ix_abs:
  "flat_abs demo_ix 10 = Some [1]" "flat_abs demo_ix 20 = Some [5]" "flat_abs demo_ix 30 = Some [9]"
  "flat_abs demo_ix 40 = None" "dim demo_ix = 1"
  by (simp_all add: demo_ix_def flat_abs_def row_def)

lemma demo_ix_no_nan: "no_nan (distances demo_ops L2 [4] demo_ix)"
  by (simp add: no_nan_def distances_def chunks.simps demo_ix_def demo_ops_def dist_fn_def l2_distance_def
      f32_is_nan_def f32_magnitude_def)

theorem flat_search_nearest_witness:
  "\<exists>r. flat_search demo_ops ref_select ref_sort [4] 2 L2 demo_ix = Done r \<and> length r = 2
    \<and> sorted (map dist_key r)"
proof -
  have "flat_shape demo_ix" using demo_ix_inv by (simp add: flat_inv_def)
  then show ?thesis
    using flat_search_nearest [OF std_sort.unstable_sorting_axioms _ _ _ _ demo_ix_no_nan, of 2]
    by (fastforce simp: demo_ix_def)
qed

text \<open>
  Searching an index that holds no row panics for every positive \<open>k\<close>: the code selects position
  \<^verbatim>\<open>k.min(0) - 1\<close> of an empty slice.
\<close>

lemma flat_search_empty_panics:
  assumes "0 < k"
  shows "flat_search fo sel srt query k df (flat_new n) = Panic"
  using assms by (simp add: flat_search_def Let_def distances_def flat_new_def chunks.simps)

section \<open>The index interface and its client\<close>

text \<open>
  What a client of the trait \<^verbatim>\<open>Index\<close> relies on: rows of the index's width are stored, rows of
  another width are refused without effect, and the rest of the index is untouched.
\<close>

locale vec_index =
  fixes ins :: "nat \<Rightarrow> f32 list \<Rightarrow> 'i \<Rightarrow> 'i res run"
    and width :: "'i \<Rightarrow> nat"
    and inv :: "'i \<Rightarrow> bool"
    and abs :: "'i \<Rightarrow> nat \<rightharpoonup> f32 list"
  assumes ins_ok: "\<lbrakk>inv x; length v = width x\<rbrakk> \<Longrightarrow>
      \<exists>y. ins i v x = Done (Inr y) \<and> inv y \<and> width y = width x \<and> abs y = (abs x)(i \<mapsto> v)"
    and ins_err: "length v \<noteq> width x \<Longrightarrow> \<exists>e. ins i v x = Done (Inl e)"
begin

lemma batch_insert_ok:
  "inv x \<Longrightarrow> \<exists>y. batch_insert ins rs x = Done y \<and> inv y \<and> width y = width x
    \<and> abs y = abs x ++ map_of (rev (filter (\<lambda>r. length (snd r) = width x) rs))"
proof (induction rs arbitrary: x)
  case Nil
  then show ?case by simp
next
  case (Cons r rs)
  obtain i v where r: "r = (i, v)" by force
  show ?case
  proof (cases "length v = width x")
    case True
    then obtain y where y: "ins i v x = Done (Inr y)" "inv y" "width y = width x" "abs y = (abs x)(i \<mapsto> v)"
      using ins_ok [OF Cons.prems] by blast
    obtain z where "batch_insert ins rs y = Done z" "inv z" "width z = width y"
      "abs z = abs y ++ map_of (rev (filter (\<lambda>r. length (snd r) = width y) rs))"
      using Cons.IH [OF y(2)] by blast
    then show ?thesis
      using y True by (intro exI [of _ z]) (simp add: r)
  next
    case False
    then obtain e where "ins i v x = Done (Inl e)" using ins_err by blast
    then show ?thesis using Cons.IH [OF Cons.prems] False by (simp add: r)
  qed
qed

end

interpretation flat: vec_index flat_insert dim flat_inv flat_abs
proof unfold_locales
  fix ix v i
  show "flat_inv ix \<Longrightarrow> length v = dim ix \<Longrightarrow> \<exists>iy. flat_insert i v ix = Done (Inr iy) \<and> flat_inv iy
    \<and> dim iy = dim ix \<and> flat_abs iy = (flat_abs ix)(i \<mapsto> v)"
    by (rule flat_insert_ok)
  show "length v \<noteq> dim ix \<Longrightarrow> \<exists>e. flat_insert i v ix = Done (Inl e)"
    by (simp add: flat_insert_def)
qed

text \<open>
  C22. Inserting a batch of rows into a consistent index never panics, keeps it consistent, and
  refines a map update: afterwards every identifier of a row of the right width is bound to the
  last such row of the batch, rows of another width are skipped and all other identifiers keep
  their rows.
\<close>

theorem batch_insert_refines:
  assumes "flat_inv ix"
  shows "\<exists>iy. batch_insert flat_insert rs ix = Done iy \<and> flat_inv iy \<and> dim iy = dim ix
    \<and> flat_abs iy = flat_abs ix ++ map_of (rev (filter (\<lambda>r. length (snd r) = dim ix) rs))"
  using assms by (rule flat.batch_insert_ok)

theorem batch_insert_refines_witness:
  "\<exists>iy. batch_insert flat_insert [(20, [7]), (40, [8, 8])] demo_ix = Done iy \<and> flat_abs iy 20 = Some [7]
    \<and> flat_abs iy 40 = None"
proof -
  obtain iy where "batch_insert flat_insert [(20, [7]), (40, [8, 8])] demo_ix = Done iy"
    "flat_abs iy = flat_abs demo_ix ++ map_of (rev (filter (\<lambda>r. length (snd r) = dim demo_ix) [(20, [7]), (40, [8, 8])]))"
    using batch_insert_refines [OF demo_ix_inv] by blast
  then show ?thesis by (simp add: demo_ix_abs del: batch_insert.simps)
qed

text \<open>
  C23. Deleting an identifier from a well-shaped index always returns, keeps the shape and removes
  exactly that identifier's row from the map the index represents, whichever row is moved into the gap.
\<close>

theorem flat_delete_refines:
  assumes "flat_shape ix"
  shows "\<exists>iy. flat_delete i ix = Done iy \<and> flat_shape iy \<and> dim iy = dim ix
    \<and> flat_abs iy = (flat_abs ix)(i := None)"
  using assms by (rule flat_delete_ok)

theorem flat_delete_refines_witness:
  "\<exists>iy. flat_delete 10 demo_ix = Done iy \<and> flat_abs iy 10 = None \<and> flat_abs iy 30 = Some [9]"
proof -
  have "flat_shape demo_ix" using demo_ix_inv by (simp add: flat_inv_def)
  from flat_delete_refines [OF this, of 10] obtain iy where "flat_delete 10 demo_ix = Done iy"
    "flat_abs iy = (flat_abs demo_ix)(10 := None)" by blast
  then show ?thesis by (simp add: demo_ix_abs)
qed

text \<open>
  After deleting a row that is not the last one, the row number recorded for the moved last
  identifier is stale: inserting that identifier again writes behind the end of the array and
  panics.
\<close>

lemma flat_delete_leaves_stale_position:
  assumes "flat_inv ix" "0 < dim ix" "i \<in> set (ids ix)" "i \<noteq> last (ids ix)" "length v = dim ix"
  shows "\<exists>iy. flat_delete i ix = Done iy \<and> flat_insert (last (ids ix)) v iy = Panic"
proof -
  have shape: "flat_shape ix" using assms(1) by (simp add: flat_inv_def)
  obtain p where p: "find_pos (ids ix) i = Some p" using assms(3) find_pos_None by fastforce
  have pl: "p < length (ids ix)" using find_pos_Some [OF p] by simp
  obtain iy where iy: "flat_delete i ix = Done iy" "flat_shape iy" "dim iy = dim ix"
    using flat_delete_ok [OF shape] by blast
  have ids: "ids iy = swap_remove (ids ix) p" and st: "idset iy = (idset ix)(i := None)"
    using iy(1) p by (auto simp: flat_delete_def Let_def run_simps split: if_splits)
  have "ids ix \<noteq> []" using pl by auto
  then have "find_pos (ids ix) (last (ids ix)) = Some (length (ids ix) - 1)"
    using shape find_pos_nth [of "ids ix" "length (ids ix) - 1"]
    by (simp add: flat_shape_def last_conv_nth)
  then have pos: "idset iy (last (ids ix)) = Some (length (ids ix) - 1)"
    using assms(1,4) st by (simp add: flat_inv_def)
  have "length (vecs iy) = dim ix * (length (ids ix) - 1)"
    using iy ids by (simp add: flat_shape_def)
  moreover obtain x xs where "v = x # xs" using assms(2,5) by (cases v) auto
  ultimately have "write_row (vecs iy) (dim iy * (length (ids ix) - 1)) v = Panic"
    using iy(3) by simp
  then show ?thesis
    using iy assms(5) pos by (auto simp: flat_insert_def)
qed

end
