(* ===== verification/Datastore.thy ===== *)
theory Datastore
  imports Vector_Index
begin

text \<open>
  The in-memory store of \<^verbatim>\<open>efis/src/store.rs\<close>: values with an optional expiry instant, kept in a
  \<^verbatim>\<open>DashMap\<close>. Instants and durations are nanoseconds since the Unix epoch; every operation takes the
  clock reading \<open>now\<close> it makes.

  \<^verbatim>\<open>DashMap\<close> is a third-party crate. It is modelled as a finite map whose single operations are
  atomic; the one further fact the store depends on is the parameter \<open>relock\<close>: whether a task that
  holds a reference into the map may remove that same key. The crate documents that it must not
  (the call may deadlock), so \<open>relock = False\<close> is the documented behaviour.

  The lemmas relate every operation to the live view of the store, the finite map of the values
  that have not expired.
\<close>

section \<open>Values and items\<close>

datatype Value =
    Text string
  | List "string list"
  | Set "string set"
  | SortedSet "(int \<times> string) list"
  | Vector FlatIndex

record Item =
  item_value :: Value
  item_expiry :: "nat option"

text \<open>\<^verbatim>\<open>BTreeMap::insert\<close>: the map is its ordered list of bindings.\<close>

fun btree_insert :: "int \<Rightarrow> string \<Rightarrow> (int \<times> string) list \<Rightarrow> (int \<times> string) list" where
  "btree_insert k v [] = [(k, v)]"
| "btree_insert k v ((k', v') # m) =
     (if k < k' then (k, v) # (k', v') # m
      else if k = k' then (k, v) # m
      else (k', v') # btree_insert k v m)"

section \<open>Time\<close>

definition nanos :: nat where
  "nanos = 1000000000"

definition from_secs :: "nat \<Rightarrow> nat" where
  "from_secs s = s * nanos"

text \<open>\<^verbatim>\<open>SystemTime + Duration\<close> panics when the seconds leave the \<^verbatim>\<open>i64\<close> range.\<close>

definition time_add :: "nat \<Rightarrow> nat \<Rightarrow> nat run" where
  "time_add t d = (if t + d < 2 ^ 63 * nanos then Done (t + d) else Panic)"

section \<open>The store\<close>

record Datastore =
  data :: "string \<rightharpoonup> Item"

definition ds_new :: Datastore where
  "ds_new = \<lparr>data = Map.empty\<rparr>"

text \<open>\<^verbatim>\<open>Datastore::encode\<close>: the encoding of the contents is commented out in the source.\<close>

definition ds_encode :: "Datastore \<Rightarrow> 8 word list res" where
  "ds_encode ds = Inr []"

definition ds_set :: "nat \<Rightarrow> string \<Rightarrow> Value \<Rightarrow> nat option \<Rightarrow> Datastore \<Rightarrow> (unit res \<times> Datastore) run" where
  "ds_set now key v expiry ds =
     run_bind (case expiry of None \<Rightarrow> Done None | Some d \<Rightarrow> run_map Some (time_add now d)) (\<lambda>e.
       Done (Inr (), ds\<lparr>data := (data ds)(key \<mapsto> \<lparr>item_value = v, item_expiry = e\<rparr>)\<rparr>))"

text \<open>
  \<^verbatim>\<open>get_sync\<close>, and \<^verbatim>\<open>get\<close> which calls it. The reference \<open>item\<close> into the map is still held when an
  expired key is removed.
\<close>

definition ds_get :: "bool \<Rightarrow> nat \<Rightarrow> string \<Rightarrow> Datastore \<Rightarrow> (Value option \<times> Datastore) run" where
  "ds_get relock now key ds =
     (case data ds key of
        Some item \<Rightarrow>
          (case item_expiry item of
             Some e \<Rightarrow>
               if e \<le> now then
                 if relock then Done (None, ds\<lparr>data := (data ds)(key := None)\<rparr>) else Hang
               else Done (Some (item_value item), ds)
           | None \<Rightarrow> Done (Some (item_value item), ds))
      | None \<Rightarrow> Done (None, ds))"

definition ds_remove :: "string \<Rightarrow> Datastore \<Rightarrow> unit res \<times> Datastore" where
  "ds_remove key ds =
     (if data ds key \<noteq> None then (Inr (), ds\<lparr>data := (data ds)(key := None)\<rparr>)
      else (Inl ''key not found'', ds))"

definition ds_expire :: "nat \<Rightarrow> string \<Rightarrow> nat \<Rightarrow> Datastore \<Rightarrow> (unit res \<times> Datastore) run" where
  "ds_expire now key d ds =
     (case data ds key of
        Some item \<Rightarrow>
          run_bind (time_add now d) (\<lambda>e.
            Done (Inr (), ds\<lparr>data := (data ds)(key \<mapsto> item\<lparr>item_expiry := Some e\<rparr>)\<rparr>))
      | None \<Rightarrow> Done (Inl ''key not found'', ds))"

definition ds_ttl :: "bool \<Rightarrow> nat \<Rightarrow> string \<Rightarrow> Datastore \<Rightarrow> (nat option res \<times> Datastore) run" where
  "ds_ttl relock now key ds =
     (case data ds key of
        Some item \<Rightarrow>
          (case item_expiry item of
             Some e \<Rightarrow>
               if e \<le> now then
                 if relock then Done (Inl ''key expired'', ds\<lparr>data := (data ds)(key := None)\<rparr>) else Hang
               else Done (Inr (Some (e - now)), ds)
           | None \<Rightarrow> Done (Inr None, ds))
      | None \<Rightarrow> Done (Inl ''key not found'', ds))"

text \<open>
  \<^verbatim>\<open>modify\<close> runs a closure on the value in place. The closure also reads and writes variables it
  captured, of type \<open>'c\<close>. The expiry is not looked at.
\<close>

definition ds_modify ::
  "string \<Rightarrow> (Value \<Rightarrow> 'c \<Rightarrow> (unit res \<times> Value \<times> 'c) run) \<Rightarrow> 'c \<Rightarrow> Datastore \<Rightarrow> (unit res \<times> 'c \<times> Datastore) run" where
  "ds_modify key modifier c ds =
     (case data ds key of
        Some item \<Rightarrow>
          run_bind (modifier (item_value item) c) (\<lambda>(r, v, c').
            Done (r, c', ds\<lparr>data := (data ds)(key \<mapsto> item\<lparr>item_value := v\<rparr>)\<rparr>))
      | None \<Rightarrow> Done (Inl ''key not found'', c, ds))"

section \<open>The guard: start-up and backups\<close>

record DatastoreGuard =
  guard_store :: Datastore
  guard_interval :: "nat option"
  guard_path :: "string option"
  guard_backup_task :: "(nat \<times> string) option"

text \<open>\<^verbatim>\<open>impl From<Vec<u8>> for DatastoreGuard\<close>: decoding is commented out, the bytes are ignored.\<close>

definition guard_from :: "8 word list \<Rightarrow> DatastoreGuard" where
  "guard_from bytes = \<lparr>guard_store = ds_new, guard_interval = None, guard_path = None, guard_backup_task = None\<rparr>"

text \<open>\<^verbatim>\<open>run_backup\<close> starts the task that saves the store every \<open>interval\<close>; it unwraps the path.\<close>

definition run_backup :: "DatastoreGuard \<Rightarrow> DatastoreGuard run" where
  "run_backup g =
     (case guard_interval g of
        None \<Rightarrow> Done g
      | Some dur \<Rightarrow>
          (case guard_path g of
             None \<Rightarrow> Panic
           | Some path \<Rightarrow> Done (g\<lparr>guard_backup_task := Some (dur, path)\<rparr>)))"

text \<open>\<open>retrieved\<close> is the result of \<^verbatim>\<open>FileBackupRepo::retrieve\<close>.\<close>

definition guard_new :: "nat option \<Rightarrow> string option \<Rightarrow> 8 word list res \<Rightarrow> DatastoreGuard run" where
  "guard_new interval path retrieved =
     (let guard = (case retrieved of
          Inr bytes \<Rightarrow> (guard_from bytes)\<lparr>guard_interval := interval, guard_path := path\<rparr>
        | Inl _ \<Rightarrow> \<lparr>guard_store = ds_new, guard_interval = interval, guard_path = path, guard_backup_task = None\<rparr>)
      in if guard_interval guard \<noteq> None \<and> guard_path guard \<noteq> None then run_backup guard else Done guard)"

section \<open>The live view\<close>

definition item_live :: "nat \<Rightarrow> Item \<Rightarrow> bool" where
  "item_live now it \<longleftrightarrow> (case item_expiry it of None \<Rightarrow> True | Some e \<Rightarrow> now < e)"

definition live :: "nat \<Rightarrow> Datastore \<Rightarrow> string \<rightharpoonup> Value" where
  "live now ds key = (case data ds key of
     Some it \<Rightarrow> if item_live now it then Some (item_value it) else None | None \<Rightarrow> None)"

lemma live_ds_new [simp]: "live now ds_new = Map.empty"
  by (simp add: live_def ds_new_def fun_eq_iff)

lemma live_antimono: "t \<le> t' \<Longrightarrow> live t' ds k = Some v \<Longrightarrow> live t ds k = Some v"
  by (auto simp: live_def item_live_def split: option.splits if_splits)

lemma ds_get_Done_iff:
  "(\<exists>r. ds_get relock now key ds = Done r) \<longleftrightarrow>
    relock \<or> (\<forall>it. data ds key = Some it \<longrightarrow> item_live now it)"
  by (auto simp: ds_get_def item_live_def split: option.splits)

lemma ds_get_live:
  assumes "ds_get relock now key ds = Done (r, ds')"
  shows "r = live now ds key \<and> (\<forall>t \<ge> now. live t ds' = live t ds)"
  using assms
  by (auto simp: ds_get_def live_def item_live_def fun_eq_iff split: option.splits if_splits)

lemma ds_set_live:
  assumes "ds_set now key v None ds = Done (r, ds')"
  shows "r = Inr () \<and> live t ds' = (live t ds)(key \<mapsto> v)"
  using assms by (auto simp: ds_set_def live_def item_live_def fun_eq_iff)

lemma ds_set_None [simp]:
  "ds_set now key v None ds = Done (Inr (), ds\<lparr>data := (data ds)(key \<mapsto> \<lparr>item_value = v, item_expiry = None\<rparr>)\<rparr>)"
  by (simp add: ds_set_def)

lemma ds_modify_after_set [simp]:
  "ds_modify key f c (ds\<lparr>data := (data ds)(key \<mapsto> it)\<rparr>) =
     run_bind (f (item_value it) c) (\<lambda>(r, v, c'). Done (r, c', ds\<lparr>data := (data ds)(key \<mapsto> it\<lparr>item_value := v\<rparr>)\<rparr>))"
  by (simp add: ds_modify_def)

lemma btree_insert_map_of: "map_of (btree_insert k v m) = (map_of m)(k \<mapsto> v)"
  by (induction k v m rule: btree_insert.induct) (auto simp: fun_eq_iff)

lemma btree_insert_set: "fst ` set (btree_insert k v m) = insert k (fst ` set m)"
  by (induction k v m rule: btree_insert.induct) auto

lemma btree_insert_sorted: "sorted_wrt (<) (map fst m) \<Longrightarrow> sorted_wrt (<) (map fst (btree_insert k v m))"
proof (induction k v m rule: btree_insert.induct)
  case (2 k v k' v' m)
  then show ?case
    using btree_insert_set [of k v m] by (auto simp: image_iff)
qed simp

lemma ds_set_ttl_live:
  assumes "ds_set now key v (Some d) ds = Done (r, ds')"
  shows "r = Inr () \<and> live t ds' = (live t ds)(key := if t < now + d then Some v else None)"
  using assms by (auto simp: ds_set_def live_def item_live_def fun_eq_iff time_add_def run_simps split: if_splits)

section \<open>The store as seen by its clients\<close>

text \<open>
  What the service relies on: \<open>sset\<close> binds one key for ever or until a deadline, \<open>sget\<close> returns the
  live value and changes nothing a later reader could see, and it returns at least where a live
  value exists.
\<close>

locale kv_store =
  fixes sset :: "nat \<Rightarrow> string \<Rightarrow> 'v \<Rightarrow> nat option \<Rightarrow> 's \<Rightarrow> (unit res \<times> 's) run"
    and sget :: "nat \<Rightarrow> string \<Rightarrow> 's \<Rightarrow> ('v option \<times> 's) run"
    and view :: "nat \<Rightarrow> 's \<Rightarrow> string \<rightharpoonup> 'v"
  assumes set_ok: "\<exists>s'. sset now k v None s = Done (Inr (), s') \<and> (\<forall>t. view t s' = (view t s)(k \<mapsto> v))"
    and set_ttl: "sset now k v (Some d) s = Done (r, s') \<Longrightarrow>
      r = Inr () \<and> view t s' = (view t s)(k := if t < now + d then Some v else None)"
    and get_view: "sget now k s = Done (x, s') \<Longrightarrow> x = view now s k \<and> (\<forall>t \<ge> now. view t s' = view t s)"
    and get_live: "view now s k \<noteq> None \<Longrightarrow> \<exists>y. sget now k s = Done y"
begin

lemma get_live_value: "view now s k = Some v \<Longrightarrow> \<exists>s'. sget now k s = Done (Some v, s')"
  using get_live [of now s k] get_view [of now k s] by fastforce

lemma read_own_write: "\<exists>s'. sset now k v None s = Done (Inr (), s') \<and> (\<forall>t. \<exists>s''. sget t k s' = Done (Some v, s''))"
proof -
  obtain s' where "sset now k v None s = Done (Inr (), s')" "\<forall>t. view t s' = (view t s)(k \<mapsto> v)"
    using set_ok by blast
  then show ?thesis using get_live_value [of _ s' k v] by (intro exI [of _ s']) simp
qed

lemma read_until_deadline:
  assumes "sset now k v (Some d) s = Done (r, s')"
  shows "t < now + d \<Longrightarrow> \<exists>s''. sget t k s' = Done (Some v, s'')"
    and "now + d \<le> t \<Longrightarrow> sget t k s' = Done (x, s'') \<Longrightarrow> x = None"
  using set_ttl [OF assms, of t] get_live_value [of t s' k v] get_view [of t k s' x s''] by auto

end

interpretation ds: kv_store ds_set "ds_get relock" live for relock
proof unfold_locales
  fix now k v s t d r s'
  show "\<exists>s'. ds_set now k v None s = Done (Inr (), s') \<and> (\<forall>t. live t s' = (live t s)(k \<mapsto> v))"
    using ds_set_live [of now k v s "Inr ()"] by simp
  show "ds_set now k v (Some d) s = Done (r, s') \<Longrightarrow>
      r = Inr () \<and> live t s' = (live t s)(k := if t < now + d then Some v else None)"
    by (rule ds_set_ttl_live)
next
  fix now k s r s'
  show "ds_get relock now k s = Done (r, s') \<Longrightarrow> r = live now s k \<and> (\<forall>t \<ge> now. live t s' = live t s)"
    by (rule ds_get_live)
  show "live now s k \<noteq> None \<Longrightarrow> \<exists>x. ds_get relock now k s = Done x"
    unfolding ds_get_Done_iff by (auto simp: live_def split: option.splits if_splits)
qed

section \<open>Properties\<close>

definition demo_ds :: Datastore where
  "demo_ds = \<lparr>data = [''k'' \<mapsto> \<lparr>item_value = Text ''old'', item_expiry = Some 100\<rparr>]\<rparr>"

text \<open>
  C27. A value stored with a lifetime \<open>d\<close> at time \<open>now\<close> is returned by every later read before
  \<open>now + d\<close>, no read from \<open>now + d\<close> on returns it, and every other key looks the same to every reader.
\<close>

theorem ds_set_deadline:
  assumes "ds_set now key v (Some d) ds = Done (r, ds')"
  shows "r = Inr ()
    \<and> (\<forall>t. t < now + d \<longrightarrow> (\<exists>ds''. ds_get relock t key ds' = Done (Some v, ds'')))
    \<and> (\<forall>t x ds''. now + d \<le> t \<and> ds_get relock t key ds' = Done (x, ds'') \<longrightarrow> x = None)
    \<and> (\<forall>t k. k \<noteq> key \<longrightarrow> live t ds' k = live t ds k)"
  using ds_set_ttl_live [OF assms] ds.read_until_deadline [OF assms] by auto

theorem ds_set_deadline_witness:
  "\<exists>ds'. ds_set 50 ''a'' (Text ''x'') (Some 7) demo_ds = Done (Inr (), ds')
    \<and> (\<exists>ds''. ds_get False 56 ''a'' ds' = Done (Some (Text ''x''), ds'')) \<and> live 60 ds' ''k'' = Some (Text ''old'')"
proof -
  obtain ds' where ds': "ds_set 50 ''a'' (Text ''x'') (Some 7) demo_ds = Done (Inr (), ds')"
    by (simp add: ds_set_def time_add_def nanos_def)
  then show ?thesis
    using ds_set_deadline [OF ds', of False] by (auto simp: demo_ds_def live_def item_live_def)
qed

text \<open>
  With the documented locking of the map, reading a key whose deadline has passed never
  returns: the read holds a reference into the map while it removes the key. It is the only way a
  read fails to return.
\<close>

lemma ds_get_expired_hangs:
  "(ds_get False now key ds = Hang \<longleftrightarrow> (\<exists>it. data ds key = Some it \<and> \<not> item_live now it))
    \<and> ds_get True now key ds \<noteq> Hang \<and> ds_get relock now key ds \<noteq> Panic"
  by (auto simp: ds_get_def item_live_def split: option.splits)

text \<open>
  A reported time to live is exact: if \<open>ttl\<close> answers \<open>n\<close> at time \<open>now\<close>, the key is readable at
  \<open>now + m\<close> precisely when \<open>m < n\<close>; the answer "no expiry" means it is readable for ever.
\<close>

lemma ds_ttl_exact:
  assumes "ds_ttl relock now key ds = Done (Inr r, ds')"
  shows "ds' = ds \<and> (live (now + m) ds key \<noteq> None \<longleftrightarrow> (case r of Some n \<Rightarrow> m < n | None \<Rightarrow> True))"
  using assms by (auto simp: ds_ttl_def live_def item_live_def split: option.splits if_splits)

text \<open>
  \<open>expire\<close> does not look at the deadline: on a key that has already expired, so that no read
  returns it, it succeeds and makes the old value readable again.
\<close>

lemma ds_expire_revives:
  assumes "data ds key = Some it" "\<not> item_live now it" "0 < d" "now + d < 2 ^ 63 * nanos"
  shows "live now ds key = None
    \<and> (\<exists>ds'. ds_expire now key d ds = Done (Inr (), ds') \<and> live now ds' key = Some (item_value it))"
  using assms by (simp add: ds_expire_def time_add_def live_def item_live_def)

text \<open>
  Start-up after a backup succeeds but restores nothing: whatever the saved store held, the
  store of the new guard is empty.
\<close>

lemma backup_restores_nothing:
  "\<exists>g. guard_new interval path (ds_encode ds) = Done g \<and> guard_store g = ds_new \<and> live now (guard_store g) = Map.empty"
  by (cases interval; cases path) (simp_all add: guard_new_def ds_encode_def guard_from_def run_backup_def)

end
