(* ===== verification/Backup_Repo.thy ===== *)
theory Backup_Repo
  imports Efis_Prelude
begin

text \<open>
  The backup file of \<^verbatim>\<open>efis/src/storage/backup.rs\<close>. The directory of a repository is a finite map
  from file names to contents. What the operating system may do at each call is a parameter:
  a failed open, write (after some bytes), sync, removal or rename.

  The lemmas show that saving replaces the backup atomically: the old backup survives every
  failure, and after a success the backup is the data, unless a left-over temporary file of the
  same name was longer (the source opens it without truncating it).
\<close>

type_synonym bytes = "8 word list"
type_synonym dir = "string \<rightharpoonup> bytes"

record io_faults =
  open_fails :: bool
  write_fails :: "nat option"
  sync_fails :: bool
  remove_fails :: bool
  rename_fails :: bool

definition no_faults :: io_faults where
  "no_faults = \<lparr>open_fails = False, write_fails = None, sync_fails = False, remove_fails = False, rename_fails = False\<rparr>"

definition FILE_NAME :: string where
  "FILE_NAME = ''backup.efs''"

text \<open>\<open>r\<close> is the random \<^verbatim>\<open>i32\<close> drawn for the name.\<close>

definition generate_tmp_name :: "int \<Rightarrow> string" where
  "generate_tmp_name r = ''tmp.'' @ show_int r"

text \<open>\<^verbatim>\<open>write_all\<close> at offset 0 of a file opened with \<^verbatim>\<open>create(true)\<close> but not truncated.\<close>

definition overwrite :: "bytes \<Rightarrow> bytes \<Rightarrow> bytes" where
  "overwrite old new = new @ drop (length new) old"

definition failed :: "io_faults \<Rightarrow> string \<Rightarrow> dir \<Rightarrow> unit res \<times> dir" where
  "failed io tmp d = (Inl ''failed to persist'', if remove_fails io then d else d(tmp := None))"

text \<open>\<^verbatim>\<open>FileBackupRepo::new\<close>: the directory is created if it can be, files in it stay; \<open>None\<close> is no directory.\<close>

definition repo_new :: "bool \<Rightarrow> dir option \<Rightarrow> dir option" where
  "repo_new create_fails d = (case d of Some _ \<Rightarrow> d | None \<Rightarrow> if create_fails then None else Some Map.empty)"

definition backup_save :: "io_faults \<Rightarrow> int \<Rightarrow> bytes \<Rightarrow> dir \<Rightarrow> unit res \<times> dir" where
  "backup_save io r data d =
     (let tmp = generate_tmp_name r; old = (case d tmp of None \<Rightarrow> [] | Some c \<Rightarrow> c) in
      if open_fails io then (Inl ''failed to persist'', d)
      else case write_fails io of
        Some n \<Rightarrow> failed io tmp (d(tmp \<mapsto> overwrite old (take n data)))
      | None \<Rightarrow>
          (let d1 = d(tmp \<mapsto> overwrite old data) in
           if sync_fails io then failed io tmp d1
           else if rename_fails io then (Inl ''failed to persist'', d1)
           else (Inr (), d1(tmp := None, FILE_NAME \<mapsto> overwrite old data))))"

definition backup_retrieve :: "bool \<Rightarrow> dir \<Rightarrow> bytes res" where
  "backup_retrieve read_fails d =
     (case d FILE_NAME of
        None \<Rightarrow> Inl ''backup file not found''
      | Some c \<Rightarrow> if read_fails then Inl ''failed to read backup file'' else Inr c)"

lemma tmp_name_neq [simp]: "generate_tmp_name r \<noteq> FILE_NAME" "FILE_NAME \<noteq> generate_tmp_name r"
  by (simp_all add: generate_tmp_name_def FILE_NAME_def)

lemma overwrite_Nil [simp]: "overwrite [] new = new"
  by (simp add: overwrite_def)

text \<open>
  C32. Saving a backup is atomic under every combination of input/output failures: if it reports an
  error, the previous backup is what a reader finds; if it reports success and its temporary name
  was unused, a reader finds exactly the data; and no other file of the directory is touched.
\<close>

theorem backup_save_atomic:
  assumes "backup_save io r data d = (res, d')"
  shows "(res \<noteq> Inr () \<longrightarrow> backup_retrieve f d' = backup_retrieve f d)
    \<and> (res = Inr () \<and> d (generate_tmp_name r) = None \<longrightarrow> backup_retrieve False d' = Inr data)
    \<and> (\<forall>n. n \<noteq> FILE_NAME \<and> n \<noteq> generate_tmp_name r \<longrightarrow> d' n = d n)"
  using assms
  by (auto simp: backup_save_def failed_def backup_retrieve_def Let_def split: option.splits if_splits)

theorem backup_save_atomic_witness:
  "\<exists>d'. backup_save no_faults 7 [1, 2, 3] [FILE_NAME \<mapsto> [9]] = (Inr (), d') \<and> backup_retrieve False d' = Inr [1, 2, 3]"
proof -
  obtain d' where s: "backup_save no_faults 7 [1, 2, 3] [FILE_NAME \<mapsto> [9]] = (Inr (), d')"
    by (simp add: backup_save_def no_faults_def)
  then show ?thesis using backup_save_atomic [OF s, of False] by auto
qed

end
