(* ===== verification/Rpc_Codec.thy ===== *)
theory Rpc_Codec
  imports Efis_Prelude
begin

text \<open>
  The text protocol of \<^verbatim>\<open>efis/src/rpc/mod.rs\<close> and the \<^verbatim>\<open>SerDe\<close> derive macro of
  \<^verbatim>\<open>macros/src/lib.rs\<close>: every type prints itself with \<open>ser_\<dots>\<close> and reads itself back with \<open>de_\<dots>\<close>. A
  reader returns an error message or a value, and some readers can panic.

  The lemmas give the conditions under which reading back what was printed returns the original:
  a text is safe as a field (\<open>value_ok\<close>) when the key-value scanner consumes it in one piece, and
  safe as a list element (\<open>elem_ok\<close>) when the list scanner does. Structures of safe fields are safe
  again, so the conditions compose along the nesting of the wire types.
\<close>

section \<open>Errors of the dispatcher\<close>

datatype RpcError =
    MethodNotFound string
  | Deserialize string
  | Internal string
  | NotLeader string

text \<open>\<^verbatim>\<open>Display\<close>, derived with \<^verbatim>\<open>thiserror\<close>.\<close>

fun rpc_error_display :: "RpcError \<Rightarrow> string" where
  "rpc_error_display (MethodNotFound m) = ''method not found: '' @ m"
| "rpc_error_display (Deserialize e) = ''failed to deserialize: '' @ e"
| "rpc_error_display (Internal e) = ''handler failed: '' @ e"
| "rpc_error_display (NotLeader i) = ''not leader, redirect to '' @ i"

abbreviation dquote :: char where
  "dquote \<equiv> CHR 0x22"

abbreviation backslash :: char where
  "backslash \<equiv> CHR 0x5C"

fun ser_rpc_error :: "RpcError \<Rightarrow> string" where
  "ser_rpc_error (NotLeader i) = ''{error='' @ [dquote] @ ''not_leader'' @ [dquote] @ '' leader='' @ i @ ''}''"
| "ser_rpc_error e = ''{error='' @ [dquote] @ rpc_error_display e @ [dquote] @ ''}''"

section \<open>Scalars\<close>

type_synonym 'a reader = "string \<Rightarrow> 'a res run"

definition de_map_err :: "(string \<Rightarrow> string) \<Rightarrow> 'a res \<Rightarrow> 'a res run" where
  "de_map_err f r = Done (map_sum f id r)"

definition ser_i64 :: "int \<Rightarrow> string" where
  "ser_i64 i = show_int i"

definition de_i64 :: "int reader" where
  "de_i64 s = de_map_err (\<lambda>e. ''Failed to parse i64: '' @ e) (parse_i64 s)"

definition ser_i32 :: "int \<Rightarrow> string" where
  "ser_i32 i = show_int i"

definition de_i32 :: "int reader" where
  "de_i32 s = de_map_err (\<lambda>e. ''Failed to parse i32: '' @ e) (parse_i32 s)"

definition ser_usize :: "nat \<Rightarrow> string" where
  "ser_usize n = show_nat n"

definition de_usize :: "nat reader" where
  "de_usize s = de_map_err (\<lambda>e. ''Faield to parse usize: '' @ e @ '' '' @ s) (parse_usize s)"

definition ser_u64 :: "nat \<Rightarrow> string" where
  "ser_u64 n = show_nat n"

definition de_u64 :: "nat reader" where
  "de_u64 s = de_map_err (\<lambda>e. ''Faield to parse u64: '' @ e) (parse_usize s)"

definition ser_bool :: "bool \<Rightarrow> string" where
  "ser_bool b = (if b then ''true'' else ''false'')"

definition de_bool :: "bool reader" where
  "de_bool s = de_map_err (\<lambda>e. ''Faield to parse bool: '' @ e)
     (if s = ''true'' then Inr True else if s = ''false'' then Inr False
      else Inl ''provided string was not `true` or `false`'')"

section \<open>Strings\<close>

fun escape_quotes :: "string \<Rightarrow> string" where
  "escape_quotes [] = []"
| "escape_quotes (c # cs) = (if c = dquote then backslash # dquote # escape_quotes cs else c # escape_quotes cs)"

fun unescape_quotes :: "string \<Rightarrow> string" where
  "unescape_quotes (c # d # cs) =
     (if c = backslash \<and> d = dquote then dquote # unescape_quotes cs else c # unescape_quotes (d # cs))"
| "unescape_quotes cs = cs"

definition ser_string :: "string \<Rightarrow> string" where
  "ser_string s = (if CHR '' '' \<in> set s then dquote # escape_quotes s @ [dquote] else s)"

text \<open>On a text that is a single quote the slice \<^verbatim>\<open>s[1..s.len() - 1]\<close> is \<^verbatim>\<open>1..0\<close> and panics.\<close>

definition de_string :: "string reader" where
  "de_string t =
     (let s = trim t in
      if s \<noteq> [] \<and> hd s = dquote \<and> last s = dquote then
        (if length s < 2 then Panic else Done (Inr (unescape_quotes (butlast (tl s)))))
      else Done (Inr s))"

section \<open>Options\<close>

definition ser_option :: "('a \<Rightarrow> string) \<Rightarrow> 'a option \<Rightarrow> string" where
  "ser_option ser x = (case x of None \<Rightarrow> ''None'' | Some v \<Rightarrow> ser v)"

text \<open>The inner reader's error is unwrapped.\<close>

definition de_option :: "'a reader \<Rightarrow> 'a option reader" where
  "de_option de s =
     (if contains_str s ''None'' \<or> s = [] then Done (Inr None)
      else run_bind (de s) (\<lambda>r. case r of Inl e \<Rightarrow> Panic | Inr v \<Rightarrow> Done (Inr (Some v))))"

section \<open>Vectors\<close>

definition ser_vec :: "('a \<Rightarrow> string) \<Rightarrow> 'a list \<Rightarrow> string" where
  "ser_vec ser xs = ''['' @ join '','' (map ser xs) @ '']''"

text \<open>The scanning loop: the pieces found so far, the current piece, the bracket depth, the quote flag.\<close>

fun vec_loop :: "string list \<Rightarrow> string \<Rightarrow> int \<Rightarrow> bool \<Rightarrow> string \<Rightarrow> string list" where
  "vec_loop res cur depth inq [] = (if trim cur \<noteq> [] then res @ [trim cur] else res)"
| "vec_loop res cur depth inq (c # cs) =
     (if c = dquote then vec_loop res (cur @ [c]) depth (\<not> inq) cs
      else if c \<in> {CHR ''['', CHR ''{''} \<and> \<not> inq then vec_loop res (cur @ [c]) (depth + 1) inq cs
      else if c \<in> {CHR '']'', CHR ''}''} \<and> \<not> inq then vec_loop res (cur @ [c]) (depth - 1) inq cs
      else if c = CHR '','' \<and> depth = 0 \<and> \<not> inq then vec_loop (res @ [trim cur]) [] depth inq cs
      else vec_loop res (cur @ [c]) depth inq cs)"

text \<open>\<^verbatim>\<open>collect::<Result<Vec<_>, _>>\<close>: left to right, stopping at the first error.\<close>

fun collect :: "'a reader \<Rightarrow> string list \<Rightarrow> 'a list res run" where
  "collect de [] = Done (Inr [])"
| "collect de (x # xs) =
     run_bind (de x) (\<lambda>r. case r of
        Inl e \<Rightarrow> Done (Inl e)
      | Inr v \<Rightarrow> run_map (map_sum id ((#) v)) (collect de xs))"

definition de_vec :: "'a reader \<Rightarrow> 'a list reader" where
  "de_vec de s =
     (let inner = rev (dropWhile ((=) (CHR '']'')) (rev (dropWhile ((=) (CHR ''['')) (trim s)))) in
      if inner = [] then Done (Inr []) else collect de (vec_loop [] [] 0 False inner))"

section \<open>Key-value text and derived structures\<close>

text \<open>The loop of \<open>parse_key_values\<close> over its six variables.\<close>

fun kv_loop :: "(string \<rightharpoonup> string) \<Rightarrow> string \<Rightarrow> string \<Rightarrow> bool \<Rightarrow> bool \<Rightarrow> int \<Rightarrow> int \<Rightarrow> string \<Rightarrow> (string \<rightharpoonup> string)" where
  "kv_loop m key val in_key inq sq cu [] = (if key \<noteq> [] then m(trim key \<mapsto> trim val) else m)"
| "kv_loop m key val in_key inq sq cu (c # cs) =
     (if c = CHR ''='' \<and> in_key then kv_loop m key val False inq sq cu cs
      else if c = dquote then kv_loop m key (val @ [c]) in_key (\<not> inq) sq cu cs
      else if c = CHR ''['' \<and> \<not> inq then kv_loop m key (val @ [c]) in_key inq (sq + 1) cu cs
      else if c = CHR '']'' \<and> \<not> inq then kv_loop m key (val @ [c]) in_key inq (sq - 1) cu cs
      else if c = CHR ''{'' \<and> \<not> inq then kv_loop m key (val @ [c]) in_key inq sq (cu + 1) cs
      else if c = CHR ''}'' \<and> \<not> inq then kv_loop m key (val @ [c]) in_key inq sq (cu - 1) cs
      else if c = CHR '' '' \<and> \<not> inq \<and> sq = 0 \<and> cu = 0 then
        (if key \<noteq> [] then kv_loop (m(trim key \<mapsto> trim val)) [] [] True inq sq cu cs
         else kv_loop m key val in_key inq sq cu cs)
      else if in_key then kv_loop m (key @ [c]) val in_key inq sq cu cs
      else kv_loop m key (val @ [c]) in_key inq sq cu cs)"

definition parse_key_values :: "string \<Rightarrow> (string \<rightharpoonup> string)" where
  "parse_key_values s = kv_loop Map.empty [] [] True False 0 0 s"

text \<open>The derived printer: fields that print as \<^verbatim>\<open>None\<close> are left out.\<close>

definition ser_struct :: "(string \<times> string) list \<Rightarrow> string" where
  "ser_struct fs =
     ''{'' @ join '' '' (map (\<lambda>(k, v). k @ ''='' @ v) (filter (\<lambda>(k, v). v \<noteq> ''None'') fs)) @ ''}''"

text \<open>The derived reader: braces are optional; then each field is read from the map in order.\<close>

definition de_struct :: "string \<Rightarrow> (string \<rightharpoonup> string)" where
  "de_struct t =
     (let s = trim t;
          inner = (if s \<noteq> [] \<and> hd s = CHR ''{'' \<and> last s = CHR ''}'' then butlast (tl s) else s)
      in parse_key_values inner)"

definition de_field :: "'a reader \<Rightarrow> (string \<rightharpoonup> string) \<Rightarrow> string \<Rightarrow> 'a res run" where
  "de_field de m k = (case m k of
      None \<Rightarrow> Done (Inl (''Missing field '' @ [CHR 0x27] @ k @ [CHR 0x27]))
    | Some v \<Rightarrow> de v)"

definition de_opt_field :: "'a reader \<Rightarrow> (string \<rightharpoonup> string) \<Rightarrow> string \<Rightarrow> 'a option res run" where
  "de_opt_field de m k = (case m k of None \<Rightarrow> Done (Inr None) | Some v \<Rightarrow> de_option de v)"

text \<open>The \<^verbatim>\<open>?\<close> operator between the fields.\<close>

definition and_then :: "'a res run \<Rightarrow> ('a \<Rightarrow> 'b res run) \<Rightarrow> 'b res run" where
  "and_then r f = run_bind r (\<lambda>x. case x of Inl e \<Rightarrow> Done (Inl e) | Inr v \<Rightarrow> f v)"

text \<open>\<^verbatim>\<open>ErrorRes\<close>, what the server writes for an error.\<close>

definition ser_ErrorRes :: "string \<Rightarrow> string" where
  "ser_ErrorRes e = ser_struct [(''error'', ser_string e)]"

definition de_ErrorRes :: "string reader" where
  "de_ErrorRes s = de_field de_string (de_struct s) ''error''"

section \<open>Texts the key-value scanner takes in one piece\<close>

text \<open>
  \<open>vscan\<close> follows quotes and brackets from a given depth and gives up at a space outside quotes
  and brackets, or at a closing bracket with no opening one.
\<close>

definition vstep :: "bool \<Rightarrow> nat \<Rightarrow> nat \<Rightarrow> char \<Rightarrow> (bool \<times> nat \<times> nat) option" where
  "vstep q a b c =
     (if c = dquote then Some (\<not> q, a, b)
      else if q then Some (q, a, b)
      else if c = CHR ''['' then Some (q, Suc a, b)
      else if c = CHR '']'' then (if a = 0 then None else Some (q, a - 1, b))
      else if c = CHR ''{'' then Some (q, a, Suc b)
      else if c = CHR ''}'' then (if b = 0 then None else Some (q, a, b - 1))
      else if c = CHR '' '' \<and> a = 0 \<and> b = 0 then None
      else Some (q, a, b))"

fun vscan :: "bool \<Rightarrow> nat \<Rightarrow> nat \<Rightarrow> string \<Rightarrow> (bool \<times> nat \<times> nat) option" where
  "vscan q a b [] = Some (q, a, b)"
| "vscan q a b (c # cs) = (case vstep q a b c of None \<Rightarrow> None | Some (q', a', b') \<Rightarrow> vscan q' a' b' cs)"

definition closed_text :: "string \<Rightarrow> bool" where
  "closed_text v \<longleftrightarrow> vscan False 0 0 v = Some (False, 0, 0)"

definition value_ok :: "string \<Rightarrow> bool" where
  "value_ok v \<longleftrightarrow> closed_text v \<and> trimmed v"

definition key_char :: "char \<Rightarrow> bool" where
  "key_char c \<longleftrightarrow> c \<notin> {CHR ''='', dquote, CHR ''['', CHR '']'', CHR ''{'', CHR ''}'', CHR '' '', CHR '',''} \<and> \<not> is_whitespace c"

definition key_ok :: "string \<Rightarrow> bool" where
  "key_ok k \<longleftrightarrow> k \<noteq> [] \<and> list_all key_char k"

lemma vscan_append:
  "vscan q a b (xs @ ys) = (case vscan q a b xs of None \<Rightarrow> None | Some (q', a', b') \<Rightarrow> vscan q' a' b' ys)"
  by (induction xs arbitrary: q a b) (auto split: option.splits)

lemma vstep_shift:
  "vstep q a b c = Some (q', a', b') \<Longrightarrow> vstep q (a + i) (b + j) c = Some (q', a' + i, b' + j)"
  by (auto simp: vstep_def split: if_splits)

lemma vscan_shift:
  "vscan q a b xs = Some (q', a', b') \<Longrightarrow> vscan q (a + i) (b + j) xs = Some (q', a' + i, b' + j)"
proof (induction xs arbitrary: q a b)
  case (Cons c cs)
  from Cons.prems obtain q1 a1 b1 where "vstep q a b c = Some (q1, a1, b1)" "vscan q1 a1 b1 cs = Some (q', a', b')"
    by (auto split: option.splits)
  then show ?case using vstep_shift Cons.IH by auto
qed simp

lemma closed_text_at: "closed_text v \<Longrightarrow> vscan False a b v = Some (False, a, b)"
  using vscan_shift [of False 0 0 v False 0 0 a b] by (simp add: closed_text_def)

lemma kv_loop_vstep:
  assumes "vstep q a b c = Some (q', a', b')"
  shows "kv_loop m key val False q (int a) (int b) (c # cs) = kv_loop m key (val @ [c]) False q' (int a') (int b') cs"
  using assms by (auto simp: vstep_def of_nat_diff add.commute split: if_splits)

lemma kv_loop_value:
  assumes "vscan q a b v = Some (q', a', b')"
  shows "kv_loop m key val False q (int a) (int b) (v @ rest) = kv_loop m key (val @ v) False q' (int a') (int b') rest"
  using assms
proof (induction v arbitrary: q a b val)
  case (Cons c cs)
  from Cons.prems obtain q1 a1 b1 where "vstep q a b c = Some (q1, a1, b1)" "vscan q1 a1 b1 cs = Some (q', a', b')"
    by (auto split: option.splits)
  then show ?case
    using kv_loop_vstep [of q a b c q1 a1 b1] Cons.IH by (simp del: kv_loop.simps)
qed simp

lemma kv_loop_key:
  "list_all key_char k \<Longrightarrow> kv_loop m key val True False sq cu (k @ rest) = kv_loop m (key @ k) val True False sq cu rest"
  by (induction k arbitrary: key) (auto simp: key_char_def)

lemma trimmed_key: "key_ok k \<Longrightarrow> trimmed k"
  by (simp add: key_ok_def key_char_def trimmed_def list_all_iff)

lemma kv_loop_field:
  assumes "key_ok k" "value_ok v"
  shows "kv_loop m [] [] True False 0 0 (k @ ''='' @ v @ rest) = kv_loop m k v False False 0 0 rest"
proof -
  have "kv_loop m [] [] True False 0 0 (k @ ''='' @ v @ rest) = kv_loop m k [] False False 0 0 (v @ rest)"
    using assms(1) kv_loop_key [of k m "[]" "[]" 0 0 "''='' @ v @ rest"] by (simp add: key_ok_def)
  also have "\<dots> = kv_loop m k v False False 0 0 rest"
    using assms(2) kv_loop_value [of False 0 0 v False 0 0 m k "[]" rest] by (simp add: value_ok_def closed_text_def)
  finally show ?thesis .
qed

lemma kv_loop_next:
  "k \<noteq> [] \<Longrightarrow> kv_loop m k v False False 0 0 (CHR '' '' # rest) = kv_loop (m(trim k \<mapsto> trim v)) [] [] True False 0 0 rest"
  by simp

lemma kv_loop_fields:
  assumes "\<forall>(k, v) \<in> set fs. key_ok k \<and> value_ok v"
  shows "kv_loop m [] [] True False 0 0 (join '' '' (map (\<lambda>(k, v). k @ ''='' @ v) fs)) = m ++ map_of (rev fs)"
  using assms
proof (induction fs arbitrary: m)
  case Nil
  then show ?case by simp
next
  case (Cons f fs)
  obtain k v where f: "f = (k, v)" by force
  have ok: "key_ok k" "value_ok v" using Cons.prems f by auto
  then have k: "k \<noteq> []" "trim k = k" "trim v = v"
    using trimmed_key by (auto simp: key_ok_def value_ok_def)
  have upd: "m ++ map_of (rev (f # fs)) = m(k \<mapsto> v) ++ map_of (rev fs)"
    by (simp add: f map_add_def fun_eq_iff split: option.splits)
  let ?t = "\<lambda>fs. join '' '' (map (\<lambda>(k, v). k @ ''='' @ v) fs)"
  show ?case
  proof (cases "fs = []")
    case True
    then have "kv_loop m [] [] True False 0 0 (?t (f # fs)) = kv_loop m k v False False 0 0 []"
      using kv_loop_field [OF ok, of m "[]"] by (simp add: f del: kv_loop.simps)
    also have "\<dots> = m(k \<mapsto> v)" using k by simp
    also have "\<dots> = m ++ map_of (rev (f # fs))" unfolding upd using True by simp
    finally show ?thesis .
  next
    case False
    then have "?t (f # fs) = k @ ''='' @ v @ CHR '' '' # ?t fs"
      by (simp add: f join_Cons)
    then have "kv_loop m [] [] True False 0 0 (?t (f # fs)) = kv_loop (m(k \<mapsto> v)) [] [] True False 0 0 (?t fs)"
      using kv_loop_field [OF ok, of m "CHR '' '' # ?t fs"] kv_loop_next [OF k(1), of m v "?t fs"] k(2,3) by metis
    then show ?thesis using Cons upd by simp
  qed
qed

subsection \<open>Structures\<close>

definition field_ok :: "string \<times> string \<Rightarrow> bool" where
  "field_ok f \<longleftrightarrow> key_ok (fst f) \<and> (snd f \<noteq> ''None'' \<longrightarrow> value_ok (snd f))"

lemma ws_specials [simp]:
  "\<not> is_whitespace (CHR ''{'')" "\<not> is_whitespace (CHR ''}'')" "\<not> is_whitespace (CHR ''['')"
  "\<not> is_whitespace (CHR '']'')" "\<not> is_whitespace dquote" "\<not> is_whitespace (CHR ''-'')"
  by (simp_all add: is_whitespace_def)

lemma map_of_filter_rev:
  assumes "distinct (map fst fs)"
  shows "map_of (rev (filter P fs)) k = (case map_of fs k of None \<Rightarrow> None | Some v \<Rightarrow> if P (k, v) then Some v else None)"
  using assms
proof (induction fs)
  case (Cons f fs)
  obtain a v where f: "f = (a, v)" by force
  have "a \<notin> fst ` set (filter P fs)" using Cons.prems f by auto
  then have "map_of (rev (filter P fs)) a = None"
    by (simp add: map_of_eq_None_iff del: set_filter)
  then show ?case
    using Cons f by (auto simp: map_add_def split: option.splits)
qed simp

lemma de_ser_struct [codec_simps]:
  assumes "\<forall>f \<in> set fs. field_ok f" "distinct (map fst fs)"
  shows "de_struct (ser_struct fs) k = (case map_of fs k of None \<Rightarrow> None | Some v \<Rightarrow> if v \<noteq> ''None'' then Some v else None)"
proof -
  let ?fs = "filter (\<lambda>(k, v). v \<noteq> ''None'') fs"
  let ?j = "join '' '' (map (\<lambda>(k, v). k @ ''='' @ v) ?fs)"
  have ok: "\<forall>(k, v) \<in> set ?fs. key_ok k \<and> value_ok v"
    using assms(1) by (auto simp: field_ok_def)
  have "trim (ser_struct fs) = CHR ''{'' # ?j @ [CHR ''}'']"
    by (simp add: ser_struct_def)
  then have "de_struct (ser_struct fs) = parse_key_values ?j"
    by (simp add: de_struct_def Let_def)
  also have "\<dots> = map_of (rev ?fs)"
    using kv_loop_fields [OF ok, of Map.empty] by (simp add: parse_key_values_def)
  finally show ?thesis
    using map_of_filter_rev [OF assms(2), of "\<lambda>(k, v). v \<noteq> ''None''" k] by (simp split: option.split)
qed

lemma vscan_plain: "list_all key_char k \<Longrightarrow> vscan False a b k = Some (False, a, b)"
  by (induction k) (auto simp: key_char_def vstep_def)

lemma vscan_fields:
  assumes "\<forall>(k, v) \<in> set fs. key_ok k \<and> value_ok v"
  shows "vscan False a (Suc b) (join '' '' (map (\<lambda>(k, v). k @ ''='' @ v) fs)) = Some (False, a, Suc b)"
  using assms
proof (induction fs)
  case (Cons f fs)
  obtain k v where f: "f = (k, v)" by force
  have "vscan False a (Suc b) k = Some (False, a, Suc b)" "vscan False a (Suc b) v = Some (False, a, Suc b)"
    using Cons.prems vscan_plain closed_text_at by (auto simp: f key_ok_def value_ok_def)
  then show ?case
    using Cons by (cases "fs = []") (simp_all add: f vscan_append vstep_def join_Cons)
qed simp

lemma value_ok_ser_struct [codec_simps]:
  assumes "\<forall>f \<in> set fs. field_ok f"
  shows "value_ok (ser_struct fs)"
proof -
  have "vscan False 0 (Suc 0) (join '' '' (map (\<lambda>(k, v). k @ ''='' @ v) (filter (\<lambda>(k, v). v \<noteq> ''None'') fs))) = Some (False, 0, Suc 0)"
    using assms by (intro vscan_fields) (auto simp: field_ok_def)
  then show ?thesis
    by (simp add: value_ok_def closed_text_def ser_struct_def vscan_append vstep_def)
qed

lemma ser_struct_neq_None [simp]: "ser_struct fs \<noteq> ''None''"
  by (simp add: ser_struct_def)

subsection \<open>Vectors\<close>

text \<open>The same for the list scanner, which counts both kinds of brackets in one depth and stops at commas.\<close>

definition estep :: "bool \<Rightarrow> nat \<Rightarrow> char \<Rightarrow> (bool \<times> nat) option" where
  "estep q d c =
     (if c = dquote then Some (\<not> q, d)
      else if q then Some (q, d)
      else if c \<in> {CHR ''['', CHR ''{''} then Some (q, Suc d)
      else if c \<in> {CHR '']'', CHR ''}''} then (if d = 0 then None else Some (q, d - 1))
      else if c = CHR '','' \<and> d = 0 then None
      else Some (q, d))"

fun escan :: "bool \<Rightarrow> nat \<Rightarrow> string \<Rightarrow> (bool \<times> nat) option" where
  "escan q d [] = Some (q, d)"
| "escan q d (c # cs) = (case estep q d c of None \<Rightarrow> None | Some (q', d') \<Rightarrow> escan q' d' cs)"

definition elem_ok :: "string \<Rightarrow> bool" where
  "elem_ok t \<longleftrightarrow> escan False 0 t = Some (False, 0) \<and> value_ok t \<and> t \<noteq> [] \<and> hd t \<noteq> CHR ''['' \<and> last t \<noteq> CHR '']''"

lemma escan_append:
  "escan q d (xs @ ys) = (case escan q d xs of None \<Rightarrow> None | Some (q', d') \<Rightarrow> escan q' d' ys)"
  by (induction xs arbitrary: q d) (auto split: option.splits)

lemma vec_loop_estep:
  assumes "estep q d c = Some (q', d')"
  shows "vec_loop res cur (int d) q (c # cs) = vec_loop res (cur @ [c]) (int d') q' cs"
  using assms by (auto simp: estep_def of_nat_diff add.commute split: if_splits)

lemma vec_loop_elem:
  assumes "escan q d t = Some (q', d')"
  shows "vec_loop res cur (int d) q (t @ rest) = vec_loop res (cur @ t) (int d') q' rest"
  using assms
proof (induction t arbitrary: q d cur)
  case (Cons c cs)
  from Cons.prems obtain q1 d1 where "estep q d c = Some (q1, d1)" "escan q1 d1 cs = Some (q', d')"
    by (auto split: option.splits)
  then show ?case
    using vec_loop_estep [of q d c q1 d1] Cons.IH by (simp del: vec_loop.simps)
qed simp

lemma vec_loop_elems:
  assumes "\<forall>t \<in> set ts. elem_ok t" "ts \<noteq> []"
  shows "vec_loop res [] 0 False (join '','' ts) = res @ ts"
  using assms
proof (induction ts arbitrary: res)
  case (Cons t ts)
  have t: "elem_ok t" using Cons.prems by simp
  have one: "vec_loop res [] 0 False (t @ rest) = vec_loop res t 0 False rest" for rest
    using t vec_loop_elem [of False 0 t False 0 res "[]" rest] by (simp add: elem_ok_def)
  have tr: "trim t = t" "t \<noteq> []" using t by (auto simp: elem_ok_def value_ok_def)
  show ?case
  proof (cases "ts = []")
    case True
    then show ?thesis using one [of "[]"] tr by simp
  next
    case False
    then have "join '','' (t # ts) = t @ CHR '','' # join '','' ts" by (simp add: join_Cons)
    then show ?thesis using one [of "CHR '','' # join '','' ts"] tr Cons False by simp
  qed
qed simp

lemma collect_map: "\<forall>x \<in> set xs. de (ser x) = Done (Inr x) \<Longrightarrow> collect de (map ser xs) = Done (Inr xs)"
  by (induction xs) auto

lemma de_ser_vec [codec_simps]:
  assumes "\<forall>x \<in> set xs. elem_ok (ser x) \<and> de (ser x) = Done (Inr x)"
  shows "de_vec de (ser_vec ser xs) = Done (Inr xs)"
proof (cases "xs = []")
  case True
  then show ?thesis
    using trim_trimmed [of "''[]''"] by (simp add: de_vec_def ser_vec_def trimmed_def Let_def)
next
  case False
  let ?j = "join '','' (map ser xs)"
  have "elem_ok (hd (map ser xs))" "elem_ok (last (map ser xs))"
    using assms False by (simp_all add: hd_map last_map)
  then have j: "?j \<noteq> []" "hd ?j \<noteq> CHR ''[''" "last ?j \<noteq> CHR '']''"
    using False hd_join [of "map ser xs" "'',''"] last_join [of "map ser xs" "'',''"] by (auto simp: elem_ok_def)
  then have "dropWhile ((=) (CHR ''['')) (CHR ''['' # ?j @ [CHR '']'']) = ?j @ [CHR '']'']"
    by (cases ?j) auto
  moreover have "rev (dropWhile ((=) (CHR '']'')) (rev (?j @ [CHR '']'']))) = ?j"
    using j by (cases ?j rule: rev_cases) auto
  moreover have "trim (ser_vec ser xs) = CHR ''['' # ?j @ [CHR '']'']" by (simp add: ser_vec_def)
  ultimately show ?thesis
    using j assms False vec_loop_elems [of "map ser xs" "[]"] collect_map [of xs de ser]
    by (simp add: de_vec_def Let_def del: dropWhile.simps)
qed

lemma vscan_elems:
  assumes "\<forall>t \<in> set ts. closed_text t"
  shows "vscan False (Suc a) b (join '','' ts) = Some (False, Suc a, b)"
  using assms
  by (induction "'',''" ts rule: join.induct) (auto simp: vscan_append closed_text_at vstep_def)

lemma value_ok_ser_vec [codec_simps]:
  "\<forall>x \<in> set xs. elem_ok (ser x) \<Longrightarrow> value_ok (ser_vec ser xs)"
  using vscan_elems [of "map ser xs" 0 0]
  by (simp add: value_ok_def closed_text_def ser_vec_def vscan_append vstep_def elem_ok_def)

lemma ser_vec_neq_None [simp]: "ser_vec ser xs \<noteq> ''None''"
  by (simp add: ser_vec_def)

lemma escan_of_vscan:
  "vscan q a b t = Some (q', a', b') \<Longrightarrow> escan q (Suc (a + b)) t = Some (q', Suc (a' + b'))"
proof (induction t arbitrary: q a b)
  case (Cons c cs)
  then obtain q1 a1 b1 where s: "vstep q a b c = Some (q1, a1, b1)" "vscan q1 a1 b1 cs = Some (q', a', b')"
    by (auto split: option.splits)
  then have "estep q (Suc (a + b)) c = Some (q1, Suc (a1 + b1))"
    by (auto simp: vstep_def estep_def split: if_splits)
  then show ?case using Cons.IH [OF s(2)] by simp
qed simp

lemma escan_closed: "closed_text t \<Longrightarrow> escan False (Suc d) t = Some (False, Suc d)"
  using escan_of_vscan [OF closed_text_at, of t d 0] by simp

lemma escan_fields:
  assumes "\<forall>(k, v) \<in> set fs. key_ok k \<and> value_ok v"
  shows "escan False (Suc d) (join '' '' (map (\<lambda>(k, v). k @ ''='' @ v) fs)) = Some (False, Suc d)"
  using assms
proof (induction fs)
  case (Cons f fs)
  obtain k v where f: "f = (k, v)" by force
  have "closed_text k" "closed_text v"
    using Cons.prems vscan_plain by (auto simp: f key_ok_def value_ok_def closed_text_def)
  then show ?case
    using Cons by (cases "fs = []") (simp_all add: f escan_append estep_def join_Cons escan_closed)
qed simp

lemma elem_ok_ser_struct [codec_simps]:
  assumes "\<forall>f \<in> set fs. field_ok f"
  shows "elem_ok (ser_struct fs)"
proof -
  let ?fs = "filter (\<lambda>(k, v). v \<noteq> ''None'') fs"
  have ok: "\<forall>(k, v) \<in> set ?fs. key_ok k \<and> value_ok v"
    using assms by (auto simp: field_ok_def)
  have "escan False 1 (join '' '' (map (\<lambda>(k, v). k @ ''='' @ v) ?fs)) = Some (False, 1)"
    using escan_fields [OF ok, of 0] by simp
  then show ?thesis
    using value_ok_ser_struct [OF assms] by (simp add: elem_ok_def) (simp add: ser_struct_def escan_append estep_def)
qed

subsection \<open>Scalars and strings\<close>

lemma key_char_hd_last: "list_all key_char t \<Longrightarrow> t \<noteq> [] \<Longrightarrow> key_char (hd t) \<and> key_char (last t)"
  by (simp add: list_all_iff)

lemma plain_value_ok:
  assumes "list_all key_char t"
  shows "value_ok t"
proof (cases "t = []")
  case False
  have "key_char (hd t)" "key_char (last t)" using key_char_hd_last [OF assms False] by auto
  then have "trimmed t" by (simp add: trimmed_def key_char_def)
  then show ?thesis using vscan_plain [OF assms] by (simp add: value_ok_def closed_text_def)
qed (simp add: value_ok_def closed_text_def trimmed_def)

lemma escan_plain: "list_all key_char k \<Longrightarrow> escan False d k = Some (False, d)"
  by (induction k) (auto simp: key_char_def estep_def)

lemma plain_elem_ok:
  assumes "list_all key_char t" "t \<noteq> []"
  shows "elem_ok t"
proof -
  have "key_char (hd t)" "key_char (last t)" using key_char_hd_last [OF assms] by auto
  then have "hd t \<noteq> CHR ''[''" "last t \<noteq> CHR '']''" by (auto simp: key_char_def)
  then show ?thesis using assms by (simp add: elem_ok_def escan_plain plain_value_ok)
qed

lemma digit_key_char: "to_digit c \<noteq> None \<Longrightarrow> key_char c"
  using digit_not_special [of c] by (simp add: key_char_def)

lemma show_nat_plain: "list_all key_char (show_nat n)"
  using digit_key_char [OF show_nat_digits] by (simp add: list_all_iff)

lemma show_nat_no_N: "CHR ''N'' \<notin> set (show_nat n)"
  using digit_not_special(13) [OF show_nat_digits] by blast

lemma contains_needs_hd: "contains_str s (c # p) \<Longrightarrow> c \<in> set s"
  by (induction s) auto

lemma show_nat_not_None [simp]: "show_nat n \<noteq> ''None''" "\<not> contains_str (show_nat n) ''None''"
  using show_nat_no_N [of n] contains_needs_hd [of "show_nat n"] by auto

lemma show_int_plain: "list_all key_char (show_int i)"
  using show_nat_plain by (simp add: show_int_def) (simp add: key_char_def)

lemma show_int_not_None [simp]: "show_int i \<noteq> ''None''"
  by (simp add: show_int_def)

lemma scalars_ok [codec_simps]:
  "value_ok (ser_usize n)" "value_ok (ser_u64 n)" "value_ok (ser_i64 i)" "value_ok (ser_bool b)" "value_ok (ser_i32 i)"
  by (auto simp: ser_usize_def ser_u64_def ser_i64_def ser_i32_def ser_bool_def show_nat_plain show_int_plain
      intro!: plain_value_ok) (simp_all add: key_char_def is_whitespace_def)

lemma scalars_not_None [codec_simps]:
  "ser_usize n \<noteq> ''None''" "ser_u64 n \<noteq> ''None''" "ser_i64 i \<noteq> ''None''" "ser_bool b \<noteq> ''None''" "ser_i32 i \<noteq> ''None''"
  by (simp_all add: ser_usize_def ser_u64_def ser_i64_def ser_i32_def ser_bool_def)

lemma de_ser_scalars [codec_simps]:
  "n \<le> usize_max \<Longrightarrow> de_usize (ser_usize n) = Done (Inr n)"
  "n \<le> usize_max \<Longrightarrow> de_u64 (ser_u64 n) = Done (Inr n)"
  "i64_min \<le> i \<Longrightarrow> i \<le> i64_max \<Longrightarrow> de_i64 (ser_i64 i) = Done (Inr i)"
  "de_bool (ser_bool b) = Done (Inr b)"
  "i32_min \<le> i \<Longrightarrow> i \<le> i32_max \<Longrightarrow> de_i32 (ser_i32 i) = Done (Inr i)"
  by (simp_all add: de_i32_def ser_i32_def parse_i32_show_int de_usize_def ser_usize_def de_u64_def ser_u64_def de_i64_def ser_i64_def de_bool_def
      ser_bool_def de_map_err_def parse_usize_show_nat parse_i64_show_int)

text \<open>Strings that survive as a field of a structure, and as an element of a vector.\<close>

definition wire_str :: "string \<Rightarrow> bool" where
  "wire_str s \<longleftrightarrow> s \<noteq> ''None'' \<and>
     (if CHR '' '' \<in> set s then dquote \<notin> set s
      else value_ok s \<and> (s = [] \<or> hd s \<noteq> dquote \<or> last s \<noteq> dquote))"

definition wire_elem :: "string \<Rightarrow> bool" where
  "wire_elem s \<longleftrightarrow> wire_str s \<and> elem_ok (ser_string s)"

lemma escape_id: "dquote \<notin> set s \<Longrightarrow> escape_quotes s = s"
  by (induction s) auto

lemma unescape_id: "dquote \<notin> set s \<Longrightarrow> unescape_quotes s = s"
  by (induction s rule: unescape_quotes.induct) auto

lemma vscan_quoted: "dquote \<notin> set s \<Longrightarrow> vscan True a b s = Some (True, a, b)"
  by (induction s) (auto simp: vstep_def)

lemma value_ok_ser_string [codec_simps]: "wire_str s \<Longrightarrow> value_ok (ser_string s)"
  by (auto simp: wire_str_def ser_string_def escape_id value_ok_def closed_text_def vscan_append
      vscan_quoted vstep_def split: if_splits)

lemma ser_string_not_None [codec_simps]: "wire_str s \<Longrightarrow> ser_string s \<noteq> ''None''"
  by (auto simp: wire_str_def ser_string_def split: if_splits)

lemma de_ser_string [codec_simps]:
  assumes "wire_str s"
  shows "de_string (ser_string s) = Done (Inr s)"
proof (cases "CHR '' '' \<in> set s")
  case True
  then have q: "dquote \<notin> set s" using assms by (simp add: wire_str_def)
  then have "trim (ser_string s) = dquote # s @ [dquote]"
    using True by (simp add: ser_string_def escape_id)
  then show ?thesis
    using True q by (auto simp: de_string_def Let_def unescape_id)
next
  case False
  then show ?thesis
    using assms by (auto simp: wire_str_def ser_string_def de_string_def Let_def value_ok_def)
qed

subsection \<open>Reading fields\<close>

lemma key_okI: "k \<noteq> [] \<Longrightarrow> list_all key_char k \<Longrightarrow> key_ok k"
  by (simp add: key_ok_def)

lemma field_ok_intros [codec_simps]:
  "key_ok k \<Longrightarrow> value_ok v \<Longrightarrow> field_ok (k, v)"
  "key_ok k \<Longrightarrow> (\<And>x. ov = Some x \<Longrightarrow> value_ok (ser x)) \<Longrightarrow> field_ok (k, ser_option ser ov)"
  by (auto simp: field_ok_def ser_option_def split: option.splits)

lemma de_field_Some [simp]: "m k = Some v \<Longrightarrow> de_field de m k = de v"
  by (simp add: de_field_def)

lemma de_opt_field_ser:
  assumes "m k = (if ser_option ser ov \<noteq> ''None'' then Some (ser_option ser ov) else None)"
    and "\<And>x. ov = Some x \<Longrightarrow> de (ser x) = Done (Inr x) \<and> \<not> contains_str (ser x) ''None'' \<and> ser x \<noteq> []"
  shows "de_opt_field de m k = Done (Inr ov)"
  using assms by (cases ov) (auto simp: de_opt_field_def ser_option_def de_option_def split: if_splits)

lemma and_then_Done [simp]: "and_then (Done (Inr v)) f = f v"
  by (simp add: and_then_def)

section \<open>Properties\<close>

text \<open>
  A derived structure with distinct field names whose values are safe texts is read back field
  by field: every field that does not print as \<^verbatim>\<open>None\<close> is found with exactly the text that was
  printed, fields that print as \<^verbatim>\<open>None\<close> and names that are not fields are absent, and the printed
  structure is itself safe as a field of another structure and as an element of a list.
\<close>

lemma struct_roundtrip:
  assumes "\<forall>f \<in> set fs. field_ok f" "distinct (map fst fs)"
  shows "de_struct (ser_struct fs) = map_of (filter (\<lambda>(k, v). v \<noteq> ''None'') fs)
    \<and> value_ok (ser_struct fs) \<and> elem_ok (ser_struct fs)"
proof -
  have d: "distinct (map fst (filter (\<lambda>(k, v). v \<noteq> ''None'') fs))"
    using assms(2) by (rule distinct_map_filter)
  then have "map_of (rev (filter (\<lambda>(k, v). v \<noteq> ''None'') fs)) = map_of (filter (\<lambda>(k, v). v \<noteq> ''None'') fs)"
    by (subst map_of_inject_set) (simp_all add: rev_map [symmetric])
  then have "de_struct (ser_struct fs) k = map_of (filter (\<lambda>(k, v). v \<noteq> ''None'') fs) k" for k
    using de_ser_struct [OF assms, of k] map_of_filter_rev [OF assms(2), of "\<lambda>(k, v). v \<noteq> ''None''" k]
    by (simp split: option.splits)
  then show ?thesis
    using value_ok_ser_struct [OF assms(1)] elem_ok_ser_struct [OF assms(1)] by auto
qed

text \<open>
  Reading a string panics on exactly one kind of input: text that is a single double quote
  after trimming. There the code takes the slice from 1 to 0.
\<close>

lemma de_string_panics_iff: "de_string t = Panic \<longleftrightarrow> trim t = [dquote]"
  by (cases "trim t") (auto simp: de_string_def Let_def)

end
