(* ===== verification/Wire_Types.thy ===== *)
theory Wire_Types
  imports Rpc_Codec Vector_Index
begin

text \<open>
  The request and response structures of \<^verbatim>\<open>efis/src/efis.rs\<close> (module \<^verbatim>\<open>types\<close>), each with the printer
  and the reader the \<^verbatim>\<open>SerDe\<close> derive macro generates for its fields, in the order of the fields.

  Printing and parsing of \<^verbatim>\<open>f32\<close> is the parameter \<open>f32_text\<close>; the locale \<open>f32_codec\<close> states what the
  standard library documents of it. The lemmas show that every request of safe strings and
  in-range numbers is read back as it was printed, and that its text is safe inside other texts.
\<close>

section \<open>Floating-point text\<close>

record f32_text =
  show_f32 :: "f32 \<Rightarrow> string"
  parse_f32 :: "string \<Rightarrow> f32 res"

definition de_f32 :: "f32_text \<Rightarrow> f32 reader" where
  "de_f32 ft s = de_map_err (\<lambda>e. ''Failed to parse f32: '' @ e) (parse_f32 ft s)"

text \<open>The characters of \<^verbatim>\<open>Display\<close> output: digits, sign, point, and those of \<^verbatim>\<open>inf\<close> and \<^verbatim>\<open>NaN\<close>.\<close>

definition f32_char :: "char \<Rightarrow> bool" where
  "f32_char c \<longleftrightarrow> c \<in> set ''0123456789.-infNa''"

locale f32_codec =
  fixes ft :: f32_text
  assumes parse_show: "\<not> f32_is_nan x \<Longrightarrow> parse_f32 ft (show_f32 ft x) = Inr x"
    and show_chars: "list_all f32_char (show_f32 ft x) \<and> show_f32 ft x \<noteq> []"
begin

lemma show_plain: "list_all key_char (show_f32 ft x)"
proof -
  have "key_char c" if "f32_char c" for c
    using that by (auto simp: f32_char_def key_char_def is_whitespace_def)
  then show ?thesis using show_chars [of x] by (simp add: list_all_iff)
qed

lemma elem_ok_show: "elem_ok (show_f32 ft x)"
  using show_plain show_chars by (auto intro: plain_elem_ok)

lemma de_show: "\<not> f32_is_nan x \<Longrightarrow> de_f32 ft (show_f32 ft x) = Done (Inr x)"
  by (simp add: de_f32_def de_map_err_def parse_show)

end

text \<open>An instance of the contract: the bits, in decimal.\<close>

definition bits_text :: f32_text where
  "bits_text = \<lparr>show_f32 = (\<lambda>x. show_nat (unat x)), parse_f32 = (\<lambda>s. map_sum id of_nat (parse_usize s))\<rparr>"

lemma f32_char_digits: "\<forall>d \<in> set [0..<10]. f32_char (char_of (48 + d :: nat))"
  unfolding f32_char_def by code_simp

lemma show_nat_f32_chars: "list_all f32_char (show_nat n)"
proof -
  have "f32_char c" if c: "to_digit c \<noteq> None" for c
  proof -
    obtain d where d: "to_digit c = Some d" using c by blast
    have "c = char_of (48 + d)" using d by (auto simp: to_digit_def Let_def split: if_splits)
    moreover have "d \<in> set [0..<10]" using to_digit_bound [OF d] by simp
    ultimately show ?thesis using f32_char_digits by blast
  qed
  then show ?thesis using show_nat_digits by (auto simp: list_all_iff)
qed

interpretation bits: f32_codec bits_text
proof unfold_locales
  fix x :: f32
  have "unat x < 2 ^ LENGTH(32)"
    by (rule unsigned_less)
  then have "unat x \<le> usize_max"
    by (simp add: usize_max_def)
  then show "\<not> f32_is_nan x \<Longrightarrow> parse_f32 bits_text (show_f32 bits_text x) = Inr x"
    by (simp add: bits_text_def parse_usize_show_nat)
  show "list_all f32_char (show_f32 bits_text x) \<and> show_f32 bits_text x \<noteq> []"
    by (simp add: bits_text_def show_nat_f32_chars)
qed

section \<open>Requests\<close>

record SetReq =
  set_key :: string
  set_value :: string
  set_exp :: "nat option"

record GetReq =
  get_key :: string

record ExpireReq =
  exp_key :: string
  exp_duration :: nat

record ListReq =
  list_key :: string
  list_values :: "string list"

record MapReq =
  map_key :: string
  map_score :: int
  map_value :: string

record MapRange =
  range_key :: string
  range_start :: nat
  range_end :: nat

record PubReq =
  pub_chan :: string
  pub_value :: string

record SubReq =
  sub_chan :: string

record VecReq =
  vec_id :: nat
  vec_vec :: "f32 list"

record VSetReq =
  vset_key :: string
  vset_vecs :: "VecReq list"

record VSearchReq =
  vsearch_key :: string
  vsearch_query :: "f32 list"
  vsearch_k :: nat

record VDelReq =
  vdel_key :: string
  vdel_id :: string

definition ser_SetReq :: "SetReq \<Rightarrow> string" where
  "ser_SetReq r = ser_struct [(''key'', ser_string (set_key r)), (''value'', ser_string (set_value r)),
     (''exp'', ser_option ser_u64 (set_exp r))]"

definition de_SetReq :: "SetReq reader" where
  "de_SetReq s = (let m = de_struct s in
     and_then (de_field de_string m ''key'') (\<lambda>k.
     and_then (de_field de_string m ''value'') (\<lambda>v.
     and_then (de_opt_field de_u64 m ''exp'') (\<lambda>e.
     Done (Inr \<lparr>set_key = k, set_value = v, set_exp = e\<rparr>)))))"

definition ser_GetReq :: "GetReq \<Rightarrow> string" where
  "ser_GetReq r = ser_struct [(''key'', ser_string (get_key r))]"

definition de_GetReq :: "GetReq reader" where
  "de_GetReq s = and_then (de_field de_string (de_struct s) ''key'') (\<lambda>k. Done (Inr \<lparr>get_key = k\<rparr>))"

definition ser_ExpireReq :: "ExpireReq \<Rightarrow> string" where
  "ser_ExpireReq r = ser_struct [(''key'', ser_string (exp_key r)), (''duration'', ser_u64 (exp_duration r))]"

definition de_ExpireReq :: "ExpireReq reader" where
  "de_ExpireReq s = (let m = de_struct s in
     and_then (de_field de_string m ''key'') (\<lambda>k.
     and_then (de_field de_u64 m ''duration'') (\<lambda>d.
     Done (Inr \<lparr>exp_key = k, exp_duration = d\<rparr>))))"

definition ser_ListReq :: "ListReq \<Rightarrow> string" where
  "ser_ListReq r = ser_struct [(''key'', ser_string (list_key r)), (''values'', ser_vec ser_string (list_values r))]"

definition de_ListReq :: "ListReq reader" where
  "de_ListReq s = (let m = de_struct s in
     and_then (de_field de_string m ''key'') (\<lambda>k.
     and_then (de_field (de_vec de_string) m ''values'') (\<lambda>vs.
     Done (Inr \<lparr>list_key = k, list_values = vs\<rparr>))))"

definition ser_MapReq :: "MapReq \<Rightarrow> string" where
  "ser_MapReq r = ser_struct [(''key'', ser_string (map_key r)), (''score'', ser_i64 (map_score r)),
     (''value'', ser_string (map_value r))]"

definition de_MapReq :: "MapReq reader" where
  "de_MapReq s = (let m = de_struct s in
     and_then (de_field de_string m ''key'') (\<lambda>k.
     and_then (de_field de_i64 m ''score'') (\<lambda>i.
     and_then (de_field de_string m ''value'') (\<lambda>v.
     Done (Inr \<lparr>map_key = k, map_score = i, map_value = v\<rparr>)))))"

definition de_MapRange :: "MapRange reader" where
  "de_MapRange s = (let m = de_struct s in
     and_then (de_field de_string m ''key'') (\<lambda>k.
     and_then (de_field de_usize m ''start'') (\<lambda>a.
     and_then (de_field de_usize m ''end'') (\<lambda>b.
     Done (Inr \<lparr>range_key = k, range_start = a, range_end = b\<rparr>)))))"

definition ser_PubReq :: "PubReq \<Rightarrow> string" where
  "ser_PubReq r = ser_struct [(''chan'', ser_string (pub_chan r)), (''value'', ser_string (pub_value r))]"

definition de_PubReq :: "PubReq reader" where
  "de_PubReq s = (let m = de_struct s in
     and_then (de_field de_string m ''chan'') (\<lambda>c.
     and_then (de_field de_string m ''value'') (\<lambda>v.
     Done (Inr \<lparr>pub_chan = c, pub_value = v\<rparr>))))"

definition de_SubReq :: "SubReq reader" where
  "de_SubReq s = and_then (de_field de_string (de_struct s) ''chan'') (\<lambda>c. Done (Inr \<lparr>sub_chan = c\<rparr>))"

definition ser_VecReq :: "f32_text \<Rightarrow> VecReq \<Rightarrow> string" where
  "ser_VecReq ft r = ser_struct [(''id'', ser_u64 (vec_id r)), (''vec'', ser_vec (show_f32 ft) (vec_vec r))]"

definition de_VecReq :: "f32_text \<Rightarrow> VecReq reader" where
  "de_VecReq ft s = (let m = de_struct s in
     and_then (de_field de_u64 m ''id'') (\<lambda>i.
     and_then (de_field (de_vec (de_f32 ft)) m ''vec'') (\<lambda>v.
     Done (Inr \<lparr>vec_id = i, vec_vec = v\<rparr>))))"

definition ser_VSetReq :: "f32_text \<Rightarrow> VSetReq \<Rightarrow> string" where
  "ser_VSetReq ft r = ser_struct [(''key'', ser_string (vset_key r)), (''vecs'', ser_vec (ser_VecReq ft) (vset_vecs r))]"

definition de_VSetReq :: "f32_text \<Rightarrow> VSetReq reader" where
  "de_VSetReq ft s = (let m = de_struct s in
     and_then (de_field de_string m ''key'') (\<lambda>k.
     and_then (de_field (de_vec (de_VecReq ft)) m ''vecs'') (\<lambda>vs.
     Done (Inr \<lparr>vset_key = k, vset_vecs = vs\<rparr>))))"

definition de_VSearchReq :: "f32_text \<Rightarrow> VSearchReq reader" where
  "de_VSearchReq ft s = (let m = de_struct s in
     and_then (de_field de_string m ''key'') (\<lambda>k.
     and_then (de_field (de_vec (de_f32 ft)) m ''query'') (\<lambda>q.
     and_then (de_field de_usize m ''k'') (\<lambda>n.
     Done (Inr \<lparr>vsearch_key = k, vsearch_query = q, vsearch_k = n\<rparr>)))))"

definition ser_VDelReq :: "VDelReq \<Rightarrow> string" where
  "ser_VDelReq r = ser_struct [(''key'', ser_string (vdel_key r)), (''id'', ser_string (vdel_id r))]"

definition de_VDelReq :: "VDelReq reader" where
  "de_VDelReq s = (let m = de_struct s in
     and_then (de_field de_string m ''key'') (\<lambda>k.
     and_then (de_field de_string m ''id'') (\<lambda>i.
     Done (Inr \<lparr>vdel_key = k, vdel_id = i\<rparr>))))"

section \<open>Responses\<close>

record OkRes =
  status :: string

record GetRes =
  res_val :: string

record TtlRes =
  res_ttl :: string

record ListRes =
  res_vals :: "string list"

record VSearchRes =
  res_ids :: "nat list"

definition ser_OkRes :: "OkRes \<Rightarrow> string" where
  "ser_OkRes r = ser_struct [(''status'', ser_string (status r))]"

definition ser_GetRes :: "GetRes \<Rightarrow> string" where
  "ser_GetRes r = ser_struct [(''val'', ser_string (res_val r))]"

definition ser_TtlRes :: "TtlRes \<Rightarrow> string" where
  "ser_TtlRes r = ser_struct [(''ttl'', ser_string (res_ttl r))]"

definition ser_ListRes :: "ListRes \<Rightarrow> string" where
  "ser_ListRes r = ser_struct [(''vals'', ser_vec ser_string (res_vals r))]"

definition ser_VSearchRes :: "VSearchRes \<Rightarrow> string" where
  "ser_VSearchRes r = ser_struct [(''ids'', ser_vec ser_u64 (res_ids r))]"

section \<open>Round trips\<close>

lemma keys_ok [codec_simps]:
  "key_ok ''key''" "key_ok ''value''" "key_ok ''exp''" "key_ok ''duration''" "key_ok ''values''"
  "key_ok ''score''" "key_ok ''chan''" "key_ok ''id''" "key_ok ''vec''" "key_ok ''vecs''"
  "key_ok ''term''" "key_ok ''command''" "key_ok ''leader''" "key_ok ''entries''" "key_ok ''success''"
  "key_ok ''voted''" "key_ok ''candidate_id''" "key_ok ''error''" "key_ok ''status''" "key_ok ''val''"
  "key_ok ''last_log_index''" "key_ok ''last_log_term''" "key_ok ''prev_log_index''" "key_ok ''prev_log_term''"
  "key_ok ''leader_commit''" "key_ok ''conflict_index''" "key_ok ''conflict_term''" "key_ok ''start''" "key_ok ''end''"
  by (simp_all add: key_ok_def key_char_def is_whitespace_def)

text \<open>Reading an optional number back from a structure.\<close>

lemma opt_field_num [codec_simps]:
  assumes "m k = (if ser_option show_nat ov \<noteq> ''None'' then Some (ser_option show_nat ov) else None)"
    and "pred_option (\<lambda>n. n \<le> usize_max) ov"
  shows "de_opt_field de_u64 m k = Done (Inr ov)" "de_opt_field de_usize m k = Done (Inr ov)"
proof -
  have rt: "de_u64 (show_nat x) = Done (Inr x)" "de_usize (show_nat x) = Done (Inr x)" if "ov = Some x" for x
    using that assms(2) de_ser_scalars(1,2) [of x] by (simp_all add: ser_u64_def ser_usize_def)
  show "de_opt_field de_u64 m k = Done (Inr ov)"
    by (rule de_opt_field_ser [where ser = show_nat and m = m and k = k, OF assms(1)]) (simp add: rt)
  show "de_opt_field de_usize m k = Done (Inr ov)"
    by (rule de_opt_field_ser [where ser = show_nat and m = m and k = k, OF assms(1)]) (simp add: rt)
qed

lemma ser_num_eq: "ser_u64 = show_nat" "ser_usize = show_nat"
  by (simp_all add: fun_eq_iff ser_u64_def ser_usize_def)

lemma option_value_ok [codec_simps]:
  "field_ok (k, ser_option show_nat ov) \<longleftrightarrow> key_ok k"
  using scalars_ok(1) by (auto simp: field_ok_def ser_option_def ser_num_eq split: option.splits)

lemma field_ok_value [codec_simps]: "v \<noteq> ''None'' \<Longrightarrow> field_ok (k, v) \<longleftrightarrow> key_ok k \<and> value_ok v"
  by (simp add: field_ok_def)

definition wf_SetReq :: "SetReq \<Rightarrow> bool" where
  "wf_SetReq r \<longleftrightarrow> wire_str (set_key r) \<and> wire_str (set_value r) \<and> pred_option (\<lambda>n. n \<le> usize_max) (set_exp r)"

definition wf_GetReq :: "GetReq \<Rightarrow> bool" where
  "wf_GetReq r \<longleftrightarrow> wire_str (get_key r)"

definition wf_ExpireReq :: "ExpireReq \<Rightarrow> bool" where
  "wf_ExpireReq r \<longleftrightarrow> wire_str (exp_key r) \<and> exp_duration r \<le> usize_max"

definition wf_ListReq :: "ListReq \<Rightarrow> bool" where
  "wf_ListReq r \<longleftrightarrow> wire_str (list_key r) \<and> list_all wire_elem (list_values r)"

definition wf_MapReq :: "MapReq \<Rightarrow> bool" where
  "wf_MapReq r \<longleftrightarrow> wire_str (map_key r) \<and> wire_str (map_value r) \<and> i64_min \<le> map_score r \<and> map_score r \<le> i64_max"

definition wf_PubReq :: "PubReq \<Rightarrow> bool" where
  "wf_PubReq r \<longleftrightarrow> wire_str (pub_chan r) \<and> wire_str (pub_value r)"

definition wf_VDelReq :: "VDelReq \<Rightarrow> bool" where
  "wf_VDelReq r \<longleftrightarrow> wire_str (vdel_key r) \<and> wire_str (vdel_id r)"

definition wf_VecReq :: "VecReq \<Rightarrow> bool" where
  "wf_VecReq r \<longleftrightarrow> vec_id r \<le> usize_max \<and> list_all (\<lambda>x. \<not> f32_is_nan x) (vec_vec r)"

definition wf_VSetReq :: "VSetReq \<Rightarrow> bool" where
  "wf_VSetReq r \<longleftrightarrow> wire_str (vset_key r) \<and> list_all wf_VecReq (vset_vecs r)"

text \<open>The rules that evaluate a derived reader on the text of a derived printer.\<close>

lemmas wire_simps = de_ser_struct de_ser_scalars de_ser_string de_ser_vec scalars_ok scalars_not_None
  value_ok_ser_string ser_string_not_None value_ok_ser_vec field_ok_value keys_ok option_value_ok Let_def

lemma rt_SetReq: "wf_SetReq r \<Longrightarrow> de_SetReq (ser_SetReq r) = Done (Inr r)"
  by (cases r) (simp add: wf_SetReq_def de_SetReq_def ser_SetReq_def wire_simps opt_field_num ser_num_eq(1))

lemma rt_GetReq: "wf_GetReq r \<Longrightarrow> de_GetReq (ser_GetReq r) = Done (Inr r)"
  by (cases r) (simp add: wf_GetReq_def de_GetReq_def ser_GetReq_def wire_simps)

lemma rt_ExpireReq: "wf_ExpireReq r \<Longrightarrow> de_ExpireReq (ser_ExpireReq r) = Done (Inr r)"
  by (cases r) (simp add: wf_ExpireReq_def de_ExpireReq_def ser_ExpireReq_def wire_simps)

lemma rt_ListReq: "wf_ListReq r \<Longrightarrow> de_ListReq (ser_ListReq r) = Done (Inr r)"
  by (cases r) (simp add: wf_ListReq_def de_ListReq_def ser_ListReq_def list_all_iff wire_elem_def wire_simps)

lemma rt_MapReq: "wf_MapReq r \<Longrightarrow> de_MapReq (ser_MapReq r) = Done (Inr r)"
  by (cases r) (simp add: wf_MapReq_def de_MapReq_def ser_MapReq_def wire_simps)

lemma rt_PubReq: "wf_PubReq r \<Longrightarrow> de_PubReq (ser_PubReq r) = Done (Inr r)"
  by (cases r) (simp add: wf_PubReq_def de_PubReq_def ser_PubReq_def wire_simps)

lemma rt_VDelReq: "wf_VDelReq r \<Longrightarrow> de_VDelReq (ser_VDelReq r) = Done (Inr r)"
  by (cases r) (simp add: wf_VDelReq_def de_VDelReq_def ser_VDelReq_def wire_simps)

context f32_codec
begin

lemma elem_ok_ser_VecReq: "elem_ok (ser_VecReq ft r)"
  unfolding ser_VecReq_def
  by (rule elem_ok_ser_struct) (simp add: wire_simps elem_ok_show)

lemma rt_VecReq: "wf_VecReq r \<Longrightarrow> de_VecReq ft (ser_VecReq ft r) = Done (Inr r)"
  by (cases r)
    (simp add: wf_VecReq_def de_VecReq_def ser_VecReq_def list_all_iff wire_simps elem_ok_show de_show)

lemma rt_VSetReq: "wf_VSetReq r \<Longrightarrow> de_VSetReq ft (ser_VSetReq ft r) = Done (Inr r)"
  by (cases r)
    (simp add: wf_VSetReq_def de_VSetReq_def ser_VSetReq_def list_all_iff wire_simps elem_ok_ser_VecReq rt_VecReq)

end

section \<open>Properties\<close>

text \<open>
  Strings that print as \<^verbatim>\<open>None\<close> do not survive the wire: the printer of a structure takes them
  for an absent optional field. A \<^verbatim>\<open>set\<close> request whose value is the four letters \<^verbatim>\<open>None\<close> is therefore
  rejected by the reader with a missing field, whatever its other fields are.
\<close>

lemma none_value_lost:
  assumes "wire_str (set_key r)" "set_value r = ''None''"
  shows "de_SetReq (ser_SetReq r) = Done (Inl (''Missing field '' @ [CHR 0x27] @ ''value'' @ [CHR 0x27]))"
proof -
  have none: "ser_string (set_value r) = ''None''" "field_ok (k, ''None'') \<longleftrightarrow> key_ok k" for k
    using assms(2) by (simp_all add: ser_string_def field_ok_def)
  then have "de_struct (ser_SetReq r) ''key'' = Some (ser_string (set_key r))" "de_struct (ser_SetReq r) ''value'' = None"
    using assms(1) by (simp_all add: ser_SetReq_def wire_simps ser_num_eq(1))
  then show ?thesis
    using assms(1) by (simp add: de_SetReq_def Let_def de_ser_string) (simp add: de_field_def and_then_def)
qed

text \<open>
  A \<^verbatim>\<open>set\<close> request whose optional \<^verbatim>\<open>exp\<close> field is present, does not contain \<^verbatim>\<open>None\<close> and is not a
  number makes the reader panic instead of returning an error, because the reader of an option
  unwraps the inner result.
\<close>

lemma bad_exp_panics:
  assumes "wire_str k" "wire_str v" "value_ok e" "e \<noteq> []" "\<not> contains_str e ''None''" "parse_usize e = Inl msg"
  shows "de_SetReq (ser_struct [(''key'', ser_string k), (''value'', ser_string v), (''exp'', e)]) = Panic"
proof -
  have e: "e \<noteq> ''None''" using assms(5) by auto
  have "de_opt_field de_u64 m ''exp'' = Panic" if "m ''exp'' = Some e" for m
    using that assms by (simp add: de_opt_field_def de_option_def de_u64_def de_map_err_def)
  then show ?thesis
    using assms e by (simp add: de_SetReq_def wire_simps) (simp add: and_then_def)
qed

end
