(* ===== verification/Commands.thy ===== *)
theory Commands
  imports Wire_Types
begin

text \<open>
  The replicated commands of \<^verbatim>\<open>efis/src/commands.rs\<close> and their text form: the variant's name with
  the request between parentheses.

  The main lemma is the round trip: a command whose request is safe on the wire and whose text
  has balanced parentheses is read back as it was printed. The reader counts parentheses without
  looking at quotes, which is why the balance is needed.
\<close>

datatype Command =
    Set SetReq
  | Delete GetReq
  | Increment GetReq
  | Decrement GetReq
  | Expire ExpireReq
  | Lpush ListReq
  | Lpop GetReq
  | Rpush ListReq
  | Rpop GetReq
  | Sadd ListReq
  | Zadd MapReq
  | Publish PubReq
  | VSet VSetReq
  | VDel VDelReq
  | Unknown

definition variant :: "string \<Rightarrow> string \<Rightarrow> string" where
  "variant name payload = name @ ''('' @ payload @ '')''"

fun ser_Command :: "f32_text \<Rightarrow> Command \<Rightarrow> string" where
  "ser_Command ft (Set r) = variant ''Set'' (ser_SetReq r)"
| "ser_Command ft (Delete r) = variant ''Delete'' (ser_GetReq r)"
| "ser_Command ft (Increment r) = variant ''Increment'' (ser_GetReq r)"
| "ser_Command ft (Decrement r) = variant ''Decrement'' (ser_GetReq r)"
| "ser_Command ft (Expire r) = variant ''Expire'' (ser_ExpireReq r)"
| "ser_Command ft (Lpush r) = variant ''Lpush'' (ser_ListReq r)"
| "ser_Command ft (Lpop r) = variant ''Lpop'' (ser_GetReq r)"
| "ser_Command ft (Rpush r) = variant ''Rpush'' (ser_ListReq r)"
| "ser_Command ft (Rpop r) = variant ''Rpop'' (ser_GetReq r)"
| "ser_Command ft (Sadd r) = variant ''Sadd'' (ser_ListReq r)"
| "ser_Command ft (Zadd r) = variant ''Zadd'' (ser_MapReq r)"
| "ser_Command ft (Publish r) = variant ''Publish'' (ser_PubReq r)"
| "ser_Command ft (VSet r) = variant ''VSet'' (ser_VSetReq ft r)"
| "ser_Command ft (VDel r) = variant ''VDel'' (ser_VDelReq r)"
| "ser_Command ft Unknown = ''Unknown''"

definition payload_variants :: "string list" where
  "payload_variants = [''Set'', ''Delete'', ''Increment'', ''Decrement'', ''Expire'', ''Lpush'', ''Lpop'',
     ''Rpush'', ''Rpop'', ''Sadd'', ''Zadd'', ''Publish'', ''VSet'', ''VDel'']"

text \<open>The loop over \<^verbatim>\<open>payload.char_indices()\<close> that finds the closing parenthesis.\<close>

fun paren_end :: "nat \<Rightarrow> nat \<Rightarrow> string \<Rightarrow> nat option" where
  "paren_end depth i [] = None"
| "paren_end depth i (c # cs) =
     (if c = CHR ''('' then paren_end (depth + 1) (Suc i) cs
      else if c = CHR '')'' then (if depth - 1 = 0 then Some i else paren_end (depth - 1) (Suc i) cs)
      else paren_end depth (Suc i) cs)"

definition wrap :: "('a \<Rightarrow> Command) \<Rightarrow> 'a res run \<Rightarrow> Command res run" where
  "wrap c r = and_then r (\<lambda>x. Done (Inr (c x)))"

definition de_variant :: "f32_text \<Rightarrow> string \<Rightarrow> string \<Rightarrow> Command res run" where
  "de_variant ft v inner =
     (if v = ''Set'' then wrap Set (de_SetReq inner)
      else if v = ''Delete'' then wrap Delete (de_GetReq inner)
      else if v = ''Increment'' then wrap Increment (de_GetReq inner)
      else if v = ''Decrement'' then wrap Decrement (de_GetReq inner)
      else if v = ''Expire'' then wrap Expire (de_ExpireReq inner)
      else if v = ''Lpush'' then wrap Lpush (de_ListReq inner)
      else if v = ''Lpop'' then wrap Lpop (de_GetReq inner)
      else if v = ''Rpush'' then wrap Rpush (de_ListReq inner)
      else if v = ''Rpop'' then wrap Rpop (de_GetReq inner)
      else if v = ''Sadd'' then wrap Sadd (de_ListReq inner)
      else if v = ''Zadd'' then wrap Zadd (de_MapReq inner)
      else if v = ''Publish'' then wrap Publish (de_PubReq inner)
      else if v = ''VSet'' then wrap VSet (de_VSetReq ft inner)
      else if v = ''VDel'' then wrap VDel (de_VDelReq inner)
      else Done (Inr Unknown))"

definition de_Command :: "f32_text \<Rightarrow> Command reader" where
  "de_Command ft t =
     (let s = trim t in
      if CHR ''('' \<notin> set s then
        (if s = ''Unknown'' then Done (Inr Unknown)
         else if s \<in> set payload_variants
           then Done (Inl (''Variant '' @ [CHR 0x27] @ s @ [CHR 0x27] @ '' requires payload''))
         else Done (Inr Unknown))
      else
        let v = trim (takeWhile (\<lambda>c. c \<noteq> CHR ''('') s);
            payload = tl (dropWhile (\<lambda>c. c \<noteq> CHR ''('') s) in
        case paren_end 1 0 payload of
          None \<Rightarrow> Done (Inl ''Unmatched parentheses in enum payload'')
        | Some e \<Rightarrow> de_variant ft v (take e payload))"

section \<open>Balanced parentheses\<close>

fun pscan :: "nat \<Rightarrow> string \<Rightarrow> nat option" where
  "pscan d [] = Some d"
| "pscan d (c # cs) =
     (if c = CHR ''('' then pscan (Suc d) cs
      else if c = CHR '')'' then (if d = 0 then None else pscan (d - 1) cs)
      else pscan d cs)"

definition parens_ok :: "string \<Rightarrow> bool" where
  "parens_ok t \<longleftrightarrow> pscan 0 t = Some 0"

lemma paren_end_pscan:
  "pscan d t = Some d' \<Longrightarrow> paren_end (Suc d) i (t @ rest) = paren_end (Suc d') (i + length t) rest"
proof (induction t arbitrary: d i)
  case (Cons c cs)
  then show ?case by (cases d) (auto split: if_splits)
qed simp

lemma paren_end_ok: "parens_ok p \<Longrightarrow> paren_end 1 0 (p @ '')'') = Some (length p)"
  using paren_end_pscan [of 0 p 0 0 "'')''"] by (simp add: parens_ok_def)

lemma de_Command_variant:
  assumes "list_all key_char name" "name \<noteq> []" "CHR ''('' \<notin> set name" "parens_ok p"
  shows "de_Command ft (variant name p) = de_variant ft name p"
proof -
  have tw: "takeWhile (\<lambda>c. c \<noteq> CHR ''('') (name @ CHR ''('' # xs) = name"
    "dropWhile (\<lambda>c. c \<noteq> CHR ''('') (name @ CHR ''('' # xs) = CHR ''('' # xs" for xs
    using assms(3) by (auto intro!: takeWhile_eq_all_conv [THEN iffD2] simp: takeWhile_append dropWhile_append)
  have tn: "trimmed name" using plain_value_ok [OF assms(1)] by (simp add: value_ok_def)
  then have "trimmed (variant name p)"
    using assms(2) by (simp add: trimmed_def variant_def is_whitespace_def)
  then show ?thesis
    using paren_end_ok [OF assms(4)] tn tw by (simp add: de_Command_def Let_def variant_def)
qed

text \<open>Commands that survive the wire.\<close>

fun wf_Command :: "f32_text \<Rightarrow> Command \<Rightarrow> bool" where
  "wf_Command ft (Set r) = (wf_SetReq r \<and> parens_ok (ser_SetReq r))"
| "wf_Command ft (Delete r) = (wf_GetReq r \<and> parens_ok (ser_GetReq r))"
| "wf_Command ft (Increment r) = (wf_GetReq r \<and> parens_ok (ser_GetReq r))"
| "wf_Command ft (Decrement r) = (wf_GetReq r \<and> parens_ok (ser_GetReq r))"
| "wf_Command ft (Expire r) = (wf_ExpireReq r \<and> parens_ok (ser_ExpireReq r))"
| "wf_Command ft (Lpush r) = (wf_ListReq r \<and> parens_ok (ser_ListReq r))"
| "wf_Command ft (Lpop r) = (wf_GetReq r \<and> parens_ok (ser_GetReq r))"
| "wf_Command ft (Rpush r) = (wf_ListReq r \<and> parens_ok (ser_ListReq r))"
| "wf_Command ft (Rpop r) = (wf_GetReq r \<and> parens_ok (ser_GetReq r))"
| "wf_Command ft (Sadd r) = (wf_ListReq r \<and> parens_ok (ser_ListReq r))"
| "wf_Command ft (Zadd r) = (wf_MapReq r \<and> parens_ok (ser_MapReq r))"
| "wf_Command ft (Publish r) = (wf_PubReq r \<and> parens_ok (ser_PubReq r))"
| "wf_Command ft (VSet r) = (wf_VSetReq r \<and> parens_ok (ser_VSetReq ft r))"
| "wf_Command ft (VDel r) = (wf_VDelReq r \<and> parens_ok (ser_VDelReq r))"
| "wf_Command ft Unknown = True"

lemma names_plain: "\<forall>n \<in> set payload_variants. list_all key_char n \<and> n \<noteq> [] \<and> CHR ''('' \<notin> set n"
  by (simp add: payload_variants_def key_char_def is_whitespace_def)

lemma de_Command_named:
  "n \<in> set payload_variants \<Longrightarrow> parens_ok p \<Longrightarrow> de_Command ft (variant n p) = de_variant ft n p"
  using names_plain de_Command_variant by blast

lemma rt_Unknown: "de_Command ft ''Unknown'' = Done (Inr Unknown)"
  using trim_trimmed [of "''Unknown''"] by (simp add: de_Command_def Let_def trimmed_def is_whitespace_def)

lemma wrap_Inr [simp]: "wrap c (Done (Inr x)) = Done (Inr (c x))"
  by (simp add: wrap_def)

context f32_codec
begin

lemma rt_Command: "wf_Command ft c \<Longrightarrow> de_Command ft (ser_Command ft c) = Done (Inr c)"
  by (cases c) (simp_all add: de_Command_named payload_variants_def de_variant_def rt_SetReq rt_GetReq rt_ExpireReq
      rt_ListReq rt_MapReq rt_PubReq rt_VSetReq rt_VDelReq rt_Unknown)

end

section \<open>Properties\<close>

text \<open>
  C16. The replicated log carries commands as text. A command of any variant whose strings are safe on
  the wire, whose numbers are in range and whose text has balanced parentheses is read back by
  \<^verbatim>\<open>Command::deserialize\<close> exactly as \<^verbatim>\<open>Command::serialize\<close> printed it.
\<close>

theorem command_roundtrip:
  assumes "f32_codec ft" "wf_Command ft c"
  shows "de_Command ft (ser_Command ft c) = Done (Inr c)"
  using f32_codec.rt_Command [OF assms] .

lemmas wf_eval = wire_str_def wire_elem_def elem_ok_def ser_string_def value_ok_def closed_text_def vstep_def
  estep_def trimmed_def is_whitespace_def usize_max_def

theorem command_roundtrip_witness:
  "de_Command bits_text (ser_Command bits_text (Lpush \<lparr>list_key = ''my list'', list_values = [''a'', ''b c'']\<rparr>))
     = Done (Inr (Lpush \<lparr>list_key = ''my list'', list_values = [''a'', ''b c'']\<rparr>))"
  by (rule command_roundtrip [OF bits.f32_codec_axioms])
    (simp add: wf_ListReq_def wf_eval parens_ok_def ser_ListReq_def ser_struct_def ser_vec_def)

end
