(* ===== verification/Raft_Types.thy ===== *)
theory Raft_Types
  imports Commands
begin

text \<open>
  The data of \<^verbatim>\<open>efis/src/consensus.rs\<close>: log entries, committed entries, the persistent state, and the
  requests and replies of the two remote procedures with their derived printers and readers.

  The lemmas extend the round trip of commands to log entries and to whole \<^verbatim>\<open>append_entries\<close> and
  \<^verbatim>\<open>request_vote\<close> messages.
\<close>

section \<open>Data\<close>

datatype State = Follower | Candidate | Leader | Dead

record LogEntry =
  le_command :: Command
  le_term :: nat

record CommitEntry =
  ce_command :: Command
  ce_term :: nat
  ce_index :: nat

record PersistentState =
  ps_current_term :: nat
  ps_voted_for :: "string option"
  ps_last_applied :: "nat option"

record RequestVote =
  rv_term :: nat
  rv_candidate_id :: string
  rv_last_log_index :: nat
  rv_last_log_term :: nat

record RequestVoteReply =
  rvr_term :: nat
  rvr_voted :: bool

record AppendEntries =
  ae_term :: nat
  ae_leader :: string
  ae_prev_log_index :: "nat option"
  ae_prev_log_term :: "nat option"
  ae_entries :: "LogEntry list"
  ae_leader_commit :: "nat option"

record AppendEntriesReply =
  aer_term :: nat
  aer_success :: bool
  aer_conflict_index :: "nat option"
  aer_conflict_term :: "nat option"

section \<open>Printers and readers\<close>

definition ser_LogEntry :: "f32_text \<Rightarrow> LogEntry \<Rightarrow> string" where
  "ser_LogEntry ft e = ser_struct [(''command'', ser_Command ft (le_command e)), (''term'', ser_usize (le_term e))]"

definition de_LogEntry :: "f32_text \<Rightarrow> LogEntry reader" where
  "de_LogEntry ft s = (let m = de_struct s in
     and_then (de_field (de_Command ft) m ''command'') (\<lambda>c.
     and_then (de_field de_usize m ''term'') (\<lambda>t.
     Done (Inr \<lparr>le_command = c, le_term = t\<rparr>))))"

definition ser_RequestVote :: "RequestVote \<Rightarrow> string" where
  "ser_RequestVote r = ser_struct [(''term'', ser_usize (rv_term r)), (''candidate_id'', ser_string (rv_candidate_id r)),
     (''last_log_index'', ser_usize (rv_last_log_index r)), (''last_log_term'', ser_usize (rv_last_log_term r))]"

definition de_RequestVote :: "RequestVote reader" where
  "de_RequestVote s = (let m = de_struct s in
     and_then (de_field de_usize m ''term'') (\<lambda>t.
     and_then (de_field de_string m ''candidate_id'') (\<lambda>c.
     and_then (de_field de_usize m ''last_log_index'') (\<lambda>i.
     and_then (de_field de_usize m ''last_log_term'') (\<lambda>l.
     Done (Inr \<lparr>rv_term = t, rv_candidate_id = c, rv_last_log_index = i, rv_last_log_term = l\<rparr>))))))"

definition ser_RequestVoteReply :: "RequestVoteReply \<Rightarrow> string" where
  "ser_RequestVoteReply r = ser_struct [(''term'', ser_usize (rvr_term r)), (''voted'', ser_bool (rvr_voted r))]"

definition de_RequestVoteReply :: "RequestVoteReply reader" where
  "de_RequestVoteReply s = (let m = de_struct s in
     and_then (de_field de_usize m ''term'') (\<lambda>t.
     and_then (de_field de_bool m ''voted'') (\<lambda>v.
     Done (Inr \<lparr>rvr_term = t, rvr_voted = v\<rparr>))))"

definition ser_AppendEntries :: "f32_text \<Rightarrow> AppendEntries \<Rightarrow> string" where
  "ser_AppendEntries ft r = ser_struct [(''term'', ser_usize (ae_term r)), (''leader'', ser_string (ae_leader r)),
     (''prev_log_index'', ser_option ser_usize (ae_prev_log_index r)),
     (''prev_log_term'', ser_option ser_usize (ae_prev_log_term r)),
     (''entries'', ser_vec (ser_LogEntry ft) (ae_entries r)),
     (''leader_commit'', ser_option ser_usize (ae_leader_commit r))]"

definition de_AppendEntries :: "f32_text \<Rightarrow> AppendEntries reader" where
  "de_AppendEntries ft s = (let m = de_struct s in
     and_then (de_field de_usize m ''term'') (\<lambda>t.
     and_then (de_field de_string m ''leader'') (\<lambda>l.
     and_then (de_opt_field de_usize m ''prev_log_index'') (\<lambda>pi.
     and_then (de_opt_field de_usize m ''prev_log_term'') (\<lambda>pt.
     and_then (de_field (de_vec (de_LogEntry ft)) m ''entries'') (\<lambda>es.
     and_then (de_opt_field de_usize m ''leader_commit'') (\<lambda>lc.
     Done (Inr \<lparr>ae_term = t, ae_leader = l, ae_prev_log_index = pi, ae_prev_log_term = pt,
       ae_entries = es, ae_leader_commit = lc\<rparr>))))))))"

definition ser_AppendEntriesReply :: "AppendEntriesReply \<Rightarrow> string" where
  "ser_AppendEntriesReply r = ser_struct [(''term'', ser_usize (aer_term r)), (''success'', ser_bool (aer_success r)),
     (''conflict_index'', ser_option ser_usize (aer_conflict_index r)),
     (''conflict_term'', ser_option ser_usize (aer_conflict_term r))]"

definition de_AppendEntriesReply :: "AppendEntriesReply reader" where
  "de_AppendEntriesReply s = (let m = de_struct s in
     and_then (de_field de_usize m ''term'') (\<lambda>t.
     and_then (de_field de_bool m ''success'') (\<lambda>b.
     and_then (de_opt_field de_usize m ''conflict_index'') (\<lambda>ci.
     and_then (de_opt_field de_usize m ''conflict_term'') (\<lambda>ct.
     Done (Inr \<lparr>aer_term = t, aer_success = b, aer_conflict_index = ci, aer_conflict_term = ct\<rparr>))))))"

section \<open>Round trips\<close>

abbreviation fits :: "nat option \<Rightarrow> bool" where
  "fits x \<equiv> pred_option (\<lambda>n. n \<le> usize_max) x"

text \<open>The rules for numbers, with both integer printers unfolded to \<open>show_nat\<close>.\<close>

lemma show_nat_value_ok: "value_ok (show_nat n)"
  using show_nat_plain by (rule plain_value_ok)

lemma de_usize_show_nat: "n \<le> usize_max \<Longrightarrow> de_usize (show_nat n) = Done (Inr n)"
  using de_ser_scalars(1) by (simp add: ser_usize_def)

lemmas num_simps = ser_num_eq opt_field_num show_nat_value_ok de_usize_show_nat

lemma vscan_variant:
  "list_all key_char n \<Longrightarrow> value_ok p \<Longrightarrow> value_ok (variant n p)"
proof -
  assume n: "list_all key_char n" and p: "value_ok p"
  have "vscan False 0 0 p = Some (False, 0, 0)"
    using p by (simp add: value_ok_def closed_text_def)
  then have "closed_text (variant n p)"
    using vscan_plain [OF n] by (simp add: closed_text_def variant_def vscan_append vstep_def)
  moreover have "\<not> is_whitespace (CHR ''('')" "\<not> is_whitespace (CHR '')'')"
    by (simp_all add: is_whitespace_def)
  then have "trimmed (variant n p)"
    using n by (cases n) (simp_all add: trimmed_def variant_def key_char_def)
  ultimately show "value_ok (variant n p)" by (simp add: value_ok_def)
qed

lemma value_ok_requests:
  "wf_SetReq a \<Longrightarrow> value_ok (ser_SetReq a)" "wf_GetReq b \<Longrightarrow> value_ok (ser_GetReq b)"
  "wf_ExpireReq c \<Longrightarrow> value_ok (ser_ExpireReq c)" "wf_ListReq d \<Longrightarrow> value_ok (ser_ListReq d)"
  "wf_MapReq g \<Longrightarrow> value_ok (ser_MapReq g)" "wf_PubReq h \<Longrightarrow> value_ok (ser_PubReq h)"
  "wf_VDelReq i \<Longrightarrow> value_ok (ser_VDelReq i)"
  by (simp_all add: wf_SetReq_def wf_GetReq_def wf_ExpireReq_def wf_ListReq_def wf_MapReq_def wf_PubReq_def wf_VDelReq_def
      ser_SetReq_def ser_GetReq_def ser_ExpireReq_def ser_ListReq_def ser_MapReq_def ser_PubReq_def ser_VDelReq_def
      value_ok_ser_struct wire_simps num_simps wire_elem_def list_all_iff)

lemma ser_Command_not_None: "ser_Command ft c \<noteq> ''None''"
  by (cases c) (simp_all add: variant_def)

definition wf_LogEntry :: "f32_text \<Rightarrow> LogEntry \<Rightarrow> bool" where
  "wf_LogEntry ft e \<longleftrightarrow> wf_Command ft (le_command e) \<and> le_term e \<le> usize_max"

definition wf_AppendEntries :: "f32_text \<Rightarrow> AppendEntries \<Rightarrow> bool" where
  "wf_AppendEntries ft r \<longleftrightarrow> ae_term r \<le> usize_max \<and> wire_str (ae_leader r) \<and> fits (ae_prev_log_index r)
     \<and> fits (ae_prev_log_term r) \<and> list_all (wf_LogEntry ft) (ae_entries r) \<and> fits (ae_leader_commit r)"

lemma rt_RequestVote:
  "\<lbrakk>rv_term r \<le> usize_max; wire_str (rv_candidate_id r); rv_last_log_index r \<le> usize_max; rv_last_log_term r \<le> usize_max\<rbrakk>
     \<Longrightarrow> de_RequestVote (ser_RequestVote r) = Done (Inr r)"
  by (cases r) (simp add: de_RequestVote_def ser_RequestVote_def wire_simps)

lemma rt_RequestVoteReply:
  "rvr_term r \<le> usize_max \<Longrightarrow> de_RequestVoteReply (ser_RequestVoteReply r) = Done (Inr r)"
  by (cases r) (simp add: de_RequestVoteReply_def ser_RequestVoteReply_def wire_simps)

lemma rt_AppendEntriesReply:
  "\<lbrakk>aer_term r \<le> usize_max; fits (aer_conflict_index r); fits (aer_conflict_term r)\<rbrakk>
     \<Longrightarrow> de_AppendEntriesReply (ser_AppendEntriesReply r) = Done (Inr r)"
  by (cases r) (simp add: de_AppendEntriesReply_def ser_AppendEntriesReply_def wire_simps num_simps)

context f32_codec
begin

lemma value_ok_ser_VSetReq: "wf_VSetReq r \<Longrightarrow> value_ok (ser_VSetReq ft r)"
  by (simp add: ser_VSetReq_def wf_VSetReq_def value_ok_ser_struct wire_simps elem_ok_ser_VecReq)

lemma value_ok_ser_Command: "wf_Command ft c \<Longrightarrow> value_ok (ser_Command ft c)"
proof (cases c)
  case Unknown
  then show ?thesis by (simp add: value_ok_def closed_text_def vstep_def trimmed_def is_whitespace_def)
qed (use names_plain in \<open>auto intro!: vscan_variant value_ok_requests value_ok_ser_VSetReq simp: payload_variants_def\<close>)

lemma fields_LogEntry:
  "wf_LogEntry ft e \<Longrightarrow> \<forall>f \<in> set [(''command'', ser_Command ft (le_command e)), (''term'', ser_usize (le_term e))]. field_ok f"
  by (simp add: wf_LogEntry_def value_ok_ser_Command wire_simps field_ok_value [OF ser_Command_not_None])

lemma elem_ok_ser_LogEntry: "wf_LogEntry ft e \<Longrightarrow> elem_ok (ser_LogEntry ft e)"
  unfolding ser_LogEntry_def by (rule elem_ok_ser_struct [OF fields_LogEntry])

lemma rt_LogEntry: "wf_LogEntry ft e \<Longrightarrow> de_LogEntry ft (ser_LogEntry ft e) = Done (Inr e)"
  by (cases e) (simp add: wf_LogEntry_def de_LogEntry_def ser_LogEntry_def wire_simps rt_Command value_ok_ser_Command
      field_ok_value [OF ser_Command_not_None] ser_Command_not_None)

lemma rt_AppendEntries: "wf_AppendEntries ft r \<Longrightarrow> de_AppendEntries ft (ser_AppendEntries ft r) = Done (Inr r)"
  by (cases r) (simp add: wf_AppendEntries_def de_AppendEntries_def ser_AppendEntries_def wire_simps list_all_iff
      num_simps elem_ok_ser_LogEntry rt_LogEntry)

end

section \<open>Properties\<close>

text \<open>
  C14. A leader's \<^verbatim>\<open>append_entries\<close> request arrives as it was sent: for entries whose commands are safe on
  the wire and numbers in range, with and without the optional fields, reading the printed
  request gives back the same term, leader, previous index and term, entries and commit index.
\<close>

theorem append_entries_roundtrip:
  assumes "f32_codec ft" "wf_AppendEntries ft r"
  shows "de_AppendEntries ft (ser_AppendEntries ft r) = Done (Inr r)"
  using f32_codec.rt_AppendEntries [OF assms] .

definition demo_ae :: AppendEntries where
  "demo_ae = \<lparr>ae_term = 3, ae_leader = ''n1'', ae_prev_log_index = Some 0, ae_prev_log_term = None,
     ae_entries = [\<lparr>le_command = Command.Set \<lparr>set_key = ''a'', set_value = ''x y'', set_exp = Some 5\<rparr>, le_term = 2\<rparr>,
                   \<lparr>le_command = Unknown, le_term = 3\<rparr>], ae_leader_commit = None\<rparr>"

theorem append_entries_roundtrip_witness:
  "de_AppendEntries bits_text (ser_AppendEntries bits_text demo_ae) = Done (Inr demo_ae)"
proof (rule append_entries_roundtrip [OF bits.f32_codec_axioms])
  have "show_nat 5 = ''5''" by code_simp
  then have "parens_ok (ser_SetReq \<lparr>set_key = ''a'', set_value = ''x y'', set_exp = Some 5\<rparr>)"
    by (simp add: parens_ok_def ser_SetReq_def ser_struct_def ser_string_def ser_option_def ser_u64_def)
  then show "wf_AppendEntries bits_text demo_ae"
    by (simp add: demo_ae_def wf_AppendEntries_def wf_LogEntry_def wf_SetReq_def wf_eval)
qed

end
