(* ===== verification/Pubsub.thy ===== *)
theory Pubsub
  imports Efis_Prelude
begin

text \<open>
  The publish-subscribe registry of \<^verbatim>\<open>efis/src/pubsub.rs\<close>: a map from channel names to the senders of
  \<^verbatim>\<open>tokio\<close> broadcast channels. The mutex around the map makes both operations atomic.

  \<^verbatim>\<open>tokio::sync::broadcast\<close> is a third-party crate, so its operations are the record \<open>broadcast_ops\<close>
  over an unknown type of channels and of receivers, and the locale \<open>broadcast\<close> states its documented
  behaviour: a message is queued for every receiver that exists when it is sent, \<^verbatim>\<open>send\<close> counts
  those receivers and fails when there is none, and a receiver that lags behind by more than the
  capacity loses its oldest messages.

  The lemmas follow one receiver through any sequence of subscriptions and publications.
\<close>

section \<open>Broadcast channels\<close>

record ('c, 'r) broadcast_ops =
  bc_channel :: "nat \<Rightarrow> 'c \<times> 'r"
  bc_subscribe :: "'c \<Rightarrow> 'c \<times> 'r"
  bc_send :: "string \<Rightarrow> 'c \<Rightarrow> nat option \<times> 'c"

text \<open>The last \<open>n\<close> messages.\<close>

definition lastn :: "nat \<Rightarrow> 'a list \<Rightarrow> 'a list" where
  "lastn n xs = drop (length xs - n) xs"

section \<open>The registry\<close>

record 'c PubSub =
  chans :: "string \<rightharpoonup> 'c"

definition ps_new :: "'c PubSub" where
  "ps_new = \<lparr>chans = Map.empty\<rparr>"

definition ps_subscribe :: "('c, 'r) broadcast_ops \<Rightarrow> string \<Rightarrow> 'c PubSub \<Rightarrow> 'r \<times> 'c PubSub" where
  "ps_subscribe bc key ps =
     (case chans ps key of
        Some tx \<Rightarrow> (let (tx', rx) = bc_subscribe bc tx in (rx, ps\<lparr>chans := (chans ps)(key \<mapsto> tx')\<rparr>))
      | None \<Rightarrow> (let (tx, rx) = bc_channel bc 1024 in (rx, ps\<lparr>chans := (chans ps)(key \<mapsto> tx)\<rparr>)))"

definition ps_publish :: "('c, 'r) broadcast_ops \<Rightarrow> string \<Rightarrow> string \<Rightarrow> 'c PubSub \<Rightarrow> nat \<times> 'c PubSub" where
  "ps_publish bc key v ps =
     (case chans ps key of
        Some tx \<Rightarrow> (let (n, tx') = bc_send bc v tx in
           (case n of Some k \<Rightarrow> k | None \<Rightarrow> 0, ps\<lparr>chans := (chans ps)(key \<mapsto> tx')\<rparr>))
      | None \<Rightarrow> (0, ps))"

text \<open>\<^verbatim>\<open>PubSubGuard\<close>: its \<^verbatim>\<open>ps()\<close> is another handle of the registry, and dropping it only takes the lock once.\<close>

record 'c PubSubGuard =
  guarded :: "'c PubSub"

definition psguard_new :: "'c PubSubGuard" where
  "psguard_new = \<lparr>guarded = ps_new\<rparr>"

definition psguard_ps :: "'c PubSubGuard \<Rightarrow> 'c PubSub" where
  "psguard_ps g = guarded g"

definition shutdown_purge_task :: "'c PubSub \<Rightarrow> 'c PubSub" where
  "shutdown_purge_task p = p"

text \<open>A run of the registry, as the sequence of the calls the mutex admits.\<close>

datatype ps_call = Subscribe string | Publish string string

fun ps_run :: "('c, 'r) broadcast_ops \<Rightarrow> ps_call list \<Rightarrow> 'c PubSub \<Rightarrow> 'c PubSub" where
  "ps_run bc [] ps = ps"
| "ps_run bc (Subscribe k # cs) ps = ps_run bc cs (snd (ps_subscribe bc k ps))"
| "ps_run bc (Publish k v # cs) ps = ps_run bc cs (snd (ps_publish bc k v ps))"

fun published :: "string \<Rightarrow> ps_call list \<Rightarrow> string list" where
  "published key [] = []"
| "published key (Publish k v # cs) = (if k = key then v # published key cs else published key cs)"
| "published key (Subscribe k # cs) = published key cs"

lemma lastn_snoc: "0 < n \<Longrightarrow> lastn n (lastn n xs @ ys) = lastn n (xs @ ys)"
  by (simp add: lastn_def) (cases "length xs \<le> n", simp_all add: add.commute)

lemma lastn_all: "length xs \<le> n \<Longrightarrow> lastn n xs = xs"
  by (simp add: lastn_def)

text \<open>Receiver \<open>r\<close> of channel \<open>key\<close> exists and has the messages \<open>ms\<close> waiting.\<close>

definition waiting ::
  "('c \<Rightarrow> 'r set) \<Rightarrow> ('c \<Rightarrow> 'r \<Rightarrow> string list) \<Rightarrow> ('c \<Rightarrow> nat) \<Rightarrow> 'c PubSub \<Rightarrow> string \<Rightarrow> 'r \<Rightarrow> string list \<Rightarrow> bool" where
  "waiting receivers queue cap ps key r ms \<longleftrightarrow>
     (\<exists>c. chans ps key = Some c \<and> r \<in> receivers c \<and> queue c r = ms \<and> cap c = 1024)"

text \<open>Every channel of the registry was made with the capacity the code asks for.\<close>

definition ps_ok :: "('c \<Rightarrow> nat) \<Rightarrow> 'c PubSub \<Rightarrow> bool" where
  "ps_ok cap ps \<longleftrightarrow> (\<forall>key c. chans ps key = Some c \<longrightarrow> cap c = 1024)"

lemma ps_ok_new: "ps_ok cap ps_new"
  by (simp add: ps_ok_def ps_new_def)

section \<open>The contract of a broadcast channel\<close>

text \<open>
  \<open>receivers\<close> are the receivers that exist, \<open>queue\<close> the messages one of them has still to receive,
  \<open>cap\<close> the capacity the channel was made with.
\<close>

locale broadcast =
  fixes bc :: "('c, 'r) broadcast_ops"
    and receivers :: "'c \<Rightarrow> 'r set"
    and queue :: "'c \<Rightarrow> 'r \<Rightarrow> string list"
    and cap :: "'c \<Rightarrow> nat"
  assumes channel: "bc_channel bc n = (c, r) \<Longrightarrow> receivers c = {r} \<and> queue c r = [] \<and> cap c = n"
    and subscribe: "bc_subscribe bc c = (c', r) \<Longrightarrow>
      r \<notin> receivers c \<and> receivers c' = insert r (receivers c) \<and> queue c' r = [] \<and> cap c' = cap c
      \<and> (\<forall>s \<in> receivers c. queue c' s = queue c s)"
    and send_none: "receivers c = {} \<Longrightarrow> bc_send bc v c = (None, c)"
    and send_some: "receivers c \<noteq> {} \<Longrightarrow> bc_send bc v c = (sent, c') \<Longrightarrow>
      sent = Some (card (receivers c)) \<and> receivers c' = receivers c \<and> cap c' = cap c
      \<and> (\<forall>s \<in> receivers c. queue c' s = lastn (cap c) (queue c s @ [v]))"
begin

lemma subscribe_ok:
  assumes "ps_ok cap ps" "ps_subscribe bc key ps = (r, ps')"
  shows "ps_ok cap ps' \<and> waiting receivers queue cap ps' key r []"
proof (cases "chans ps key")
  case None
  obtain tx rx where "bc_channel bc 1024 = (tx, rx)" by force
  then show ?thesis
    using None assms channel [of 1024 tx rx] by (auto simp: ps_subscribe_def ps_ok_def waiting_def split: if_splits)
next
  case (Some c)
  obtain tx rx where "bc_subscribe bc c = (tx, rx)" by force
  then show ?thesis
    using Some assms subscribe [of c tx rx] by (auto simp: ps_subscribe_def ps_ok_def waiting_def split: if_splits)
qed

lemma subscribe_waiting:
  assumes "waiting receivers queue cap ps key r ms"
  shows "waiting receivers queue cap (snd (ps_subscribe bc k ps)) key r ms"
proof (cases "chans ps k")
  case None
  then show ?thesis using assms by (auto simp: ps_subscribe_def waiting_def split: prod.split)
next
  case (Some c)
  obtain tx rx where "bc_subscribe bc c = (tx, rx)" by force
  then show ?thesis
    using Some assms subscribe [of c tx rx] by (auto simp: ps_subscribe_def waiting_def)
qed

lemma publish_waiting:
  assumes "waiting receivers queue cap ps key r ms"
  shows "waiting receivers queue cap (snd (ps_publish bc k v ps)) key r (if k = key then lastn 1024 (ms @ [v]) else ms)"
proof (cases "chans ps k")
  case None
  then show ?thesis using assms by (auto simp: ps_publish_def waiting_def)
next
  case (Some c)
  obtain n c' where s: "bc_send bc v c = (n, c')" by force
  show ?thesis
  proof (cases "k = key")
    case True
    then have "r \<in> receivers c" "queue c r = ms" "cap c = 1024"
      using Some assms by (auto simp: waiting_def)
    then have "receivers c' = receivers c" "queue c' r = lastn 1024 (ms @ [v])" "cap c' = 1024"
      using send_some [OF _ s] by auto
    then show ?thesis
      using Some True s \<open>r \<in> receivers c\<close> by (simp add: ps_publish_def waiting_def)
  next
    case False
    then show ?thesis
      using Some assms s by (simp add: ps_publish_def waiting_def)
  qed
qed

lemma run_waiting:
  "waiting receivers queue cap ps key r ms \<Longrightarrow> length ms \<le> 1024 \<Longrightarrow>
     waiting receivers queue cap (ps_run bc cs ps) key r (lastn 1024 (ms @ published key cs))"
proof (induction cs arbitrary: ps ms)
  case Nil
  then show ?case by (simp add: lastn_all)
next
  case (Cons c cs)
  show ?case
  proof (cases c)
    case (Subscribe k)
    then show ?thesis using Cons subscribe_waiting by simp
  next
    case (Publish k v)
    let ?ms = "if k = key then lastn 1024 (ms @ [v]) else ms"
    have "length ?ms \<le> 1024" using Cons.prems(2) by (auto simp: lastn_def)
    then have "waiting receivers queue cap (ps_run bc cs (snd (ps_publish bc k v ps))) key r (lastn 1024 (?ms @ published key cs))"
      using Cons.IH publish_waiting [OF Cons.prems(1)] by blast
    then show ?thesis using Publish by (auto simp: lastn_snoc)
  qed
qed

lemma publish_counts:
  "fst (ps_publish bc key v ps) = (case chans ps key of None \<Rightarrow> 0 | Some c \<Rightarrow> card (receivers c))"
proof (cases "chans ps key")
  case (Some c)
  then show ?thesis
    using send_none [of c v] send_some [of c v "fst (bc_send bc v c)" "snd (bc_send bc v c)"]
    by (cases "receivers c = {}") (auto simp: ps_publish_def split: prod.split)
qed (simp add: ps_publish_def)

end

text \<open>A channel that behaves as documented: the queue of every receiver, numbered from 0.\<close>

record ref_chan =
  rc_cap :: nat
  rc_queues :: "string list list"

definition ref_broadcast :: "(ref_chan, nat) broadcast_ops" where
  "ref_broadcast = \<lparr>
     bc_channel = (\<lambda>n. (\<lparr>rc_cap = n, rc_queues = [[]]\<rparr>, 0)),
     bc_subscribe = (\<lambda>c. (c\<lparr>rc_queues := rc_queues c @ [[]]\<rparr>, length (rc_queues c))),
     bc_send = (\<lambda>v c. if rc_queues c = [] then (None, c)
        else (Some (length (rc_queues c)), c\<lparr>rc_queues := map (\<lambda>q. lastn (rc_cap c) (q @ [v])) (rc_queues c)\<rparr>))\<rparr>"

interpretation ref: broadcast ref_broadcast "\<lambda>c. {..<length (rc_queues c)}" "\<lambda>c r. rc_queues c ! r" rc_cap
  by unfold_locales (auto simp: ref_broadcast_def nth_append lessThan_Suc split: if_splits)

section \<open>Properties\<close>

text \<open>
  C28. A subscriber receives, in order, exactly the values published on its channel after it
  subscribed, whatever other subscriptions and publications are interleaved; when more than 1024
  are waiting, exactly the newest 1024. Publishing reports the number of receivers of the channel.
\<close>

theorem subscriber_receives:
  assumes "broadcast bc receivers queue cap" "ps_ok cap ps"
    and "ps_subscribe bc key ps = (r, ps')"
  shows "\<exists>c. chans (ps_run bc cs ps') key = Some c \<and> r \<in> receivers c
      \<and> queue c r = lastn 1024 (published key cs)
      \<and> fst (ps_publish bc key v (ps_run bc cs ps')) = card (receivers c)"
proof -
  have "waiting receivers queue cap ps' key r []"
    using broadcast.subscribe_ok [OF assms] by blast
  from broadcast.run_waiting [OF assms(1) this, of cs] show ?thesis
    using broadcast.publish_counts [OF assms(1), of key v "ps_run bc cs ps'"]
    by (auto simp: waiting_def)
qed

theorem subscriber_receives_witness:
  "\<exists>c. chans (ps_run ref_broadcast [Publish ''a'' ''1'', Subscribe ''a'', Publish ''b'' ''2'', Publish ''a'' ''3'']
          (snd (ps_subscribe ref_broadcast ''a'' ps_new))) ''a'' = Some c
      \<and> rc_queues c ! 0 = [''1'', ''3'']"
proof -
  have "ps_subscribe ref_broadcast ''a'' ps_new = (0, snd (ps_subscribe ref_broadcast ''a'' ps_new))"
    by (simp add: ps_subscribe_def ps_new_def ref_broadcast_def)
  from subscriber_receives [OF ref.broadcast_axioms ps_ok_new this,
      of "[Publish ''a'' ''1'', Subscribe ''a'', Publish ''b'' ''2'', Publish ''a'' ''3'']"]
  show ?thesis by (auto simp: lastn_def)
qed

end
