(* ===== verification/Dispatcher.thy ===== *)
theory Dispatcher
  imports Rpc_Codec
begin

text \<open>
  The dispatcher of \<^verbatim>\<open>efis/src/rpc/dispatcher.rs\<close>, the wrappers the macros \<^verbatim>\<open>rpc_func\<close>, \<^verbatim>\<open>rpc_impl\<close> and
  \<^verbatim>\<open>requires_leader\<close> of \<^verbatim>\<open>macros/src/lib.rs\<close> put around a method, and what the connection handler of
  \<^verbatim>\<open>efis/src/rpc/server.rs\<close> does with one request line.

  A handler takes the request text and the state of the program (of any type \<open>'st\<close>) and returns a
  result and the new state. A stream handler returns a receiver of type \<open>'rx\<close>.

  The lemmas show that a request line reaches the handler it names with its payload unchanged.
\<close>

section \<open>Splitting\<close>

text \<open>\<^verbatim>\<open>str::split(" ")\<close>.\<close>

fun split_on :: "char \<Rightarrow> string \<Rightarrow> string list" where
  "split_on c [] = [[]]"
| "split_on c (x # xs) =
     (if x = c then [] # split_on c xs else (x # hd (split_on c xs)) # tl (split_on c xs))"

lemma split_on_nonempty [simp]: "split_on c s \<noteq> []"
  by (induction s) auto

lemma join_split_on: "join [c] (split_on c s) = s"
proof (induction s)
  case (Cons x xs)
  obtain p ps where e: "split_on c xs = p # ps"
    by (cases "split_on c xs") auto
  then have "join [c] ((x # p) # ps) = x # join [c] (p # ps)"
    by (cases ps) simp_all
  then show ?case using Cons.IH e by (simp add: join_Cons)
qed simp

lemma split_on_first: "c \<notin> set m \<Longrightarrow> split_on c (m @ c # p) = m # split_on c p"
  by (induction m) auto

lemma split_on_none: "c \<notin> set m \<Longrightarrow> split_on c m = [m]"
  by (induction m) auto

section \<open>The dispatcher\<close>

type_synonym 'st handler = "string \<Rightarrow> 'st \<Rightarrow> ((RpcError + string) \<times> 'st) run"
type_synonym ('st, 'rx) stream_handler = "string \<Rightarrow> 'st \<Rightarrow> ((RpcError + 'rx) \<times> 'st) run"

record ('st, 'rx) Dispatcher =
  rpcs :: "string \<rightharpoonup> 'st handler"
  streams :: "string \<rightharpoonup> ('st, 'rx) stream_handler"
  middlewares :: "(string \<Rightarrow> 'st \<Rightarrow> 'st run) list"

definition dispatcher_new :: "('st, 'rx) Dispatcher" where
  "dispatcher_new = \<lparr>rpcs = Map.empty, streams = Map.empty, middlewares = []\<rparr>"

definition register_fn :: "string \<Rightarrow> 'st handler \<Rightarrow> ('st, 'rx) Dispatcher \<Rightarrow> ('st, 'rx) Dispatcher" where
  "register_fn m f d = d\<lparr>rpcs := (rpcs d)(m \<mapsto> f)\<rparr>"

definition register_stream_fn :: "string \<Rightarrow> ('st, 'rx) stream_handler \<Rightarrow> ('st, 'rx) Dispatcher \<Rightarrow> ('st, 'rx) Dispatcher" where
  "register_stream_fn m f d = d\<lparr>streams := (streams d)(m \<mapsto> f)\<rparr>"

text \<open>A structure is its \<^verbatim>\<open>register_fns\<close>.\<close>

definition register_struct :: "(('st, 'rx) Dispatcher \<Rightarrow> ('st, 'rx) Dispatcher) \<Rightarrow> ('st, 'rx) Dispatcher \<Rightarrow> ('st, 'rx) Dispatcher" where
  "register_struct st d = st d"

definition middleware :: "(string \<Rightarrow> 'st \<Rightarrow> 'st run) \<Rightarrow> ('st, 'rx) Dispatcher \<Rightarrow> ('st, 'rx) Dispatcher" where
  "middleware f d = d\<lparr>middlewares := middlewares d @ [f]\<rparr>"

fun run_middlewares :: "(string \<Rightarrow> 'st \<Rightarrow> 'st run) list \<Rightarrow> string \<Rightarrow> 'st \<Rightarrow> 'st run" where
  "run_middlewares [] req st = Done st"
| "run_middlewares (f # fs) req st = run_bind (f req st) (run_middlewares fs req)"

definition dispatch_rpc :: "('st, 'rx) Dispatcher \<Rightarrow> string \<Rightarrow> 'st \<Rightarrow> ((RpcError + string) \<times> 'st) run" where
  "dispatch_rpc d req st =
     (let parts = split_on (CHR '' '') req;
          meth = trim (hd parts)
      in run_bind (run_middlewares (middlewares d) req st) (\<lambda>st.
        case rpcs d meth of
          None \<Rightarrow> Done (Inl (MethodNotFound meth), st)
        | Some f \<Rightarrow> f (join '' '' (tl parts)) st))"

definition dispatch_stream :: "('st, 'rx) Dispatcher \<Rightarrow> string \<Rightarrow> 'st \<Rightarrow> ((RpcError + 'rx) \<times> 'st) run" where
  "dispatch_stream d req st =
     (let parts = split_on (CHR '' '') req;
          meth = trim (hd parts)
      in run_bind (run_middlewares (middlewares d) req st) (\<lambda>st.
        case streams d meth of
          None \<Rightarrow> Done (Inl (MethodNotFound meth), st)
        | Some f \<Rightarrow> f (join '' '' (tl parts)) st))"

section \<open>The wrappers of the macros\<close>

text \<open>\<^verbatim>\<open>rpc_func\<close>: read the request, run the body, print the result.\<close>

definition rpc_func ::
  "'q reader \<Rightarrow> ('a \<Rightarrow> string) \<Rightarrow> ('q \<Rightarrow> 'st \<Rightarrow> ((RpcError + 'a) \<times> 'st) run) \<Rightarrow> 'st handler" where
  "rpc_func de ser body req st =
     run_bind (de req) (\<lambda>r. case r of
        Inl e \<Rightarrow> Done (Inl (Deserialize e), st)
      | Inr q \<Rightarrow> run_map (\<lambda>(res, st'). (map_sum id ser res, st')) (body q st))"

text \<open>The check \<^verbatim>\<open>rpc_impl\<close> puts in front of a method or a stream marked \<^verbatim>\<open>requires_leader\<close>.\<close>

definition requires_leader ::
  "bool \<Rightarrow> string option \<Rightarrow> (string \<Rightarrow> 'st \<Rightarrow> ((RpcError + 'a) \<times> 'st) run) \<Rightarrow> string \<Rightarrow> 'st \<Rightarrow> ((RpcError + 'a) \<times> 'st) run" where
  "requires_leader is_leader leader_id f req st =
     (if \<not> is_leader then
        Done (Inl (NotLeader (case leader_id of None \<Rightarrow> ''unknown'' | Some l \<Rightarrow> l)), st)
      else f req st)"

text \<open>\<^verbatim>\<open>rpc_stream\<close>: the items of the handler's stream are printed, then \<^verbatim>\<open>done\<close> follows when it ends.\<close>

definition rpc_stream_out :: "('a \<Rightarrow> string) \<Rightarrow> 'a list \<Rightarrow> string list" where
  "rpc_stream_out ser items = map ser items @ [''done'']"

section \<open>The connection handler\<close>

datatype 'rx reply = Line string | Streaming 'rx

text \<open>
  \<^verbatim>\<open>Handler::run\<close> on one line: first as a call, and if no call has that name, as a stream. Every
  message is followed by a line feed on the socket.
\<close>

definition handle_line :: "('st, 'rx) Dispatcher \<Rightarrow> string \<Rightarrow> 'st \<Rightarrow> ('rx reply \<times> 'st) run" where
  "handle_line d line st =
     run_bind (dispatch_rpc d line st) (\<lambda>(r, st). case r of
        Inr res \<Rightarrow> Done (Line res, st)
      | Inl (MethodNotFound _) \<Rightarrow>
          run_bind (dispatch_stream d line st) (\<lambda>(s, st). case s of
             Inr rx \<Rightarrow> Done (Streaming rx, st)
           | Inl err \<Rightarrow> Done (Line (ser_ErrorRes (rpc_error_display err)), st))
      | Inl err \<Rightarrow> Done (Line (ser_ErrorRes (rpc_error_display err)), st))"

section \<open>Lemmas\<close>

lemma dispatch_rpc_parts:
  assumes "CHR '' '' \<notin> set m" "trimmed m" "middlewares d = []"
  shows "dispatch_rpc d (m @ '' '' @ p) st =
    (case rpcs d m of None \<Rightarrow> Done (Inl (MethodNotFound m), st) | Some f \<Rightarrow> f p st)"
  using assms by (simp add: dispatch_rpc_def Let_def split_on_first join_split_on split: option.split)

lemma dispatch_stream_parts:
  assumes "CHR '' '' \<notin> set m" "trimmed m" "middlewares d = []"
  shows "dispatch_stream d (m @ '' '' @ p) st =
    (case streams d m of None \<Rightarrow> Done (Inl (MethodNotFound m), st) | Some f \<Rightarrow> f p st)"
  using assms by (simp add: dispatch_stream_def Let_def split_on_first join_split_on split: option.split)

lemma rpc_func_roundtrip:
  "de (ser q) = Done (Inr q) \<Longrightarrow>
     rpc_func de ser' body (ser q) st = run_map (\<lambda>(res, st'). (map_sum id ser' res, st')) (body q st)"
  by (simp add: rpc_func_def)

end
