(* ===== verification/Rpc_Client.thy ===== *)
theory Rpc_Client
  imports Dispatcher
begin

text \<open>
  The client of \<^verbatim>\<open>efis/src/rpc/client.rs\<close>: framing of requests and responses on a byte stream, the
  task that owns the connection, the classification of a response, and following a redirect to the
  leader.

  A socket is what it will do: the results of its reads in order (a piece of text, where the empty one
  is the end of the stream, or an error; the end of the list means that nothing more arrives), and
  the number of writes that still succeed. The payloads written are recorded.

  The lemmas show that a response line is received whole however it is fragmented, that the task
  answers the calls in its inbox in order and once each, through reconnections, what becomes of a
  redirect, and that an abandoned stream answers a later call.
\<close>

section \<open>Framing\<close>

abbreviation newline :: char where
  "newline \<equiv> CHR 0x0A"

record socket =
  reads :: "string res list"
  writes_left :: nat
  sent :: "string list"

definition call_payload :: "string \<Rightarrow> string \<Rightarrow> string" where
  "call_payload m req = m @ '' '' @ req @ [newline]"

text \<open>\<^verbatim>\<open>write_all\<close> and \<^verbatim>\<open>flush\<close>.\<close>

definition sock_write :: "string \<Rightarrow> socket \<Rightarrow> unit res \<times> socket" where
  "sock_write payload s =
     (if writes_left s = 0 then (Inl ''write failed'', s)
      else (Inr (), s\<lparr>writes_left := writes_left s - 1, sent := sent s @ [payload]\<rparr>))"

text \<open>The reading loop of \<^verbatim>\<open>process_unary\<close>; bytes behind the line are dropped with the local buffer.\<close>

fun read_response :: "string \<Rightarrow> string res list \<Rightarrow> (string res \<times> string res list) run" where
  "read_response acc [] = Hang"
| "read_response acc (Inl err # rs) = Done (Inl err, rs)"
| "read_response acc (Inr piece # rs) =
     (if piece = [] then Done (Inl ''EOF'', rs)
      else let acc = acc @ piece in
        if newline \<in> set acc then Done (Inr (takeWhile (\<lambda>b. b \<noteq> newline) acc), rs)
        else read_response acc rs)"

definition process_unary :: "string \<Rightarrow> socket \<Rightarrow> (string res \<times> socket) run" where
  "process_unary payload s =
     (case sock_write payload s of
        (Inl err, s) \<Rightarrow> Done (Inl err, s)
      | (Inr _, s) \<Rightarrow> run_map (\<lambda>(r, rs). (r, s\<lparr>reads := rs\<rparr>)) (read_response [] (reads s)))"

lemma rest_shorter: "newline \<in> set acc \<Longrightarrow> length (tl (dropWhile (\<lambda>b. b \<noteq> newline) acc)) < length acc"
  by (induction acc) auto

text \<open>
  The inner loop of \<^verbatim>\<open>process_stream\<close> over the complete lines of the buffer. \<open>alive n\<close> tells whether the
  consumer is still there after \<open>n\<close> messages. The result is the lines handed over so far, and the
  rest of the buffer unless the stream is over.
\<close>

function drain_lines :: "(nat \<Rightarrow> bool) \<Rightarrow> string list \<Rightarrow> string \<Rightarrow> string list \<times> string option" where
  "drain_lines alive out acc =
     (if newline \<notin> set acc then (out, Some acc)
      else let line = takeWhile (\<lambda>b. b \<noteq> newline) acc;
               rest = tl (dropWhile (\<lambda>b. b \<noteq> newline) acc)
        in if line = ''done'' then (out, None)
           else if \<not> alive (length out) then (out, None)
           else drain_lines alive (out @ [line]) rest)"
  by pat_completeness auto
termination
  by (relation "measure (\<lambda>(alive, out, acc). length acc)") (auto intro: rest_shorter [simplified])

declare drain_lines.simps [simp del]

text \<open>The lines handed to the consumer, whether the stream ended (\<open>Inr\<close>) or was lost (\<open>Inl\<close>), and the reads not made.\<close>

fun read_stream :: "(nat \<Rightarrow> bool) \<Rightarrow> string list \<Rightarrow> string \<Rightarrow> string res list \<Rightarrow> (string list \<times> unit res \<times> string res list) run" where
  "read_stream alive out acc [] = Hang"
| "read_stream alive out acc (Inl err # rs) = Done (out, Inl err, rs)"
| "read_stream alive out acc (Inr piece # rs) =
     (if piece = [] then Done (out, Inl ''EOF'', rs)
      else case drain_lines alive out (acc @ piece) of
        (out, None) \<Rightarrow> Done (out, Inr (), rs)
      | (out, Some acc) \<Rightarrow> read_stream alive out acc rs)"

definition process_stream :: "(nat \<Rightarrow> bool) \<Rightarrow> string \<Rightarrow> socket \<Rightarrow> (string list \<times> unit res \<times> socket) run" where
  "process_stream alive payload s =
     (case sock_write payload s of
        (Inl err, s) \<Rightarrow> Done ([], Inl err, s)
      | (Inr _, s) \<Rightarrow> run_map (\<lambda>(out, r, rs). (out, r, s\<lparr>reads := rs\<rparr>)) (read_stream alive [] [] (reads s)))"

section \<open>The connection task\<close>

text \<open>A reply channel is a number; a stream's consumer is given by how long it lives.\<close>

datatype ClientMsg = Call string nat | CallStream string "nat \<Rightarrow> bool" nat

datatype delivery = Answer nat "string res" | Item nat "string list"

record io_state =
  conn :: "socket option"
  connected :: bool
  delivered :: "delivery list"

text \<open>One message on an open connection: the connection afterwards, and what the caller gets.\<close>

fun io_message :: "ClientMsg \<Rightarrow> socket \<Rightarrow> (socket option \<times> delivery) run" where
  "io_message (Call payload ch) s =
     run_map (\<lambda>(r, s). case r of
         Inr line \<Rightarrow> (Some s, Answer ch (Inr line))
       | Inl _ \<Rightarrow> (None, Answer ch (Inl ''Connection lost''))) (process_unary payload s)"
| "io_message (CallStream payload alive ch) s =
     run_map (\<lambda>(out, r, s). (case r of Inr _ \<Rightarrow> Some s | Inl _ \<Rightarrow> None, Item ch out)) (process_stream alive payload s)"

text \<open>
  \<^verbatim>\<open>io_loop\<close>: \<open>dials\<close> are the results of its connection attempts (200 milliseconds apart), \<open>msgs\<close> the
  messages in its inbox until every sender is gone. Out of attempts, the task is still dialling.
\<close>

function io_loop :: "socket option list \<Rightarrow> ClientMsg list \<Rightarrow> io_state \<Rightarrow> io_state run" where
  "io_loop dials msgs st =
     (case conn st of
        None \<Rightarrow>
          (case dials of
             [] \<Rightarrow> Done st
           | Some s # ds \<Rightarrow> io_loop ds msgs (st\<lparr>conn := Some s, connected := True\<rparr>)
           | None # ds \<Rightarrow> io_loop ds msgs (st\<lparr>connected := False\<rparr>))
      | Some s \<Rightarrow>
          (case msgs of
             [] \<Rightarrow> Done st
           | m # ms \<Rightarrow> run_bind (io_message m s) (\<lambda>(c, d). io_loop dials ms (st\<lparr>conn := c, delivered := delivered st @ [d]\<rparr>))))"
  by pat_completeness auto
termination
  by (relation "measure (\<lambda>(dials, msgs, st). length dials + length msgs)") auto

declare io_loop.simps [simp del]

definition io_start :: io_state where
  "io_start = \<lparr>conn = None, connected = False, delivered = []\<rparr>"

section \<open>Responses\<close>

datatype ClientError = Connection string | Redirect string | Server string

text \<open>The text after the first occurrence of a pattern, and before the first one.\<close>

fun after_str :: "string \<Rightarrow> string \<Rightarrow> string option" where
  "after_str p [] = (if p = [] then Some [] else None)"
| "after_str p (c # cs) = (if starts_with (c # cs) p then Some (drop (length p) (c # cs)) else after_str p cs)"

fun before_str :: "string \<Rightarrow> string \<Rightarrow> string" where
  "before_str p [] = []"
| "before_str p (c # cs) = (if starts_with (c # cs) p then [] else c # before_str p cs)"

text \<open>\<^verbatim>\<open>response.split("leader=").nth(1)\<close>, then \<^verbatim>\<open>trim_end_matches\<close>, \<^verbatim>\<open>trim\<close> and the first word.\<close>

definition parse_redirect :: "string \<Rightarrow> string option" where
  "parse_redirect response =
     (if \<not> contains_str response ''not_leader'' then None
      else case after_str ''leader='' response of
        None \<Rightarrow> None
      | Some t \<Rightarrow>
          (let s = trim (rev (dropWhile (\<lambda>c. c = CHR ''}'') (rev (before_str ''leader='' t))))
           in if s = [] then None else Some (takeWhile (\<lambda>c. \<not> is_whitespace c) s)))"

text \<open>What \<^verbatim>\<open>call\<close> makes of the line it received.\<close>

definition classify :: "'a reader \<Rightarrow> string \<Rightarrow> (ClientError + 'a) run" where
  "classify de raw =
     (case parse_redirect raw of
        Some leader \<Rightarrow> Done (Inl (Redirect leader))
      | None \<Rightarrow>
          run_bind (de_ErrorRes raw) (\<lambda>e. case e of
             Inr msg \<Rightarrow> Done (Inl (Server msg))
           | Inl _ \<Rightarrow> run_map (map_sum (\<lambda>m. Server (''Deserialize error: '' @ m)) id) (de raw)))"

text \<open>\<^verbatim>\<open>From<RecvError>\<close>; the message of the error is that of tokio.\<close>

definition from_recv_error :: "string \<Rightarrow> ClientError" where
  "from_recv_error e = Connection (''Channel closed: '' @ e)"

text \<open>The end of \<^verbatim>\<open>call\<close>: what the connection task reported, and of \<^verbatim>\<open>call_stream\<close>: items that do not read are skipped.\<close>

definition call_result :: "'a reader \<Rightarrow> string res \<Rightarrow> (ClientError + 'a) run" where
  "call_result de r = (case r of Inl err \<Rightarrow> Done (Inl (Connection err)) | Inr raw \<Rightarrow> classify de raw)"

fun stream_items :: "'a reader \<Rightarrow> string list \<Rightarrow> 'a list run" where
  "stream_items de [] = Done []"
| "stream_items de (raw # raws) =
     run_bind (de raw) (\<lambda>r. case r of Inl _ \<Rightarrow> stream_items de raws | Inr x \<Rightarrow> run_map ((#) x) (stream_items de raws))"

section \<open>Redirects\<close>

text \<open>
  The address the connection task dials is the argument it was started with; \<^verbatim>\<open>redirect_to\<close> writes
  another copy, the one \<^verbatim>\<open>addr()\<close> reports.
\<close>

record Client =
  dial_addr :: string
  client_addr :: string

definition client_new :: "string \<Rightarrow> Client" where
  "client_new a = \<lparr>dial_addr = a, client_addr = a\<rparr>"

definition client_connected :: "io_state \<Rightarrow> bool" where
  "client_connected st = connected st"

definition client_address :: "Client \<Rightarrow> string" where
  "client_address c = client_addr c"

definition redirect_to :: "string \<Rightarrow> Client \<Rightarrow> Client" where
  "redirect_to a c = c\<lparr>client_addr := a\<rparr>"

text \<open>\<^verbatim>\<open>str::parse::<u16>\<close>; only its success matters.\<close>

definition parse_u16 :: "string \<Rightarrow> nat option" where
  "parse_u16 s = (case parse_usize s of Inr n \<Rightarrow> if n < 65536 then Some n else None | Inl _ \<Rightarrow> None)"

definition leader_addr :: "string \<Rightarrow> string" where
  "leader_addr leader =
     (let port = (case parse_u16 (dropWhile (\<lambda>c. c = CHR ''n'') leader) of
         Some n \<Rightarrow> (3332 + n) mod 65536 | None \<Rightarrow> 3333)
      in ''localhost:'' @ show_nat port)"

text \<open>
  \<^verbatim>\<open>call_with_redirect\<close>. \<open>serve a k\<close> is the line the server at address \<open>a\<close> answers to the \<open>k\<close>-th attempt.
  The loop ends only with an answer that is not a redirect; \<open>None\<close> is running out of fuel.
\<close>

fun call_with_redirect ::
  "nat \<Rightarrow> (string \<Rightarrow> nat \<Rightarrow> string) \<Rightarrow> 'a reader \<Rightarrow> nat \<Rightarrow> Client \<Rightarrow> ((ClientError + 'a) run \<times> Client) option" where
  "call_with_redirect 0 serve de k c = None"
| "call_with_redirect (Suc fuel) serve de k c =
     (case classify de (serve (dial_addr c) k) of
        Done (Inl (Redirect leader)) \<Rightarrow>
          call_with_redirect fuel serve de (Suc k) (redirect_to (leader_addr leader) c)
      | r \<Rightarrow> Some (r, c))"

section \<open>Lemmas\<close>

lemma takeWhile_line: "newline \<notin> set l \<Longrightarrow> takeWhile (\<lambda>b. b \<noteq> newline) (l @ newline # m) = l"
  by (induction l) auto

lemma read_response_fragments:
  assumes "concat pieces = rest @ [newline]" "newline \<notin> set rest" "newline \<notin> set acc" "\<forall>p \<in> set pieces. p \<noteq> []"
  shows "read_response acc (map Inr pieces @ rs) = Done (Inr (acc @ rest), rs)"
  using assms
proof (induction pieces arbitrary: acc rest)
  case (Cons p ps)
  show ?case
  proof (cases "newline \<in> set p")
    case True
    then obtain a b where p: "p = a @ newline # b" "newline \<notin> set a"
      by (meson split_list_first)
    then have "a = rest \<and> concat ps = []"
      using Cons.prems(1,2) by (auto simp: append_eq_append_conv2 append_eq_Cons_conv Cons_eq_append_conv)
    moreover from this have "ps = []" using Cons.prems(4) by (cases ps) auto
    ultimately show ?thesis using p Cons.prems takeWhile_line [of "acc @ rest" b] by (auto simp: Let_def)
  next
    case False
    then obtain rest' where r: "rest = p @ rest'" "concat ps = rest' @ [newline]"
      using Cons.prems(1,2) by (auto simp: append_eq_append_conv2 append_eq_Cons_conv)
    then show ?thesis
      using Cons False by (auto simp: Let_def)
  qed
qed simp

lemma starts_with_prefix: "starts_with s p \<longleftrightarrow> take (length p) s = p"
  by (induction s p rule: starts_with.induct) auto

lemma contains_str_sub: "contains_str s p \<longleftrightarrow> (\<exists>u v. s = u @ p @ v)"
proof (induction s)
  case (Cons c cs)
  have "starts_with (c # cs) p \<longleftrightarrow> (\<exists>v. c # cs = p @ v)"
    by (metis append_eq_conv_conj append_take_drop_id starts_with_prefix)
  then show ?case
    using Cons by (auto simp: Cons_eq_append_conv)
qed auto

text \<open>The reads in which a line and its line feed can arrive.\<close>

definition fragments :: "string list \<Rightarrow> string \<Rightarrow> bool" where
  "fragments pieces line \<longleftrightarrow> concat pieces = line @ [newline] \<and> newline \<notin> set line \<and> (\<forall>p \<in> set pieces. p \<noteq> [])"

lemma process_unary_fragments:
  assumes "fragments pieces line" "reads s = map Inr pieces @ rs" "0 < writes_left s"
  shows "process_unary payload s = Done (Inr line, s\<lparr>reads := rs, writes_left := writes_left s - 1, sent := sent s @ [payload]\<rparr>)"
  using assms read_response_fragments [of pieces line "[]" rs]
  by (simp add: fragments_def process_unary_def sock_write_def)

lemma io_loop_calls:
  assumes "list_all2 fragments groups lines" "reads s = map Inr (concat groups) @ rs" "length groups \<le> writes_left s"
    "length ps = length groups" "length chs = length groups" "conn st = Some s"
  shows "\<exists>st'. io_loop ds (map2 Call ps chs) st = Done st'
    \<and> delivered st' = delivered st @ map2 (\<lambda>ch l. Answer ch (Inr l)) chs lines
    \<and> conn st' = Some (s\<lparr>reads := rs, writes_left := writes_left s - length groups, sent := sent s @ ps\<rparr>)"
  using assms
proof (induction groups lines arbitrary: s ps chs st rule: list_all2_induct)
  case Nil
  then show ?case by (simp add: io_loop.simps [of _ "[]"])
next
  case (Cons g groups l lines)
  obtain p ps' ch chs' where e: "ps = p # ps'" "chs = ch # chs'"
    using Cons.prems(3,4) by (metis length_Suc_conv)
  let ?s = "s\<lparr>reads := map Inr (concat groups) @ rs, writes_left := writes_left s - 1, sent := sent s @ [p]\<rparr>"
  let ?st = "st\<lparr>conn := Some ?s, delivered := delivered st @ [Answer ch (Inr l)]\<rparr>"
  have "process_unary p s = Done (Inr l, ?s)"
    using process_unary_fragments [OF Cons.hyps(1), of s "map Inr (concat groups) @ rs" p] Cons.prems(1,2) by simp
  then have "io_loop ds (map2 Call ps chs) st = io_loop ds (map2 Call ps' chs') ?st"
    using Cons.prems(5) e by (subst io_loop.simps) simp
  then show ?case
    using Cons.IH [of ?s ps' chs' ?st] Cons.prems(2-4) e by simp
qed

text \<open>The reply channels of messages and of what was delivered.\<close>

fun msg_channel :: "ClientMsg \<Rightarrow> nat" where
  "msg_channel (Call _ ch) = ch"
| "msg_channel (CallStream _ _ ch) = ch"

fun delivery_channel :: "delivery \<Rightarrow> nat" where
  "delivery_channel (Answer ch _) = ch"
| "delivery_channel (Item ch _) = ch"

text \<open>Each message costs at most one connection.\<close>

definition connections :: "socket option list \<Rightarrow> io_state \<Rightarrow> nat" where
  "connections dials st = length (filter (\<lambda>d. d \<noteq> None) dials) + (if conn st = None then 0 else 1)"

lemma io_message_channel: "io_message m s = Done (c, d) \<Longrightarrow> delivery_channel d = msg_channel m"
proof (cases m)
  case (Call payload ch)
  assume "io_message m s = Done (c, d)"
  then show ?thesis using Call by (cases "process_unary payload s") (auto split: sum.split_asm)
next
  case (CallStream payload alive ch)
  assume "io_message m s = Done (c, d)"
  then show ?thesis using CallStream by (cases "process_stream alive payload s") auto
qed

lemma io_loop_dial:
  assumes "conn st = None"
  shows "io_loop [] msgs st = Done st"
    "io_loop (d # ds) msgs st = io_loop ds msgs (st\<lparr>conn := d, connected := (d \<noteq> None)\<rparr>)"
  using assms by (subst io_loop.simps; cases st; cases d; simp)+

lemma io_loop_open:
  assumes "conn st = Some s"
  shows "io_loop dials [] st = Done st"
    "io_loop dials (m # ms) st = run_bind (io_message m s) (\<lambda>(c, d). io_loop dials ms (st\<lparr>conn := c, delivered := delivered st @ [d]\<rparr>))"
  using assms by (simp_all add: io_loop.simps [of dials _ st])

definition answered :: "socket option list \<Rightarrow> ClientMsg list \<Rightarrow> io_state \<Rightarrow> io_state \<Rightarrow> bool" where
  "answered dials msgs st st' \<longleftrightarrow>
     (\<exists>n. map delivery_channel (delivered st') = map delivery_channel (delivered st) @ map msg_channel (take n msgs)
        \<and> (length msgs < connections dials st \<longrightarrow> n = length msgs))"

lemma io_loop_delivers: "io_loop dials msgs st = Done st' \<Longrightarrow> answered dials msgs st st'"
proof (induction "length dials + length msgs" arbitrary: dials msgs st rule: less_induct)
  case less
  show ?case
  proof (cases "conn st")
    case None
    show ?thesis
    proof (cases dials)
      case Nil
      then show ?thesis using less.prems None by (auto simp: io_loop_dial answered_def connections_def intro: exI [of _ 0])
    next
      case (Cons d ds)
      then have "answered ds msgs (st\<lparr>conn := d, connected := (d \<noteq> None)\<rparr>) st'"
        using less None by (simp add: io_loop_dial)
      then show ?thesis using None Cons by (auto simp: answered_def connections_def)
    qed
  next
    case (Some s)
    show ?thesis
    proof (cases msgs)
      case Nil
      then show ?thesis using less.prems Some by (simp add: io_loop_open answered_def)
    next
      case (Cons m ms)
      then obtain c d where m: "io_message m s = Done (c, d)"
        and r: "io_loop dials ms (st\<lparr>conn := c, delivered := delivered st @ [d]\<rparr>) = Done st'"
        using less.prems Some by (auto simp: io_loop_open run_simps)
      then have "answered dials ms (st\<lparr>conn := c, delivered := delivered st @ [d]\<rparr>) st'"
        using less.hyps Cons by simp
      then obtain n where "map delivery_channel (delivered st') = map delivery_channel (delivered st) @ msg_channel m # map msg_channel (take n ms)"
          "length ms < connections dials (st\<lparr>conn := c, delivered := delivered st @ [d]\<rparr>) \<longrightarrow> n = length ms"
        using io_message_channel [OF m] by (auto simp: answered_def)
      then show ?thesis
        using Some Cons unfolding answered_def by (intro exI [of _ "Suc n"]) (auto simp: connections_def)
    qed
  qed
qed

section \<open>Properties\<close>

text \<open>
  A request that reaches a node which is not the leader is answered with the leader's name, but
  not in the form the client looks for: the server sends the error's display text, in which
  \<^verbatim>\<open>not_leader\<close> and \<^verbatim>\<open>leader=\<close> do not occur, so the client reports a server error and never redirects.
  The form the client understands is the one of \<^verbatim>\<open>RpcError::serialize\<close>, which is not what is sent.
\<close>

lemma redirect_not_recognised:
  assumes "dquote \<notin> set i" "CHR ''_'' \<notin> set i" "handle_line d line st = Done (rep, st')"
    and "dispatch_rpc d line st = Done (Inl (NotLeader i), st')"
  shows "rep = Line (ser_ErrorRes (''not leader, redirect to '' @ i))
    \<and> classify de (ser_ErrorRes (''not leader, redirect to '' @ i)) = Done (Inl (Server (''not leader, redirect to '' @ i)))"
proof -
  let ?t = "''not leader, redirect to '' @ i"
  have w: "wire_str ?t" using assms(1) by (simp add: wire_str_def)
  have "CHR ''_'' \<notin> set (ser_ErrorRes ?t)"
    using assms(1,2) by (simp add: ser_ErrorRes_def ser_struct_def ser_string_def escape_id)
  then have "\<not> contains_str (ser_ErrorRes ?t) ''not_leader''"
    by (auto simp: contains_str_sub)
  then have "parse_redirect (ser_ErrorRes ?t) = None"
    by (simp add: parse_redirect_def)
  moreover have "key_ok ''error''" by (simp add: key_ok_def key_char_def is_whitespace_def)
  then have "de_ErrorRes (ser_ErrorRes ?t) = Done (Inr ?t)"
    using w by (simp add: de_ErrorRes_def ser_ErrorRes_def de_ser_struct field_ok_def value_ok_ser_string
        ser_string_not_None de_ser_string)
  ultimately show ?thesis
    using assms(3,4) by (simp add: classify_def handle_line_def)
qed

definition follower :: "(unit, unit) Dispatcher" where
  "follower = register_fn ''set'' (requires_leader False (Some ''n2'') (\<lambda>req st. Done (Inr req, st))) dispatcher_new"

text \<open>
  C29. Every caller gets exactly one answer, in the order of the calls. Whatever the sockets do, what the
  connection task has delivered belongs to a prefix of the messages in its inbox; and if it does
  not wait for the network for ever and one more connection attempt succeeds than there are
  messages, all of them have been served, those of lost connections with an error.
\<close>

theorem client_serves_every_call:
  assumes "io_loop dials msgs io_start = Done st"
  shows "(\<exists>n. map delivery_channel (delivered st) = map msg_channel (take n msgs))
    \<and> (length msgs < length (filter (\<lambda>d. d \<noteq> None) dials) \<longrightarrow> map delivery_channel (delivered st) = map msg_channel msgs)"
  using io_loop_delivers [OF assms] by (auto simp: answered_def io_start_def connections_def)

definition demo_socket :: "string list \<Rightarrow> socket" where
  "demo_socket pieces = \<lparr>reads = map Inr pieces, writes_left = 10, sent = []\<rparr>"

theorem client_serves_every_call_witness:
  "\<exists>st. io_loop [None, Some (demo_socket [[]]), None, Some (demo_socket [''{status=o'', [CHR ''k'', CHR ''}'', newline]]), Some (demo_socket [])]
      [Call ''a'' 1, Call ''b'' 2] io_start = Done st
    \<and> map delivery_channel (delivered st) = [1, 2]"
proof -
  let ?d = "[None, Some (demo_socket [[]]), None, Some (demo_socket [''{status=o'', [CHR ''k'', CHR ''}'', newline]]), Some (demo_socket [])]"
  have "\<exists>st. io_loop ?d [Call ''a'' 1, Call ''b'' 2] io_start = Done st"
    by (simp add: io_loop_dial io_loop_open io_start_def demo_socket_def process_unary_def sock_write_def)
  then show ?thesis
    using client_serves_every_call [of ?d "[Call ''a'' 1, Call ''b'' 2]"] by auto
qed

text \<open>
  An abandoned stream answers a later call. When the consumer of a stream is gone, the task stops
  reading it but keeps the connection, on which the server goes on sending; the next call is then
  answered with the stream's next message, whatever was asked.
\<close>

lemma abandoned_stream_answers_call:
  assumes "fragments ps1 m1" "fragments ps2 m2" "length ps1 = 1" "m1 \<noteq> ''done''"
    and "reads s = map Inr (ps1 @ ps2) @ rs" "2 \<le> writes_left s" "conn st = Some s"
  shows "\<exists>st'. io_loop [] [CallStream p1 (\<lambda>_. False) c1, Call p2 c2] st = Done st'
    \<and> delivered st' = delivered st @ [Item c1 [], Answer c2 (Inr m2)]"
proof -
  let ?s = "s\<lparr>reads := map Inr ps2 @ rs, writes_left := writes_left s - 1, sent := sent s @ [p1]\<rparr>"
  have "ps1 = [m1 @ [newline]]" "newline \<notin> set m1"
    using assms(1,3) by (auto simp: fragments_def length_Suc_conv)
  then have "process_stream (\<lambda>_. False) p1 s = Done ([], Inr (), ?s)"
    using assms(4-6) takeWhile_line [of m1 "[]"]
    by (simp add: process_stream_def sock_write_def drain_lines.simps [of _ "[]"] Let_def)
  moreover have "process_unary p2 ?s = Done (Inr m2, ?s\<lparr>reads := rs, writes_left := writes_left s - 2, sent := sent s @ [p1, p2]\<rparr>)"
    using process_unary_fragments [OF assms(2), of ?s rs p2] assms(6) by (simp add: numeral_2_eq_2)
  ultimately show ?thesis
    using assms(7) by (simp add: io_loop_open)
qed

end
