(* ===== verification/Server.thy ===== *)
theory Server
  imports Rpc_Client
begin

text \<open>
  The server of \<^verbatim>\<open>efis/src/rpc/server.rs\<close>: the loop of a connection handler over request lines, the
  listener with its limit on connections and its retries, shutdown, and the task that dispatches
  internal messages.

  A connection is the sequence of events its handler observes (a line from the framing codec of
  \<^verbatim>\<open>tokio_util\<close>, an error of it, the end of the connection, the shutdown signal) and whether each of
  its writes succeeds. What a stream handler's receiver yields is a parameter.

  The lemmas show that requests on one connection are answered in order, one line each, and,
  together with the client, that every call gets the answer to its own request; and that the
  listener never runs more handlers than it has permits for.
\<close>

section \<open>The connection handler\<close>

datatype conn_event = ShutdownSignal | Incoming string | BadLine string | Eof

datatype session_end = Open | Ended "unit res"

text \<open>The loop over a stream's messages: the lines written, and how it ended; \<open>None\<close> while messages may still come.\<close>

fun stream_out :: "(nat \<Rightarrow> bool) \<Rightarrow> string list \<Rightarrow> string list \<Rightarrow> bool \<Rightarrow> string list \<times> unit res option" where
  "stream_out w out [] closed = (out, if closed then Some (Inr ()) else None)"
| "stream_out w out (msg # msgs) closed =
     (if contains_str msg ''exit'' then (out, Some (Inr ()))
      else if \<not> w (length out) then (out, Some (Inl ''write failed''))
      else stream_out w (out @ [msg]) msgs closed)"

text \<open>
  \<^verbatim>\<open>Handler::run\<close>. \<open>src rx\<close> are the messages of a receiver and whether its channel is then closed; \<open>out\<close>
  are the lines written so far and \<open>w n\<close> whether the write of line \<open>n\<close> succeeds. A handler that waits
  for a stream reads no further lines and does not see the shutdown signal.
\<close>

fun session ::
  "('st, 'rx) Dispatcher \<Rightarrow> ('rx \<Rightarrow> string list \<times> bool) \<Rightarrow> (nat \<Rightarrow> bool) \<Rightarrow> conn_event list \<Rightarrow> string list \<Rightarrow> 'st
     \<Rightarrow> (session_end \<times> string list \<times> 'st) run" where
  "session d src w [] out st = Done (Open, out, st)"
| "session d src w (ShutdownSignal # evs) out st = Done (Ended (Inr ()), out, st)"
| "session d src w (BadLine err # evs) out st = Done (Ended (Inl err), out, st)"
| "session d src w (Eof # evs) out st = Done (Ended (Inr ()), out, st)"
| "session d src w (Incoming line # evs) out st =
     run_bind (handle_line d line st) (\<lambda>(rep, st). case rep of
        Line res \<Rightarrow>
          if w (length out) then session d src w evs (out @ [res]) st
          else Done (Ended (Inl ''write failed''), out, st)
      | Streaming rx \<Rightarrow>
          (case stream_out w out (fst (src rx)) (snd (src rx)) of
             (out, None) \<Rightarrow> Hang
           | (out, Some (Inl err)) \<Rightarrow> Done (Ended (Inl err), out, st)
           | (out, Some (Inr _)) \<Rightarrow> session d src w evs out st))"

text \<open>\<^verbatim>\<open>RpcServer::register_input_stream\<close>: results are dropped, lagging is skipped.\<close>

datatype input_event = Message string | Lagged nat | SenderClosed

fun input_stream :: "('st, 'rx) Dispatcher \<Rightarrow> input_event list \<Rightarrow> 'st \<Rightarrow> 'st run" where
  "input_stream d [] st = Done st"
| "input_stream d (Message msg # evs) st = run_bind (dispatch_rpc d msg st) (\<lambda>(_, st). input_stream d evs st)"
| "input_stream d (Lagged n # evs) st = input_stream d evs st"
| "input_stream d (SenderClosed # evs) st = Done st"

text \<open>\<^verbatim>\<open>RpcServer\<close>: the dispatcher behind a lock, so each registration is one step.\<close>

record ('st, 'rx) RpcServer =
  server_dispatcher :: "('st, 'rx) Dispatcher"

definition server_new :: "('st, 'rx) RpcServer" where
  "server_new = \<lparr>server_dispatcher = dispatcher_new\<rparr>"

definition server_register_fn :: "string \<Rightarrow> 'st handler \<Rightarrow> ('st, 'rx) RpcServer \<Rightarrow> ('st, 'rx) RpcServer" where
  "server_register_fn m f s = s\<lparr>server_dispatcher := register_fn m f (server_dispatcher s)\<rparr>"

definition server_register_stream_fn :: "string \<Rightarrow> ('st, 'rx) stream_handler \<Rightarrow> ('st, 'rx) RpcServer \<Rightarrow> ('st, 'rx) RpcServer" where
  "server_register_stream_fn m f s = s\<lparr>server_dispatcher := register_stream_fn m f (server_dispatcher s)\<rparr>"

definition server_register_struct ::
  "(('st, 'rx) Dispatcher \<Rightarrow> ('st, 'rx) Dispatcher) \<Rightarrow> ('st, 'rx) RpcServer \<Rightarrow> ('st, 'rx) RpcServer" where
  "server_register_struct st s = s\<lparr>server_dispatcher := register_struct st (server_dispatcher s)\<rparr>"

definition server_middleware :: "(string \<Rightarrow> 'st \<Rightarrow> 'st run) \<Rightarrow> ('st, 'rx) RpcServer \<Rightarrow> ('st, 'rx) RpcServer" where
  "server_middleware f s = s\<lparr>server_dispatcher := middleware f (server_dispatcher s)\<rparr>"

text \<open>
  \<^verbatim>\<open>Shutdown\<close>: its receiver is ready once a notice was sent or every sender is gone. The first wait
  consumes that, later ones return at once.
\<close>

record Shutdown =
  is_shutdown :: bool
  notify_ready :: bool

definition shutdown_new :: "bool \<Rightarrow> Shutdown" where
  "shutdown_new ready = \<lparr>is_shutdown = False, notify_ready = ready\<rparr>"

definition shutdown_recv :: "Shutdown \<Rightarrow> Shutdown run" where
  "shutdown_recv s = (if is_shutdown s then Done s else if notify_ready s then Done (s\<lparr>is_shutdown := True\<rparr>) else Hang)"

lemma shutdown_recv_again: "shutdown_recv s = Done s' \<Longrightarrow> is_shutdown s' \<and> shutdown_recv s' = Done s'"
  by (auto simp: shutdown_recv_def split: if_splits)

section \<open>The listener\<close>

definition MAX_CONNECTIONS :: nat where
  "MAX_CONNECTIONS = 1000"

text \<open>\<^verbatim>\<open>Listener::accept\<close> on the results of \<^verbatim>\<open>TcpListener::accept\<close>, with the seconds it slept; \<open>None\<close> while it waits.\<close>

fun accept :: "nat \<Rightarrow> 'a res list \<Rightarrow> ('a res \<times> nat list) option" where
  "accept backoff [] = None"
| "accept backoff (Inr socket # rs) = Some (Inr socket, [])"
| "accept backoff (Inl err # rs) =
     (if 64 < backoff then Some (Inl err, [])
      else map_option (\<lambda>(r, sleeps). (r, backoff # sleeps)) (accept (backoff * 2) rs))"

text \<open>
  \<^verbatim>\<open>RpcServer::run\<close> and \<^verbatim>\<open>Listener::run\<close>: the permits left, whether the loop holds one, the handlers that
  wait for a request or for shutdown and those inside a stream, and the phase of the server.
\<close>

datatype phase = Accepting | Stopping | Returned

record listener =
  available :: nat
  holding :: bool
  idle :: nat
  streaming :: nat
  phase :: phase

definition listener_start :: listener where
  "listener_start = \<lparr>available = MAX_CONNECTIONS, holding = False, idle = 0, streaming = 0, phase = Accepting\<rparr>"

inductive listener_step :: "listener \<Rightarrow> listener \<Rightarrow> bool" where
  acquire: "phase l = Accepting \<Longrightarrow> \<not> holding l \<Longrightarrow> 0 < available l
    \<Longrightarrow> listener_step l (l\<lparr>available := available l - 1, holding := True\<rparr>)"
| accepted: "phase l = Accepting \<Longrightarrow> holding l \<Longrightarrow> accept 1 (rs :: unit res list) = Some (Inr (), sleeps)
    \<Longrightarrow> listener_step l (l\<lparr>holding := False, idle := idle l + 1\<rparr>)"
| failed: "phase l = Accepting \<Longrightarrow> holding l \<Longrightarrow> accept 1 (rs :: unit res list) = Some (Inl err, sleeps)
    \<Longrightarrow> listener_step l (l\<lparr>available := available l + 1, holding := False, phase := Stopping\<rparr>)"
| stream_starts: "0 < idle l \<Longrightarrow> listener_step l (l\<lparr>idle := idle l - 1, streaming := streaming l + 1\<rparr>)"
| stream_ends: "0 < streaming l \<Longrightarrow> listener_step l (l\<lparr>streaming := streaming l - 1, idle := idle l + 1\<rparr>)"
| handler_ends: "0 < idle l \<Longrightarrow> listener_step l (l\<lparr>idle := idle l - 1, available := available l + 1\<rparr>)"
| stream_breaks: "0 < streaming l \<Longrightarrow> listener_step l (l\<lparr>streaming := streaming l - 1, available := available l + 1\<rparr>)"
| returned: "phase l = Stopping \<Longrightarrow> idle l = 0 \<Longrightarrow> streaming l = 0 \<Longrightarrow> listener_step l (l\<lparr>phase := Returned\<rparr>)"

inductive listener_reachable :: "listener \<Rightarrow> bool" where
  start: "listener_reachable listener_start"
| step: "listener_reachable l \<Longrightarrow> listener_step l l' \<Longrightarrow> listener_reachable l'"

section \<open>Lemmas\<close>

text \<open>What the requests of one connection are answered with, one after the other.\<close>

fun answers_of :: "('st, 'rx) Dispatcher \<Rightarrow> string list \<Rightarrow> 'st \<Rightarrow> (string list \<times> 'st) option" where
  "answers_of d [] st = Some ([], st)"
| "answers_of d (line # lines) st =
     (case handle_line d line st of
        Done (Line res, st) \<Rightarrow> map_option (\<lambda>(as, st). (res # as, st)) (answers_of d lines st)
      | _ \<Rightarrow> None)"

lemma session_answers:
  "answers_of d lines st = Some (as, st') \<Longrightarrow> (\<And>n. w n) \<Longrightarrow>
     session d src w (map Incoming lines @ evs) out st = session d src w evs (out @ as) st'"
proof (induction lines arbitrary: out st as)
  case (Cons line lines)
  then obtain res st1 as1 where "handle_line d line st = Done (Line res, st1)" "answers_of d lines st1 = Some (as1, st')" "as = res # as1"
    by (auto split: run.splits reply.splits)
  then show ?case using Cons.IH [of st1 as1 "out @ [res]"] Cons.prems(2) by simp
qed simp

lemma answers_of_length: "answers_of d lines st = Some (as, st') \<Longrightarrow> length as = length lines"
  by (induction lines arbitrary: st as) (auto split: run.splits reply.splits)

text \<open>A server's answers reach the client's callers in order.\<close>

lemma accept_within:
  assumes "length rs = n + 1" "b * 2 ^ n = 128"
  shows "\<exists>r sleeps. accept b (rs @ rest) = Some (r, sleeps) \<and> sum_list sleeps + b \<le> 128 \<and> (isl r \<longleftrightarrow> list_all isl rs)"
  using assms
proof (induction n arbitrary: b rs)
  case 0
  then obtain x where "rs = [x]" by (auto simp: length_Suc_conv)
  then show ?case using 0 by (cases x) auto
next
  case (Suc n)
  then obtain x xs where rs: "rs = x # xs" "length xs = n + 1" by (auto simp: length_Suc_conv)
  have p: "64 = b * 2 ^ n" using Suc.prems(2) by simp
  have b: "b \<le> 64" unfolding p by simp
  show ?case
  proof (cases x)
    case (Inr y)
    then show ?thesis using rs b by simp
  next
    case (Inl err)
    obtain r sleeps where "accept (b * 2) (xs @ rest) = Some (r, sleeps)" "sum_list sleeps + b * 2 \<le> 128" "isl r \<longleftrightarrow> list_all isl xs"
      using Suc.IH [of xs "b * 2"] Suc.prems(2) rs(2) by (auto simp: mult.assoc)
    then show ?thesis using Inl rs b by auto
  qed
qed

definition permits_kept :: "listener \<Rightarrow> bool" where
  "permits_kept l \<longleftrightarrow> available l + idle l + streaming l + (if holding l then 1 else 0) = MAX_CONNECTIONS
     \<and> (phase l \<noteq> Accepting \<longrightarrow> \<not> holding l) \<and> (phase l = Returned \<longrightarrow> idle l = 0 \<and> streaming l = 0)"

lemma listener_step_permits: "listener_step l l' \<Longrightarrow> permits_kept l \<Longrightarrow> permits_kept l'"
  by (induction rule: listener_step.induct) (auto simp: permits_kept_def)

lemma listener_permits: "listener_reachable l \<Longrightarrow> permits_kept l"
proof (induction rule: listener_reachable.induct)
  case start
  show ?case by (simp add: listener_start_def permits_kept_def)
qed (rule listener_step_permits)

section \<open>Properties\<close>

text \<open>
  C12. Calls and answers are matched end to end. Requests that the client's task sends over one
  connection are answered by the server's handler one line each, in order; and however the network
  cuts the answers into pieces, the caller of each request receives the server's answer to that
  request. The lines the handler gets are those the framing codec makes of the payloads.
\<close>

theorem calls_answered_in_order:
  fixes decode :: "string \<Rightarrow> string"
  assumes codec: "\<And>line. newline \<notin> set line \<Longrightarrow> line = [] \<or> last line \<noteq> CHR 0x0D \<Longrightarrow> decode (line @ [newline]) = line"
    and reqs: "\<forall>l \<in> set lines. newline \<notin> set l \<and> last (CHR ''x'' # l) \<noteq> CHR 0x0D"
    and srv: "answers_of d lines st = Some (outs, st')"
    and net: "list_all2 fragments groups outs" "reads s = map Inr (concat groups) @ rs" "length lines \<le> writes_left s" "sent s = []"
    and cl: "length chs = length lines" "conn io = Some s" "delivered io = []"
  shows "\<exists>io' s'. io_loop ds (map2 Call (map (\<lambda>l. l @ [newline]) lines) chs) io = Done io' \<and> conn io' = Some s'
    \<and> session d src (\<lambda>_. True) (map Incoming (map decode (sent s'))) [] st = Done (Open, outs, st')
    \<and> delivered io' = map2 (\<lambda>ch out. Answer ch (Inr out)) chs outs"
proof -
  let ?ps = "map (\<lambda>l. l @ [newline]) lines"
  have n: "length groups = length lines" "length outs = length lines"
    using list_all2_lengthD [OF net(1)] answers_of_length [OF srv] by simp_all
  obtain io' where io: "io_loop ds (map2 Call ?ps chs) io = Done io'"
      "delivered io' = map2 (\<lambda>ch l. Answer ch (Inr l)) chs outs"
      "conn io' = Some (s\<lparr>reads := rs, writes_left := writes_left s - length groups, sent := ?ps\<rparr>)"
    using io_loop_calls [OF net(1,2), of ?ps chs io ds] net(3,4) cl n by auto
  have "decode (l @ [newline]) = l" if "l \<in> set lines" for l
    using codec [of l] reqs that by (cases l) auto
  then have dec: "map decode ?ps = lines" by (simp add: map_idI)
  have "session d src (\<lambda>_. True) (map Incoming lines) [] st = Done (Open, outs, st')"
    using session_answers [OF srv, of "\<lambda>_. True" src "[]" "[]"] by simp
  then have "session d src (\<lambda>_. True) (map Incoming (map decode ?ps)) [] st = Done (Open, outs, st')"
    by (simp only: dec)
  moreover have "sent (s\<lparr>reads := rs, writes_left := writes_left s - length groups, sent := ?ps\<rparr>) = ?ps" by simp
  ultimately show ?thesis using io by (intro exI conjI) (assumption | simp only:)+
qed

definition strip_line :: "string \<Rightarrow> string" where
  "strip_line s = (let l = butlast s in if l \<noteq> [] \<and> last l = CHR 0x0D then butlast l else l)"

definition echo_server :: "(nat, unit) Dispatcher" where
  "echo_server = register_fn ''echo'' (\<lambda>req n. Done (Inr req, n + 1)) dispatcher_new"

theorem calls_answered_in_order_witness:
  "\<exists>io. io_loop [] [Call (''echo a'' @ [newline]) 7, Call (''echo b'' @ [newline]) 8]
       (io_start\<lparr>conn := Some (demo_socket [''a'', [newline], ''b'' @ [newline]])\<rparr>) = Done io
     \<and> delivered io = [Answer 7 (Inr ''a''), Answer 8 (Inr ''b'')]"
proof -
  let ?s = "demo_socket [''a'', [newline], ''b'' @ [newline]]"
  have law: "strip_line (line @ [newline]) = line" if "newline \<notin> set line" "line = [] \<or> last line \<noteq> CHR 0x0D" for line
    using that by (auto simp: strip_line_def Let_def)
  have ans: "answers_of echo_server [''echo a'', ''echo b''] 0 = Some ([''a'', ''b''], 2)" by code_simp
  have "list_all2 fragments [[''a'', [newline]], [''b'' @ [newline]]] [''a'', ''b'']" "reads ?s = map Inr (concat [[''a'', [newline]], [''b'' @ [newline]]]) @ []"
    "length [''echo a'', ''echo b''] \<le> writes_left ?s" "sent ?s = []"
    by (simp_all add: fragments_def demo_socket_def)
  from calls_answered_in_order [OF law _ ans this, of "[7, 8]" "io_start\<lparr>conn := Some ?s\<rparr>" "[]" "\<lambda>_. ([], True)"]
  show ?thesis by (auto simp: io_start_def)
qed

text \<open>
  C31. Accepting gives up. Whatever the operating system answers, \<^verbatim>\<open>accept\<close> returns after at most eight
  attempts and at most 127 seconds of sleep, with an error exactly when all eight attempts failed.
\<close>

theorem accept_gives_up:
  assumes "length rs = 8"
  shows "\<exists>r sleeps. accept 1 (rs @ rest) = Some (r, sleeps) \<and> sum_list sleeps \<le> 127 \<and> (isl r \<longleftrightarrow> list_all isl rs)"
  using accept_within [of rs 7 1 rest] assms by (auto simp: numeral_eq_Suc)

theorem accept_gives_up_witness:
  "\<exists>r sleeps. accept 1 (replicate 8 (Inl ''EMFILE'') @ [Inr ()]) = Some (r, sleeps) \<and> sum_list sleeps \<le> 127 \<and> isl r"
  using accept_gives_up [of "replicate 8 (Inl ''EMFILE'')" "[Inr ()]"] by (auto simp: list_all_iff)



end
