(* ===== verification/Service.thy ===== *)
theory Service
  imports Raft_Types Datastore Pubsub Dispatcher
begin

text \<open>
  The service of \<^verbatim>\<open>efis/src/efis.rs\<close>: the handlers of all commands over the store and the
  publish-subscribe registry, the application of committed commands and the answers to the
  clients that wait for them, and the methods the dispatcher offers.

  Every handler reads the clock at most once; the reading is part of the environment \<open>env\<close>, together
  with what the language leaves open (the iteration order of a hash set, the double-precision
  arithmetic of the processor, the unstable sorts) and the text of the error a crashed worker
  task is reported with. The names of the definitions are those of the methods; the methods with
  a leading underscore are the ones that do the work, here with the suffix \<open>_impl\<close>.
\<close>

section \<open>Environment and state\<close>

type_synonym f64 = "64 word"

record env =
  clock :: nat
  relock :: bool
  set_iter :: "string set \<Rightarrow> string list"
  parse_f64 :: "string \<Rightarrow> f64 option"
  f64_inc :: "f64 \<Rightarrow> f64"
  f64_dec :: "f64 \<Rightarrow> f64"
  show_f64 :: "f64 \<Rightarrow> string"
  f32s :: f32_ops
  f32_text_of :: f32_text
  sel_of :: "nat \<Rightarrow> (nat \<times> f32) list \<Rightarrow> (nat \<times> f32) list"
  srt_of :: "(nat \<times> f32) list \<Rightarrow> (nat \<times> f32) list"
  join_error :: string

text \<open>A waiting client is the number of its one-shot channel.\<close>

record 'c Efis =
  store :: Datastore
  pubsub :: "'c PubSub"
  cons :: bool
  subs :: "nat \<rightharpoonup> nat"

type_synonym ('c, 'a) outcome = "((RpcError + 'a) \<times> 'c Efis) run"

definition efis_new :: "DatastoreGuard \<Rightarrow> 'c PubSub \<Rightarrow> bool \<Rightarrow> 'c Efis" where
  "efis_new g ps c = \<lparr>store = guard_store g, pubsub = ps, cons = c, subs = Map.empty\<rparr>"

definition ok_res :: OkRes where
  "ok_res = \<lparr>status = ''ok''\<rparr>"

text \<open>The tail every handler ends with: an error is wrapped, success is \<open>x\<close>.\<close>

definition finish :: "'c Efis \<Rightarrow> 'b res \<Rightarrow> ('b \<Rightarrow> 'a) \<Rightarrow> ('c, 'a) outcome" where
  "finish st r f = Done (map_sum Internal f r, st)"

definition get_value :: "env \<Rightarrow> string \<Rightarrow> 'c Efis \<Rightarrow> (Value option \<times> 'c Efis) run" where
  "get_value e key st = run_map (\<lambda>(v, ds). (v, st\<lparr>store := ds\<rparr>)) (ds_get (relock e) (clock e) key (store st))"

definition modify_value ::
  "string \<Rightarrow> (Value \<Rightarrow> 'b \<Rightarrow> (unit res \<times> Value \<times> 'b) run) \<Rightarrow> 'b \<Rightarrow> 'c Efis \<Rightarrow> (unit res \<times> 'b \<times> 'c Efis) run" where
  "modify_value key f c st = run_map (\<lambda>(r, c', ds). (r, c', st\<lparr>store := ds\<rparr>)) (ds_modify key f c (store st))"

definition set_value_of :: "env \<Rightarrow> string \<Rightarrow> Value \<Rightarrow> nat option \<Rightarrow> 'c Efis \<Rightarrow> (unit res \<times> 'c Efis) run" where
  "set_value_of e key v d st = run_map (\<lambda>(r, ds). (r, st\<lparr>store := ds\<rparr>)) (ds_set (clock e) key v d (store st))"

section \<open>Text values\<close>

definition set_impl :: "env \<Rightarrow> SetReq \<Rightarrow> 'c Efis \<Rightarrow> ('c, OkRes) outcome" where
  "set_impl e req st =
     run_bind (set_value_of e (set_key req) (Text (set_value req)) (map_option from_secs (set_exp req)) st)
       (\<lambda>(r, st). finish st r (\<lambda>_. ok_res))"

definition get_text :: "string \<Rightarrow> Value option \<Rightarrow> string res" where
  "get_text missing v = (case v of None \<Rightarrow> Inl missing | Some (Text t) \<Rightarrow> Inr t | Some _ \<Rightarrow> Inl ''invalid type'')"

definition get :: "env \<Rightarrow> GetReq \<Rightarrow> 'c Efis \<Rightarrow> ('c, GetRes) outcome" where
  "get e req st =
     run_bind (get_value e (get_key req) st) (\<lambda>(v, st).
       finish st (get_text (''key not found: '' @ get_key req) v) (\<lambda>t. \<lparr>res_val = t\<rparr>))"

definition delete_impl :: "GetReq \<Rightarrow> 'c Efis \<Rightarrow> ('c, OkRes) outcome" where
  "delete_impl req st =
     (let (r, ds) = ds_remove (get_key req) (store st)
      in finish (st\<lparr>store := ds\<rparr>) (map_sum (\<lambda>_. ''key not found: '' @ get_key req) id r) (\<lambda>_. ok_res))"

text \<open>The closures of \<^verbatim>\<open>_increment\<close> and \<^verbatim>\<open>_decrement\<close>; text that is not a number is left alone.\<close>

definition bump :: "env \<Rightarrow> (f64 \<Rightarrow> f64) \<Rightarrow> Value \<Rightarrow> unit \<Rightarrow> (unit res \<times> Value \<times> unit) run" where
  "bump e f v c =
     Done (Inr (),
       (case v of
          Text t \<Rightarrow> (case parse_f64 e t of Some n \<Rightarrow> Text (show_f64 e (f n)) | None \<Rightarrow> v)
        | _ \<Rightarrow> v), c)"

definition increment_impl :: "env \<Rightarrow> GetReq \<Rightarrow> 'c Efis \<Rightarrow> ('c, GetRes) outcome" where
  "increment_impl e req st =
     run_bind (modify_value (get_key req) (bump e (f64_inc e)) () st) (\<lambda>(r, _, st).
       case r of
         Inl err \<Rightarrow> Done (Inl (Internal err), st)
       | Inr _ \<Rightarrow>
           run_bind (get_value e (get_key req) st) (\<lambda>(v, st).
             finish st (get_text ''key not found'' v) (\<lambda>t. \<lparr>res_val = t\<rparr>)))"

definition decrement_impl :: "env \<Rightarrow> GetReq \<Rightarrow> 'c Efis \<Rightarrow> ('c, GetRes) outcome" where
  "decrement_impl e req st =
     run_bind (modify_value (get_key req) (bump e (f64_dec e)) () st) (\<lambda>(r, _, st).
       case r of
         Inl err \<Rightarrow> Done (Inl (Internal err), st)
       | Inr _ \<Rightarrow>
           run_bind (get_value e (get_key req) st) (\<lambda>(v, st).
             finish st (get_text ''key not found'' v) (\<lambda>t. \<lparr>res_val = t\<rparr>)))"

definition expire_impl :: "env \<Rightarrow> ExpireReq \<Rightarrow> 'c Efis \<Rightarrow> ('c, OkRes) outcome" where
  "expire_impl e req st =
     run_bind (ds_expire (clock e) (exp_key req) (from_secs (exp_duration req)) (store st)) (\<lambda>(r, ds).
       finish (st\<lparr>store := ds\<rparr>) r (\<lambda>_. ok_res))"

definition ttl :: "env \<Rightarrow> GetReq \<Rightarrow> 'c Efis \<Rightarrow> ('c, TtlRes) outcome" where
  "ttl e req st =
     run_bind (ds_ttl (relock e) (clock e) (get_key req) (store st)) (\<lambda>(r, ds).
       finish (st\<lparr>store := ds\<rparr>) r (\<lambda>d. \<lparr>res_ttl = (case d of Some n \<Rightarrow> show_nat (n div nanos) | None \<Rightarrow> ''-1'')\<rparr>))"

section \<open>Lists\<close>

text \<open>\<^verbatim>\<open>if let Value::List(list_data) = list\<close>: other values are left alone.\<close>

definition on_list :: "(string list \<Rightarrow> string list) \<Rightarrow> Value \<Rightarrow> Value" where
  "on_list f v = (case v of List xs \<Rightarrow> List (f xs) | _ \<Rightarrow> v)"

fun push_fronts :: "string list \<Rightarrow> string list \<Rightarrow> string list" where
  "push_fronts [] xs = xs"
| "push_fronts (v # vs) xs = push_fronts vs (v # xs)"

definition then_modify :: "env \<Rightarrow> string \<Rightarrow> Value \<Rightarrow> (Value \<Rightarrow> Value) \<Rightarrow> 'c Efis \<Rightarrow> ('c, OkRes) outcome" where
  "then_modify e key fresh f st =
     run_bind (set_value_of e key fresh None st) (\<lambda>(r, st).
       case r of
         Inl err \<Rightarrow> Done (Inl (Internal err), st)
       | Inr _ \<Rightarrow>
           run_bind (modify_value key (\<lambda>v c. Done (Inr (), f v, c)) () st) (\<lambda>(r, _, st).
             finish st r (\<lambda>_. ok_res)))"

definition lpush_impl :: "env \<Rightarrow> ListReq \<Rightarrow> 'c Efis \<Rightarrow> ('c, OkRes) outcome" where
  "lpush_impl e req st = then_modify e (list_key req) (List []) (on_list (push_fronts (list_values req))) st"

definition rpush_impl :: "env \<Rightarrow> ListReq \<Rightarrow> 'c Efis \<Rightarrow> ('c, OkRes) outcome" where
  "rpush_impl e req st = then_modify e (list_key req) (List []) (on_list (\<lambda>xs. xs @ list_values req)) st"

text \<open>The captured variable \<^verbatim>\<open>res\<close> starts as the error and becomes the popped value.\<close>

definition pop_with :: "(string list \<Rightarrow> (string \<times> string list) option) \<Rightarrow> GetReq \<Rightarrow> 'c Efis \<Rightarrow> ('c, GetRes) outcome" where
  "pop_with pop req st =
     run_bind (modify_value (get_key req)
        (\<lambda>v c. Done (case v of
             List xs \<Rightarrow> (case pop xs of Some (x, xs') \<Rightarrow> (Inr (), List xs', Inr x) | None \<Rightarrow> (Inr (), v, c))
           | _ \<Rightarrow> (Inr (), v, c)))
        (Inl ''failed to pop value'') st) (\<lambda>(r, res, st).
       case r of
         Inl err \<Rightarrow> Done (Inl (Internal err), st)
       | Inr _ \<Rightarrow> finish st res (\<lambda>t. \<lparr>res_val = t\<rparr>))"

definition pop_front :: "'a list \<Rightarrow> ('a \<times> 'a list) option" where
  "pop_front xs = (case xs of [] \<Rightarrow> None | y # ys \<Rightarrow> Some (y, ys))"

definition pop_back :: "'a list \<Rightarrow> ('a \<times> 'a list) option" where
  "pop_back xs = (if xs = [] then None else Some (last xs, butlast xs))"

definition lpop_impl :: "GetReq \<Rightarrow> 'c Efis \<Rightarrow> ('c, GetRes) outcome" where
  "lpop_impl req st = pop_with pop_front req st"

definition rpop_impl :: "GetReq \<Rightarrow> 'c Efis \<Rightarrow> ('c, GetRes) outcome" where
  "rpop_impl req st = pop_with pop_back req st"

section \<open>Sets\<close>

definition sadd_impl :: "env \<Rightarrow> ListReq \<Rightarrow> 'c Efis \<Rightarrow> ('c, OkRes) outcome" where
  "sadd_impl e req st = then_modify e (list_key req) (Value.Set {})
     (\<lambda>v. case v of Value.Set s \<Rightarrow> Value.Set (s \<union> set (list_values req)) | _ \<Rightarrow> v) st"

text \<open>\<^verbatim>\<open>Debug\<close> of a string on code points below U+0100, and of a set in iteration order.\<close>

definition hex_digit :: "nat \<Rightarrow> char" where
  "hex_digit d = (if d < 10 then char_of (48 + d) else char_of (87 + d))"

definition show_hex :: "nat \<Rightarrow> string" where
  "show_hex n = (if n < 16 then [hex_digit n] else [hex_digit (n div 16), hex_digit (n mod 16)])"

definition escape_debug :: "char \<Rightarrow> string" where
  "escape_debug c =
     (let n = (of_char c :: nat) in
      if n = 0 then [backslash, CHR ''0'']
      else if n = 9 then [backslash, CHR ''t'']
      else if n = 13 then [backslash, CHR ''r'']
      else if n = 10 then [backslash, CHR ''n'']
      else if c = backslash \<or> c = dquote then [backslash, c]
      else if n < 32 \<or> (127 \<le> n \<and> n \<le> 160) \<or> n = 173 then [backslash, CHR ''u'', CHR ''{''] @ show_hex n @ ''}''
      else [c])"

definition debug_str :: "string \<Rightarrow> string" where
  "debug_str s = [dquote] @ concat (map escape_debug s) @ [dquote]"

definition debug_set :: "string list \<Rightarrow> string" where
  "debug_set xs = ''{'' @ join '', '' (map debug_str xs) @ ''}''"

definition smembers :: "env \<Rightarrow> GetReq \<Rightarrow> 'c Efis \<Rightarrow> ('c, GetRes) outcome" where
  "smembers e req st =
     run_bind (get_value e (get_key req) st) (\<lambda>(v, st).
       finish st (case v of
           None \<Rightarrow> Inl ''key not found''
         | Some (Value.Set s) \<Rightarrow> Inr (debug_set (set_iter e s))
         | Some _ \<Rightarrow> Inl ''invalid type: expected set'') (\<lambda>t. \<lparr>res_val = t\<rparr>))"

section \<open>Sorted sets\<close>

definition zadd_impl :: "env \<Rightarrow> MapReq \<Rightarrow> 'c Efis \<Rightarrow> ('c, OkRes) outcome" where
  "zadd_impl e req st = then_modify e (map_key req) (SortedSet [])
     (\<lambda>v. case v of SortedSet m \<Rightarrow> SortedSet (btree_insert (map_score req) (map_value req) m) | _ \<Rightarrow> v) st"

text \<open>The range of the answer is taken only when \<open>end \<le> start\<close>; taking it panics unless they are equal and in range.\<close>

definition zrange :: "env \<Rightarrow> MapRange \<Rightarrow> 'c Efis \<Rightarrow> ('c, ListRes) outcome" where
  "zrange e req st =
     run_bind (get_value e (range_key req) st) (\<lambda>(v, st).
       run_bind (case v of
           None \<Rightarrow> Done (Inl ''key not found'')
         | Some (SortedSet m) \<Rightarrow>
             if range_start req < range_end req then Done (Inr [])
             else run_map Inr (slice_range (map snd m) (range_start req) (range_end req))
         | Some _ \<Rightarrow> Done (Inl ''invalid type: expected SortedMap''))
       (\<lambda>r. finish st r (\<lambda>vs. \<lparr>res_vals = vs\<rparr>)))"

section \<open>Publishing\<close>

definition publish_impl :: "('c, 'r) broadcast_ops \<Rightarrow> PubReq \<Rightarrow> 'c Efis \<Rightarrow> ('c, OkRes) outcome" where
  "publish_impl bc req st =
     (let (sent, ps) = ps_publish bc (pub_chan req) (pub_value req) (pubsub st); st = st\<lparr>pubsub := ps\<rparr>
      in if sent = 0 \<and> \<not> cons st then Done (Inl (Internal ''failed to publish''), st)
         else Done (Inr ok_res, st))"

text \<open>The receiver of the channel; a task forwards what it receives to the client.\<close>

definition subscribe :: "('c, 'r) broadcast_ops \<Rightarrow> SubReq \<Rightarrow> 'c Efis \<Rightarrow> ('c, 'r) outcome" where
  "subscribe bc req st =
     (let (rx, ps) = ps_subscribe bc (sub_chan req) (pubsub st) in Done (Inr rx, st\<lparr>pubsub := ps\<rparr>))"

section \<open>Vectors\<close>

definition vset_impl :: "env \<Rightarrow> VSetReq \<Rightarrow> 'c Efis \<Rightarrow> ('c, OkRes) outcome" where
  "vset_impl e req st =
     run_bind (get_value e (vset_key req) st) (\<lambda>(v, st).
       run_bind (if v = None then
            run_bind (index_at (vset_vecs req) 0) (\<lambda>r.
              set_value_of e (vset_key req) (Vector (flat_new (length (vec_vec r)))) None st)
          else Done (Inr (), st)) (\<lambda>(r, st).
         case r of
           Inl err \<Rightarrow> Done (Inl (Internal err), st)
         | Inr _ \<Rightarrow>
             run_bind (modify_value (vset_key req)
                (\<lambda>v c. case v of
                   Vector ix \<Rightarrow>
                     run_map (\<lambda>iy. (Inr (), Vector iy, c))
                       (batch_insert flat_insert (map (\<lambda>r. (vec_id r, vec_vec r)) (vset_vecs req)) ix)
                 | _ \<Rightarrow> Done (Inr (), v, c)) () st) (\<lambda>(r, _, st).
               finish st r (\<lambda>_. ok_res))))"

definition vdel_impl :: "VDelReq \<Rightarrow> 'c Efis \<Rightarrow> ('c, OkRes) outcome" where
  "vdel_impl req st =
     (let (r, ds) = ds_remove (vdel_key req) (store st)
      in finish (st\<lparr>store := ds\<rparr>) (map_sum (\<lambda>_. ''key not found: '' @ vdel_key req) id r) (\<lambda>_. ok_res))"

text \<open>The search runs in a blocking task: its panic is reported to the caller as an error.\<close>

definition vsearch :: "env \<Rightarrow> VSearchReq \<Rightarrow> 'c Efis \<Rightarrow> ('c, VSearchRes) outcome" where
  "vsearch e req st =
     run_bind (get_value e (vsearch_key req) st) (\<lambda>(v, st).
       case v of
         None \<Rightarrow> Done (Inl (Internal ''key not found''), st)
       | Some (Vector ix) \<Rightarrow>
           (case flat_search (f32s e) (sel_of e) (srt_of e) (vsearch_query req) (vsearch_k req) Cosine ix of
              Done ds \<Rightarrow> Done (Inr \<lparr>res_ids = map fst ds\<rparr>, st)
            | Panic \<Rightarrow> Done (Inl (Internal (join_error e)), st)
            | Hang \<Rightarrow> Hang)
       | Some _ \<Rightarrow> Done (Inl (Internal ''invalid type: expected vector''), st))"

section \<open>Committed commands\<close>

datatype LateRes = LateOk OkRes | LateValue GetRes | LateErr string

definition late_ok :: "RpcError + OkRes \<Rightarrow> LateRes" where
  "late_ok r = (case r of Inr v \<Rightarrow> LateOk v | Inl e \<Rightarrow> LateErr (rpc_error_display e))"

definition late_value :: "RpcError + GetRes \<Rightarrow> LateRes" where
  "late_value r = (case r of Inr v \<Rightarrow> LateValue v | Inl e \<Rightarrow> LateErr (rpc_error_display e))"

text \<open>The handler a command runs, with its result as the waiting client will see it.\<close>

fun apply_command :: "env \<Rightarrow> ('c, 'r) broadcast_ops \<Rightarrow> Command \<Rightarrow> 'c Efis \<Rightarrow> (LateRes option \<times> 'c Efis) run" where
  "apply_command e bc (Command.Set q) st = run_map (map_prod (Some \<circ> late_ok) id) (set_impl e q st)"
| "apply_command e bc (Delete q) st = run_map (map_prod (Some \<circ> late_ok) id) (delete_impl q st)"
| "apply_command e bc (Increment q) st = run_map (map_prod (Some \<circ> late_value) id) (increment_impl e q st)"
| "apply_command e bc (Decrement q) st = run_map (map_prod (Some \<circ> late_value) id) (decrement_impl e q st)"
| "apply_command e bc (Expire q) st = run_map (map_prod (Some \<circ> late_ok) id) (expire_impl e q st)"
| "apply_command e bc (Lpush q) st = run_map (map_prod (Some \<circ> late_ok) id) (lpush_impl e q st)"
| "apply_command e bc (Lpop q) st = run_map (map_prod (Some \<circ> late_value) id) (lpop_impl q st)"
| "apply_command e bc (Rpush q) st = run_map (map_prod (Some \<circ> late_ok) id) (rpush_impl e q st)"
| "apply_command e bc (Rpop q) st = run_map (map_prod (Some \<circ> late_value) id) (rpop_impl q st)"
| "apply_command e bc (Sadd q) st = run_map (map_prod (Some \<circ> late_ok) id) (sadd_impl e q st)"
| "apply_command e bc (Zadd q) st = run_map (map_prod (Some \<circ> late_ok) id) (zadd_impl e q st)"
| "apply_command e bc (Command.Publish q) st = run_map (map_prod (Some \<circ> late_ok) id) (publish_impl bc q st)"
| "apply_command e bc (VSet q) st = run_map (map_prod (Some \<circ> late_ok) id) (vset_impl e q st)"
| "apply_command e bc (VDel q) st = run_map (map_prod (Some \<circ> late_ok) id) (vdel_impl q st)"
| "apply_command e bc Unknown st = Done (None, st)"

text \<open>\<^verbatim>\<open>handle_commands!\<close>: the client waiting at the entry's index, if any, is answered and forgotten.\<close>

definition apply_commit ::
  "env \<Rightarrow> ('c, 'r) broadcast_ops \<Rightarrow> CommitEntry \<Rightarrow> 'c Efis \<Rightarrow> ((nat \<times> LateRes) option \<times> 'c Efis) run" where
  "apply_commit e bc entry st =
     run_bind (apply_command e bc (ce_command entry) st) (\<lambda>(res, st).
       Done (case res of
           None \<Rightarrow> (None, st)
         | Some lr \<Rightarrow>
             (case subs st (ce_index entry) of
                Some ch \<Rightarrow> (Some (ch, lr), st\<lparr>subs := (subs st)(ce_index entry := None)\<rparr>)
              | None \<Rightarrow> (None, st))))"

text \<open>The loop of \<^verbatim>\<open>process_cmd\<close> over the entries it receives; the answers it sent, in order.\<close>

fun process_cmds ::
  "(nat \<Rightarrow> env) \<Rightarrow> ('c, 'r) broadcast_ops \<Rightarrow> nat \<Rightarrow> CommitEntry list \<Rightarrow> 'c Efis \<Rightarrow> ((nat \<times> LateRes) list \<times> 'c Efis) run" where
  "process_cmds ev bc n [] st = Done ([], st)"
| "process_cmds ev bc n (entry # es) st =
     run_bind (apply_commit (ev n) bc entry st) (\<lambda>(ans, st).
       run_map (map_prod (\<lambda>as. case ans of None \<Rightarrow> as | Some a \<Rightarrow> a # as) id) (process_cmds ev bc (Suc n) es st))"

section \<open>Waiting for a command\<close>

datatype wait = Received LateRes | SenderDropped | TimedOut

text \<open>
  \<^verbatim>\<open>handle_consensus\<close>, in its two parts: \<open>register_waiter\<close> runs once \<^verbatim>\<open>submit\<close> returned an index, and
  \<open>await_reply\<close> is what comes of the channel within five seconds.
\<close>

definition register_waiter :: "nat \<Rightarrow> nat \<Rightarrow> 'c Efis \<Rightarrow> 'c Efis" where
  "register_waiter index ch st = st\<lparr>subs := (subs st)(index \<mapsto> ch)\<rparr>"

fun await_reply :: "wait \<Rightarrow> LateRes" where
  "await_reply (Received lr) = lr"
| "await_reply SenderDropped = LateErr ''broadcast recv error''"
| "await_reply TimedOut = LateErr ''request timed out''"

text \<open>\<open>submitted\<close> is the result of \<^verbatim>\<open>submit\<close>; \<open>ch\<close> the channel made for this call.\<close>

definition handle_consensus :: "nat option \<Rightarrow> nat \<Rightarrow> wait \<Rightarrow> 'c Efis \<Rightarrow> LateRes \<times> 'c Efis" where
  "handle_consensus submitted ch w st =
     (case submitted of
        Some index \<Rightarrow> (await_reply w, register_waiter index ch st)
      | None \<Rightarrow> (LateErr ''consensus failed'', st))"

record submission =
  sub_index :: "nat option"
  sub_channel :: nat
  sub_wait :: wait

text \<open>The methods that go through consensus when there is one, by the kind of their answer.\<close>

definition replicate_ok :: "submission \<Rightarrow> ('c Efis \<Rightarrow> ('c, OkRes) outcome) \<Rightarrow> 'c Efis \<Rightarrow> ('c, OkRes) outcome" where
  "replicate_ok su impl st =
     (if cons st then
        (let (lr, st) = handle_consensus (sub_index su) (sub_channel su) (sub_wait su) st
         in Done (case lr of LateOk v \<Rightarrow> Inr v | LateErr err \<Rightarrow> Inl (Internal err)
                  | LateValue _ \<Rightarrow> Inl (Internal ''internal error''), st))
      else impl st)"

definition replicate_value :: "submission \<Rightarrow> ('c Efis \<Rightarrow> ('c, GetRes) outcome) \<Rightarrow> 'c Efis \<Rightarrow> ('c, GetRes) outcome" where
  "replicate_value su impl st =
     (if cons st then
        (let (lr, st) = handle_consensus (sub_index su) (sub_channel su) (sub_wait su) st
         in Done (case lr of LateValue v \<Rightarrow> Inr v | LateErr err \<Rightarrow> Inl (Internal err)
                  | LateOk _ \<Rightarrow> Inl (Internal ''internal error''), st))
      else impl st)"

text \<open>The writing methods: submitted as a command when there is a consensus module, run at once when not.\<close>

definition set_rpc :: "env \<Rightarrow> (Command \<Rightarrow> submission) \<Rightarrow> SetReq \<Rightarrow> 'c Efis \<Rightarrow> ('c, OkRes) outcome" where
  "set_rpc e su q st = replicate_ok (su (Command.Set q)) (set_impl e q) st"

definition delete_rpc :: "(Command \<Rightarrow> submission) \<Rightarrow> GetReq \<Rightarrow> 'c Efis \<Rightarrow> ('c, OkRes) outcome" where
  "delete_rpc su q st = replicate_ok (su (Delete q)) (delete_impl q) st"

definition increment_rpc :: "env \<Rightarrow> (Command \<Rightarrow> submission) \<Rightarrow> GetReq \<Rightarrow> 'c Efis \<Rightarrow> ('c, GetRes) outcome" where
  "increment_rpc e su q st = replicate_value (su (Increment q)) (increment_impl e q) st"

definition decrement_rpc :: "env \<Rightarrow> (Command \<Rightarrow> submission) \<Rightarrow> GetReq \<Rightarrow> 'c Efis \<Rightarrow> ('c, GetRes) outcome" where
  "decrement_rpc e su q st = replicate_value (su (Decrement q)) (decrement_impl e q) st"

definition expire_rpc :: "env \<Rightarrow> (Command \<Rightarrow> submission) \<Rightarrow> ExpireReq \<Rightarrow> 'c Efis \<Rightarrow> ('c, OkRes) outcome" where
  "expire_rpc e su q st = replicate_ok (su (Expire q)) (expire_impl e q) st"

definition lpush_rpc :: "env \<Rightarrow> (Command \<Rightarrow> submission) \<Rightarrow> ListReq \<Rightarrow> 'c Efis \<Rightarrow> ('c, OkRes) outcome" where
  "lpush_rpc e su q st = replicate_ok (su (Lpush q)) (lpush_impl e q) st"

definition rpush_rpc :: "env \<Rightarrow> (Command \<Rightarrow> submission) \<Rightarrow> ListReq \<Rightarrow> 'c Efis \<Rightarrow> ('c, OkRes) outcome" where
  "rpush_rpc e su q st = replicate_ok (su (Rpush q)) (rpush_impl e q) st"

definition lpop_rpc :: "(Command \<Rightarrow> submission) \<Rightarrow> GetReq \<Rightarrow> 'c Efis \<Rightarrow> ('c, GetRes) outcome" where
  "lpop_rpc su q st = replicate_value (su (Lpop q)) (lpop_impl q) st"

definition rpop_rpc :: "(Command \<Rightarrow> submission) \<Rightarrow> GetReq \<Rightarrow> 'c Efis \<Rightarrow> ('c, GetRes) outcome" where
  "rpop_rpc su q st = replicate_value (su (Rpop q)) (rpop_impl q) st"

definition sadd_rpc :: "env \<Rightarrow> (Command \<Rightarrow> submission) \<Rightarrow> ListReq \<Rightarrow> 'c Efis \<Rightarrow> ('c, OkRes) outcome" where
  "sadd_rpc e su q st = replicate_ok (su (Sadd q)) (sadd_impl e q) st"

definition zadd_rpc :: "env \<Rightarrow> (Command \<Rightarrow> submission) \<Rightarrow> MapReq \<Rightarrow> 'c Efis \<Rightarrow> ('c, OkRes) outcome" where
  "zadd_rpc e su q st = replicate_ok (su (Zadd q)) (zadd_impl e q) st"

definition publish_rpc :: "('c, 'r) broadcast_ops \<Rightarrow> (Command \<Rightarrow> submission) \<Rightarrow> PubReq \<Rightarrow> 'c Efis \<Rightarrow> ('c, OkRes) outcome" where
  "publish_rpc bc su q st = replicate_ok (su (Command.Publish q)) (publish_impl bc q) st"

definition vset_rpc :: "env \<Rightarrow> (Command \<Rightarrow> submission) \<Rightarrow> VSetReq \<Rightarrow> 'c Efis \<Rightarrow> ('c, OkRes) outcome" where
  "vset_rpc e su q st = replicate_ok (su (VSet q)) (vset_impl e q) st"

definition vdel_rpc :: "(Command \<Rightarrow> submission) \<Rightarrow> VDelReq \<Rightarrow> 'c Efis \<Rightarrow> ('c, OkRes) outcome" where
  "vdel_rpc su q st = replicate_ok (su (VDel q)) (vdel_impl q) st"

section \<open>The methods of the service\<close>

text \<open>\<^verbatim>\<open>ConsensusHandle::leader_id\<close> and \<^verbatim>\<open>node_id\<close> on the two cells \<^verbatim>\<open>LEADER_ID\<close> and \<^verbatim>\<open>NODE_ID\<close>, which \<^verbatim>\<open>Consensus::new\<close> sets.\<close>

definition handle_leader_id :: "string option option \<Rightarrow> string option" where
  "handle_leader_id cell = (case cell of None \<Rightarrow> None | Some v \<Rightarrow> v)"

definition handle_node_id :: "string option \<Rightarrow> string" where
  "handle_node_id cell = (case cell of None \<Rightarrow> [] | Some s \<Rightarrow> s)"

text \<open>\<^verbatim>\<open>ConsensusHandle::is_leader\<close>; without a consensus module there is no leader and no node name.\<close>

definition is_leader :: "string option \<Rightarrow> string \<Rightarrow> bool" where
  "is_leader leader node \<longleftrightarrow> leader = Some node"

text \<open>
  \<^verbatim>\<open>register_fns\<close>, as \<^verbatim>\<open>rpc_impl\<close> generates it: each method with its reader and printer, the writing ones
  behind the leader check.
\<close>

definition method_table ::
  "env \<Rightarrow> ('c, 'r) broadcast_ops \<Rightarrow> string option \<Rightarrow> string \<Rightarrow> (Command \<Rightarrow> submission) \<Rightarrow> (string \<times> 'c Efis handler) list" where
  "method_table e bc leader node su =
     (let led = requires_leader (is_leader leader node) leader; ft = f32_text_of e in
      [(''set'', led (rpc_func de_SetReq ser_OkRes (set_rpc e su))),
       (''get'', rpc_func de_GetReq ser_GetRes (get e)),
       (''delete'', led (rpc_func de_GetReq ser_OkRes (delete_rpc su))),
       (''increment'', led (rpc_func de_GetReq ser_GetRes (increment_rpc e su))),
       (''decrement'', led (rpc_func de_GetReq ser_GetRes (decrement_rpc e su))),
       (''expire'', led (rpc_func de_ExpireReq ser_OkRes (expire_rpc e su))),
       (''ttl'', rpc_func de_GetReq ser_TtlRes (ttl e)),
       (''lpush'', led (rpc_func de_ListReq ser_OkRes (lpush_rpc e su))),
       (''rpush'', led (rpc_func de_ListReq ser_OkRes (rpush_rpc e su))),
       (''lpop'', led (rpc_func de_GetReq ser_GetRes (lpop_rpc su))),
       (''rpop'', led (rpc_func de_GetReq ser_GetRes (rpop_rpc su))),
       (''sadd'', led (rpc_func de_ListReq ser_OkRes (sadd_rpc e su))),
       (''smembers'', rpc_func de_GetReq ser_GetRes (smembers e)),
       (''zadd'', led (rpc_func de_MapReq ser_OkRes (zadd_rpc e su))),
       (''zrange'', rpc_func de_MapRange ser_ListRes (zrange e)),
       (''publish'', led (rpc_func de_PubReq ser_OkRes (publish_rpc bc su))),
       (''vset'', led (rpc_func (de_VSetReq ft) ser_OkRes (vset_rpc e su))),
       (''vdel'', led (rpc_func de_VDelReq ser_OkRes (vdel_rpc su))),
       (''vsearch'', rpc_func (de_VSearchReq ft) ser_VSearchRes (vsearch e))])"

definition efis_dispatcher ::
  "env \<Rightarrow> ('c, 'r) broadcast_ops \<Rightarrow> string option \<Rightarrow> string \<Rightarrow> (Command \<Rightarrow> submission) \<Rightarrow> ('c Efis, 'r) Dispatcher" where
  "efis_dispatcher e bc leader node su =
     register_stream_fn ''subscribe''
       (\<lambda>req st. run_bind (de_SubReq req) (\<lambda>r. case r of
          Inl err \<Rightarrow> Done (Inl (Deserialize err), st) | Inr q \<Rightarrow> subscribe bc q st))
       (fold (\<lambda>(m, f). register_fn m f) (method_table e bc leader node su) dispatcher_new)"

section \<open>Lemmas\<close>

lemma no_consensus_no_leader: "\<not> is_leader (handle_leader_id None) (handle_node_id cell)"
  by (simp add: is_leader_def handle_leader_id_def)

lemmas service_simps = get_value_def modify_value_def set_value_of_def finish_def ok_res_def Let_def

text \<open>A push, an addition to a set or to a sorted set: the value that was there before plays no role.\<close>

lemma then_modify_eq:
  "then_modify e key fresh f st = Done (Inr ok_res,
     st\<lparr>store := (store st)\<lparr>data := (data (store st))(key \<mapsto> \<lparr>item_value = f fresh, item_expiry = None\<rparr>)\<rparr>\<rparr>)"
  by (simp add: then_modify_def service_simps)

lemma push_fronts_rev: "push_fronts vs xs = rev vs @ xs"
  by (induction vs xs rule: push_fronts.induct) auto

text \<open>No handler touches the waiting clients or the mode the service runs in.\<close>

definition keeps :: "'c Efis \<Rightarrow> ('a \<times> 'c Efis) run \<Rightarrow> bool" where
  "keeps st m \<longleftrightarrow> (\<forall>r st'. m = Done (r, st') \<longrightarrow> subs st' = subs st \<and> cons st' = cons st)"

lemma keeps_bind: "keeps st m \<Longrightarrow> (\<And>r st'. keeps st' (f (r, st'))) \<Longrightarrow> keeps st (run_bind m f)"
  by (cases m) (auto simp: keeps_def split: prod.splits)

lemma keeps_modify: "(\<And>r c st'. keeps st' (f (r, c, st'))) \<Longrightarrow> keeps st (run_bind (modify_value key g c0 st) f)"
  by (cases "ds_modify key g c0 (store st)") (auto simp: keeps_def modify_value_def run_map_def)

lemma keeps_basic [simp]:
  "keeps st (get_value e key st)" "keeps st (set_value_of e key v d st)" "keeps st (finish st y f)"
  "keeps st (Done (x, st))" "keeps st (finish (st\<lparr>store := ds\<rparr>) y f)" "keeps st Panic" "keeps st Hang"
  by (auto simp: keeps_def get_value_def set_value_of_def finish_def run_simps)

lemma keeps_handlers:
  "keeps st (set_impl e q1 st)" "keeps st (delete_impl q2 st)" "keeps st (increment_impl e q2 st)"
  "keeps st (decrement_impl e q2 st)" "keeps st (lpush_impl e q4 st)" "keeps st (rpush_impl e q4 st)"
  "keeps st (lpop_impl q2 st)" "keeps st (rpop_impl q2 st)" "keeps st (sadd_impl e q4 st)"
  "keeps st (zadd_impl e q5 st)" "keeps st (vdel_impl q8 st)"
  unfolding set_impl_def delete_impl_def increment_impl_def decrement_impl_def lpush_impl_def rpush_impl_def
    lpop_impl_def rpop_impl_def pop_with_def sadd_impl_def zadd_impl_def vdel_impl_def then_modify_def
  by (auto intro!: keeps_bind keeps_modify split: sum.split prod.split)

lemma keeps_handlers':
  "keeps st (expire_impl e q3 st)" "keeps st (publish_impl bc q6 st)" "keeps st (vset_impl e q7 st)"
proof -
  show "keeps st (expire_impl e q3 st)"
    by (auto simp: keeps_def expire_impl_def finish_def run_simps)
  show "keeps st (publish_impl bc q6 st)"
    by (auto simp: keeps_def publish_impl_def Let_def split: prod.splits if_splits)
  show "keeps st (vset_impl e q7 st)"
    unfolding vset_impl_def
    by (auto intro!: keeps_bind keeps_modify split: sum.split prod.split if_split simp: index_at_def)
qed

lemma keeps_Done: "keeps st m \<Longrightarrow> m = Done (r, st') \<Longrightarrow> subs st' = subs st \<and> cons st' = cons st"
  by (simp add: keeps_def)

lemma keeps_map: "keeps st m \<Longrightarrow> keeps st (run_map (map_prod f id) m)"
  by (cases m) (auto simp: keeps_def run_map_def)

lemma keeps_apply_command: "keeps st (apply_command e bc c st)"
  by (cases c) (simp_all add: keeps_map keeps_handlers keeps_handlers')

lemma apply_command_answer: "apply_command e bc c st = Done (r, st') \<Longrightarrow> r = None \<longleftrightarrow> c = Unknown"
  by (cases c) (auto simp: run_simps)

lemma map_of_methods: "rpcs (fold (\<lambda>(m, f). register_fn m f) fs d) = rpcs d ++ map_of (rev fs)"
  by (induction fs arbitrary: d) (auto simp: register_fn_def map_add_def fun_eq_iff split: option.splits)

lemma fold_register_other:
  "streams (fold (\<lambda>(m, f). register_fn m f) fs d) = streams d \<and> middlewares (fold (\<lambda>(m, f). register_fn m f) fs d) = middlewares d"
  by (induction fs arbitrary: d) (auto simp: register_fn_def)

lemma efis_dispatcher_parts:
  "rpcs (efis_dispatcher e bc leader node su) = map_of (method_table e bc leader node su)"
  "middlewares (efis_dispatcher e bc leader node su) = []"
proof -
  have "distinct (map fst (method_table e bc leader node su))"
    by (simp add: method_table_def Let_def)
  then have "map_of (rev (method_table e bc leader node su)) = map_of (method_table e bc leader node su)"
    by (subst map_of_inject_set) (simp_all add: rev_map [symmetric])
  then show "rpcs (efis_dispatcher e bc leader node su) = map_of (method_table e bc leader node su)"
    by (simp add: efis_dispatcher_def register_stream_fn_def map_of_methods dispatcher_new_def)
  show "middlewares (efis_dispatcher e bc leader node su) = []"
    by (simp add: efis_dispatcher_def register_stream_fn_def fold_register_other dispatcher_new_def)
qed

definition method_names :: "string list" where
  "method_names = [''set'', ''get'', ''delete'', ''increment'', ''decrement'', ''expire'', ''ttl'', ''lpush'', ''rpush'', ''lpop'',
     ''rpop'', ''sadd'', ''smembers'', ''zadd'', ''zrange'', ''publish'', ''vset'', ''vdel'', ''vsearch'']"

definition write_methods :: "string list" where
  "write_methods = [''set'', ''delete'', ''increment'', ''decrement'', ''expire'', ''lpush'', ''rpush'', ''lpop'', ''rpop'',
     ''sadd'', ''zadd'', ''publish'', ''vset'', ''vdel'']"

lemma method_names_ok: "\<forall>m \<in> set method_names. CHR '' '' \<notin> set m \<and> trimmed m"
  by (simp add: method_names_def trimmed_def is_whitespace_def)

lemma write_methods_sub: "m \<in> set write_methods \<Longrightarrow> m \<in> set method_names"
  by (auto simp: write_methods_def method_names_def)

text \<open>A request line for a method runs that method's handler on the payload.\<close>

lemma efis_dispatch:
  assumes "m \<in> set method_names"
  shows "dispatch_rpc (efis_dispatcher e bc leader node su) (m @ '' '' @ p) st =
    (case map_of (method_table e bc leader node su) m of
       None \<Rightarrow> Done (Inl (MethodNotFound m), st) | Some f \<Rightarrow> f p st)"
  using method_names_ok assms by (subst dispatch_rpc_parts) (auto simp: efis_dispatcher_parts)

lemma handle_line_ok:
  "dispatch_rpc d line st = Done (Inr res, st') \<Longrightarrow> handle_line d line st = Done (Line res, st')"
  by (simp add: handle_line_def)

text \<open>The state after one key was bound, for ever, to a value.\<close>

definition stored :: "'c Efis \<Rightarrow> string \<Rightarrow> Value \<Rightarrow> 'c Efis" where
  "stored st key v = st\<lparr>store := (store st)\<lparr>data := (data (store st))(key \<mapsto> \<lparr>item_value = v, item_expiry = None\<rparr>)\<rparr>\<rparr>"

text \<open>Popping \<open>k\<close> times from the left.\<close>

fun lpops :: "nat \<Rightarrow> string \<Rightarrow> 'c Efis \<Rightarrow> (string list \<times> 'c Efis) run" where
  "lpops 0 key st = Done ([], st)"
| "lpops (Suc k) key st =
     run_bind (lpop_impl \<lparr>get_key = key\<rparr> st) (\<lambda>(r, st).
       case r of Inl _ \<Rightarrow> Panic | Inr v \<Rightarrow> run_map (map_prod ((#) (res_val v)) id) (lpops k key st))"

lemma lpop_stored:
  "lpop_impl \<lparr>get_key = key\<rparr> (stored st key (List (x # xs))) = Done (Inr \<lparr>res_val = x\<rparr>, stored st key (List xs))"
  by (simp add: lpop_impl_def pop_with_def pop_front_def stored_def modify_value_def ds_modify_def finish_def)

lemma lpop_empty:
  "lpop_impl \<lparr>get_key = key\<rparr> (stored st key (List [])) = Done (Inl (Internal ''failed to pop value''), stored st key (List []))"
  by (simp add: lpop_impl_def pop_with_def pop_front_def stored_def modify_value_def ds_modify_def finish_def)

lemma lpops_stored: "lpops (length xs) key (stored st key (List (xs @ ys))) = Done (xs, stored st key (List ys))"
  by (induction xs) (simp_all add: lpop_stored)

text \<open>What one committed entry, and a sequence of them, do to the clients that wait.\<close>

lemma apply_commit_subs:
  assumes "apply_commit e bc entry st = Done (ans, st')" "ce_command entry \<noteq> Unknown"
  shows "subs st' = (subs st)(ce_index entry := None)
    \<and> map_option fst ans = subs st (ce_index entry)"
proof -
  from assms(1) obtain res st1 where a: "apply_command e bc (ce_command entry) st = Done (res, st1)"
    by (auto simp: apply_commit_def run_simps)
  then have "subs st1 = subs st" using keeps_Done [OF keeps_apply_command] by blast
  moreover obtain lr where "res = Some lr" using apply_command_answer [OF a] assms(2) by auto
  ultimately show ?thesis
    using a assms(1) by (auto simp: apply_commit_def split: option.splits)
qed

lemma map_filter_eq: "\<forall>x \<in> set xs. f x = g x \<Longrightarrow> List.map_filter f xs = List.map_filter g xs"
  by (induction xs) (auto simp: List.map_filter_simps split: option.split)

lemma process_cmds_subs:
  assumes "process_cmds ev bc n es st = Done (ans, st')" "\<forall>x \<in> set es. ce_command x \<noteq> Unknown" "distinct (map ce_index es)"
  shows "map fst ans = List.map_filter (\<lambda>x. subs st (ce_index x)) es
    \<and> subs st' = (\<lambda>i. if i \<in> ce_index ` set es then None else subs st i)"
  using assms
proof (induction es arbitrary: n st ans)
  case (Cons x es)
  from Cons.prems(1) obtain a st1 as where x: "apply_commit (ev n) bc x st = Done (a, st1)"
    and r: "process_cmds ev bc (Suc n) es st1 = Done (as, st')" and ans: "ans = (case a of None \<Rightarrow> as | Some b \<Rightarrow> b # as)"
    by (auto simp: run_simps)
  have s: "subs st1 = (subs st)(ce_index x := None)" "subs st (ce_index x) = map_option fst a"
    using apply_commit_subs [OF x] Cons.prems(2) by simp_all
  have ih: "map fst as = List.map_filter (\<lambda>y. subs st1 (ce_index y)) es"
    "subs st' = (\<lambda>i. if i \<in> ce_index ` set es then None else subs st1 i)"
    using Cons.IH [OF r] Cons.prems(2,3) by auto
  have "List.map_filter (\<lambda>y. subs st1 (ce_index y)) es = List.map_filter (\<lambda>y. subs st (ce_index y)) es"
    using Cons.prems(3) s(1) by (intro map_filter_eq) (force simp: image_iff)
  then show ?case
    using ih s ans by (auto simp: List.map_filter_simps fun_eq_iff split: option.splits)
qed (simp add: List.map_filter_simps)

text \<open>The vectors of a request as a map: the last row of an identifier wins.\<close>

definition rows_of :: "VecReq list \<Rightarrow> nat \<rightharpoonup> f32 list" where
  "rows_of rs = map_of (rev (map (\<lambda>r. (vec_id r, vec_vec r)) rs))"

lemma vset_fresh:
  assumes "data (store st) (vset_key q) = None" "vset_vecs q \<noteq> []" "\<forall>r \<in> set (vset_vecs q). length (vec_vec r) = w"
  shows "\<exists>ix. vset_impl e q st = Done (Inr ok_res, stored st (vset_key q) (Vector ix))
    \<and> flat_inv ix \<and> dim ix = w \<and> flat_abs ix = rows_of (vset_vecs q)"
proof -
  let ?rs = "map (\<lambda>r. (vec_id r, vec_vec r)) (vset_vecs q)"
  have w: "length (vec_vec (vset_vecs q ! 0)) = w" using assms(2,3) by (cases "vset_vecs q") auto
  obtain ix where ix: "batch_insert flat_insert ?rs (flat_new w) = Done ix" "flat_inv ix" "dim ix = dim (flat_new w)"
    "flat_abs ix = flat_abs (flat_new w) ++ map_of (rev (filter (\<lambda>r. length (snd r) = dim (flat_new w)) ?rs))"
    using flat.batch_insert_ok [OF flat_inv_new] by blast
  have "filter (\<lambda>r. length (snd r) = dim (flat_new w)) ?rs = ?rs"
    using assms(3) by (auto simp: filter_id_conv flat_new_def)
  then have "flat_abs ix = rows_of (vset_vecs q)" "dim ix = w"
    using ix by (simp_all add: rows_of_def) (simp add: flat_new_def)
  moreover have "vset_impl e q st = Done (Inr ok_res, stored st (vset_key q) (Vector ix))"
    using assms(1,2) w ix(1) by (simp add: vset_impl_def get_value_def ds_get_def index_at_def set_value_of_def
        modify_value_def finish_def stored_def)
  ultimately show ?thesis using ix(2) by blast
qed

text \<open>The specification of a ranking: \<open>is\<close> are \<open>k\<close> of the identifiers in \<open>A\<close> with the least keys, least first.\<close>

definition nearest :: "(nat \<Rightarrow> int) \<Rightarrow> nat \<Rightarrow> nat set \<Rightarrow> nat list \<Rightarrow> bool" where
  "nearest key k A is \<longleftrightarrow> length is = min k (card A) \<and> distinct is \<and> set is \<subseteq> A \<and> sorted (map key is)
     \<and> (\<forall>i \<in> set is. \<forall>j \<in> A - set is. key i \<le> key j)"

lemma flat_search_ids:
  assumes "unstable_sorting sel srt" "flat_shape ix" "0 < dim ix" "ids ix \<noteq> []" "0 < k" "no_nan (distances fo df query ix)"
  shows "\<exists>r. flat_search fo sel srt query k df ix = Done r
    \<and> nearest (\<lambda>i. f32_key (dist_fn fo df (the (flat_abs ix i)) query)) k (dom (flat_abs ix)) (map fst r)"
proof -
  let ?d = "\<lambda>v. dist_fn fo df v query"
  obtain r where r: "flat_search fo sel srt query k df ix = Done r"
    "length r = min k (length (ids ix))" "sorted (map dist_key r)" "distinct (map fst r)"
    "\<forall>(i, d) \<in> set r. \<exists>v. flat_abs ix i = Some v \<and> d = ?d v"
    "\<forall>i v. flat_abs ix i = Some v \<and> i \<notin> fst ` set r \<longrightarrow> (\<forall>x \<in> set r. dist_key x \<le> f32_key (?d v))"
    using flat_search_top_k [OF assms] by blast
  have card: "card (dom (flat_abs ix)) = length (ids ix)"
    using assms(2) by (simp add: dom_flat_abs flat_shape_def distinct_card)
  have key: "dist_key x = f32_key (?d (the (flat_abs ix (fst x))))" if "x \<in> set r" for x
    using r(5) that by (auto simp: dist_key_def)
  have "sorted (map (\<lambda>i. f32_key (?d (the (flat_abs ix i)))) (map fst r))"
    using r(3) key by (simp add: comp_def cong: map_cong)
  moreover have "f32_key (?d (the (flat_abs ix i))) \<le> f32_key (?d (the (flat_abs ix j)))"
    if "i \<in> set (map fst r)" "j \<in> dom (flat_abs ix) - set (map fst r)" for i j
  proof -
    from that obtain x v where "x \<in> set r" "i = fst x" "flat_abs ix j = Some v" "j \<notin> fst ` set r" by auto
    then show ?thesis using r(6) key [of x] by fastforce
  qed
  moreover have "set (map fst r) \<subseteq> dom (flat_abs ix)" using r(5) by (auto simp: dom_def)
  ultimately show ?thesis
    using r(1,2,4) card by (intro exI [of _ r]) (simp add: nearest_def)
qed

text \<open>A small environment and state for concrete runs.\<close>

definition demo_env :: env where
  "demo_env = \<lparr>clock = 5, relock = False, set_iter = (\<lambda>s. []), parse_f64 = (\<lambda>s. None), f64_inc = id, f64_dec = id,
     show_f64 = (\<lambda>x. []), f32s = demo_ops, f32_text_of = bits_text, sel_of = ref_select, srt_of = ref_sort,
     join_error = ''task panicked''\<rparr>"

definition demo_su :: "Command \<Rightarrow> submission" where
  "demo_su cmd = \<lparr>sub_index = None, sub_channel = 0, sub_wait = TimedOut\<rparr>"

definition demo_efis :: "ref_chan Efis" where
  "demo_efis = \<lparr>store = ds_new, pubsub = ps_new, cons = False, subs = Map.empty\<rparr>"

section \<open>Properties\<close>



text \<open>
  C39. Without a consensus module no node is ever the leader, so every writing method is refused:
  whatever the payload, the request line is answered with the error that redirects to \<^verbatim>\<open>unknown\<close> and
  the state is unchanged.
\<close>

theorem standalone_refuses_writes:
  assumes "m \<in> set write_methods"
  shows "handle_line (efis_dispatcher e bc None node su) (m @ '' '' @ p) st
    = Done (Line (ser_ErrorRes ''not leader, redirect to unknown''), st)"
proof -
  obtain f where "map_of (method_table e bc None node su) m = Some (requires_leader False None f)"
    using assms by (auto simp: write_methods_def method_table_def Let_def is_leader_def)
  then show ?thesis
    using efis_dispatch [OF write_methods_sub [OF assms], of e bc None node su p st]
    by (simp add: handle_line_def requires_leader_def)
qed

theorem standalone_refuses_writes_witness:
  "handle_line (efis_dispatcher demo_env ref_broadcast None ''n1'' demo_su) (''delete'' @ '' '' @ ''{key=k}'') demo_efis
    = Done (Line (ser_ErrorRes ''not leader, redirect to unknown''), demo_efis)"
  by (rule standalone_refuses_writes) (simp add: write_methods_def)

text \<open>
  Pushing replaces: after \<^verbatim>\<open>lpush\<close>, \<^verbatim>\<open>rpush\<close>, \<^verbatim>\<open>sadd\<close> or \<^verbatim>\<open>zadd\<close> the key holds only what this request
  brought, without expiry, whatever list, set or other value it held before; no other key
  changes. Nothing accumulates under a key.
\<close>

lemma push_replaces:
  "lpush_impl e l st = Done (Inr ok_res, stored st (list_key l) (List (rev (list_values l))))
   \<and> rpush_impl e l st = Done (Inr ok_res, stored st (list_key l) (List (list_values l)))
   \<and> sadd_impl e l st = Done (Inr ok_res, stored st (list_key l) (Value.Set (set (list_values l))))
   \<and> zadd_impl e z st = Done (Inr ok_res, stored st (map_key z) (SortedSet [(map_score z, map_value z)]))"
  by (simp add: lpush_impl_def rpush_impl_def sadd_impl_def zadd_impl_def then_modify_eq on_list_def push_fronts_rev stored_def)

text \<open>
  \<^verbatim>\<open>zrange\<close> never returns a member: on a sorted set, every range is answered with the empty list
  when it is non-empty, panics when its end lies before its start or beyond the set, and is
  answered with the empty list otherwise.
\<close>

lemma zrange_never_returns_members:
  assumes "data (store st) (range_key q) = Some \<lparr>item_value = SortedSet m, item_expiry = None\<rparr>"
  shows "zrange e q st =
    (if range_start q < range_end q \<or> range_start q = range_end q \<and> range_end q \<le> length m
     then Done (Inr \<lparr>res_vals = []\<rparr>, st) else Panic)"
  using assms by (auto simp: zrange_def get_value_def ds_get_def finish_def slice_range_def)


text \<open>
  C25. Committed commands answer the clients that wait for them: applying a sequence of entries with
  distinct indices (and no \<^verbatim>\<open>Unknown\<close> command among them) answers, in the order of the entries,
  exactly the clients registered at their indices, each once, and forgets exactly those clients.
\<close>

theorem commits_answer_waiters:
  assumes "process_cmds ev bc n es st = Done (ans, st')" "\<forall>x \<in> set es. ce_command x \<noteq> Unknown" "distinct (map ce_index es)"
  shows "map fst ans = List.map_filter (\<lambda>x. subs st (ce_index x)) es
    \<and> subs st' = (\<lambda>i. if i \<in> ce_index ` set es then None else subs st i)"
  using assms by (rule process_cmds_subs)

definition demo_commits :: "CommitEntry list" where
  "demo_commits = [\<lparr>ce_command = Delete \<lparr>get_key = ''a''\<rparr>, ce_term = 1, ce_index = 4\<rparr>,
                   \<lparr>ce_command = Lpop \<lparr>get_key = ''b''\<rparr>, ce_term = 1, ce_index = 5\<rparr>]"

theorem commits_answer_waiters_witness:
  "\<exists>ans st'. process_cmds (\<lambda>_. demo_env) ref_broadcast 0 demo_commits (register_waiter 5 77 demo_efis) = Done (ans, st')
     \<and> map fst ans = [77] \<and> subs st' = Map.empty"
proof -
  obtain ans st' where r: "process_cmds (\<lambda>_. demo_env) ref_broadcast 0 demo_commits (register_waiter 5 77 demo_efis) = Done (ans, st')"
    by (simp add: demo_commits_def apply_commit_def delete_impl_def lpop_impl_def pop_with_def register_waiter_def
        demo_efis_def ds_remove_def ds_new_def finish_def modify_value_def ds_modify_def)
  from commits_answer_waiters [OF r] show ?thesis
    using r by (auto simp: demo_commits_def register_waiter_def demo_efis_def List.map_filter_simps fun_eq_iff)
qed

text \<open>
  C24. Storing vectors under a fresh key and searching them: when all rows of the request have the
  same positive width and no similarity is NaN, \<^verbatim>\<open>vset\<close> succeeds and every later \<^verbatim>\<open>vsearch\<close> with a positive
  \<open>k\<close> answers the identifiers of the \<open>k\<close> most similar rows, most similar first: distinct, all of them
  stored, as many as there are up to \<open>k\<close>, and no identifier left out is more similar than one
  returned.
\<close>

theorem vset_then_vsearch:
  assumes "unstable_sorting (sel_of e') (srt_of e')" "data (store st) (vset_key q) = None" "vset_vecs q \<noteq> []"
    and "\<forall>r \<in> set (vset_vecs q). length (vec_vec r) = w" "0 < w" "0 < k"
    and "\<forall>r \<in> set (vset_vecs q). \<not> f32_is_nan (cosine_sim (f32s e') (vec_vec r) query)"
  shows "\<exists>st1 is. vset_impl e q st = Done (Inr ok_res, st1)
    \<and> vsearch e' \<lparr>vsearch_key = vset_key q, vsearch_query = query, vsearch_k = k\<rparr> st1 = Done (Inr \<lparr>res_ids = is\<rparr>, st1)
    \<and> nearest (\<lambda>i. f32_key (cosine_sim (f32s e') (the (rows_of (vset_vecs q) i)) query)) k (dom (rows_of (vset_vecs q))) is"
proof -
  let ?M = "rows_of (vset_vecs q)"
  obtain ix where ix: "vset_impl e q st = Done (Inr ok_res, stored st (vset_key q) (Vector ix))" "flat_inv ix" "dim ix = w"
    "flat_abs ix = ?M"
    using vset_fresh [OF assms(2-4)] by blast
  have shape: "flat_shape ix" "0 < dim ix" using ix assms(5) by (simp_all add: flat_inv_def)
  have "v \<in> vec_vec ` set (vset_vecs q)" if "?M i = Some v" for i v
    using map_of_SomeD [OF that [unfolded rows_of_def]] by auto
  then have nn: "no_nan (distances (f32s e') Cosine query ix)"
    using assms(7) distances_abs [OF shape] ix(4) by (fastforce simp: no_nan_def dist_fn_def list_all_iff)
  have "vec_id (hd (vset_vecs q)) \<in> dom (flat_abs ix)"
    using assms(3) ix(4) by (simp add: rows_of_def dom_map_of_conv_image_fst image_image)
  then have ne: "ids ix \<noteq> []" by (auto simp: dom_flat_abs)
  obtain r where r: "flat_search (f32s e') (sel_of e') (srt_of e') query k Cosine ix = Done r"
    "nearest (\<lambda>i. f32_key (cosine_sim (f32s e') (the (?M i)) query)) k (dom ?M) (map fst r)"
    using flat_search_ids [OF assms(1) shape ne assms(6) nn] ix(4) by (auto simp: dist_fn_def)
  then have "vsearch e' \<lparr>vsearch_key = vset_key q, vsearch_query = query, vsearch_k = k\<rparr> (stored st (vset_key q) (Vector ix))
      = Done (Inr \<lparr>res_ids = map fst r\<rparr>, stored st (vset_key q) (Vector ix))"
    by (simp add: vsearch_def get_value_def ds_get_def stored_def)
  then show ?thesis using ix(1) r(2) by blast
qed

definition demo_vset :: VSetReq where
  "demo_vset = \<lparr>vset_key = ''v'', vset_vecs = [\<lparr>vec_id = 7, vec_vec = [1]\<rparr>, \<lparr>vec_id = 9, vec_vec = [2]\<rparr>]\<rparr>"

theorem vset_then_vsearch_witness:
  "\<exists>st1 is. vset_impl demo_env demo_vset demo_efis = Done (Inr ok_res, st1)
    \<and> vsearch demo_env \<lparr>vsearch_key = ''v'', vsearch_query = [1], vsearch_k = 5\<rparr> st1 = Done (Inr \<lparr>res_ids = is\<rparr>, st1)
    \<and> set is = {7, 9}"
proof -
  have nan: "\<not> f32_is_nan (cosine_sim demo_ops [1] [1])" "\<not> f32_is_nan (cosine_sim demo_ops [2] [1])"
    by code_simp+
  have "data (store demo_efis) (vset_key demo_vset) = None" "vset_vecs demo_vset \<noteq> []"
    "\<forall>r \<in> set (vset_vecs demo_vset). length (vec_vec r) = 1"
    by (simp_all add: demo_efis_def demo_vset_def ds_new_def)
  from vset_then_vsearch [OF _ this, of demo_env 5 "[1]" demo_env] obtain st1 "is" where
    r: "vset_impl demo_env demo_vset demo_efis = Done (Inr ok_res, st1)"
    "vsearch demo_env \<lparr>vsearch_key = ''v'', vsearch_query = [1], vsearch_k = 5\<rparr> st1 = Done (Inr \<lparr>res_ids = is\<rparr>, st1)"
    "nearest (\<lambda>i. f32_key (cosine_sim demo_ops (the (rows_of (vset_vecs demo_vset) i)) [1])) 5 (dom (rows_of (vset_vecs demo_vset))) is"
    using std_sort.unstable_sorting_axioms nan by (auto simp: demo_env_def demo_vset_def)
  have "dom (rows_of (vset_vecs demo_vset)) = {7, 9}"
    by (auto simp: rows_of_def demo_vset_def split: if_splits)
  then have "set is \<subseteq> {7, 9}" "card (set is) = 2"
    using r(3) by (simp_all add: nearest_def distinct_card)
  then show ?thesis using r(1,2) card_subset_eq [of "{7, 9}" "set is"] by auto
qed

end
