(* ===== verification/Consensus_Node.thy ===== *)
theory Consensus_Node
  imports Raft_Types
begin

text \<open>
  The consensus actor of \<^verbatim>\<open>efis/src/consensus.rs\<close>: one node of the replicated log, as the state its
  task owns and one definition per method, composed the way the message loop composes them.

  The task owns its state, so every message is handled atomically. What the task shares with
  others is explicit: its bounded inbox, the remote calls it spawned, the answers it sent, the
  committed entries it broadcast, the published leader name, and the storage, whose operations
  are the record \<open>storage_ops\<close> (the trait \<^verbatim>\<open>Storage\<close>). Clock readings and random timeouts are arguments.
  A node that sends to its own full inbox waits for itself for ever (\<open>Hang\<close>).
\<close>

section \<open>Messages, calls and state\<close>

record 's storage_ops =
  st_store :: "PersistentState \<Rightarrow> 's \<Rightarrow> unit res \<times> 's"
  st_restore :: "'s \<Rightarrow> (PersistentState \<times> LogEntry list) res \<times> 's"
  st_append :: "LogEntry list \<Rightarrow> 's \<Rightarrow> unit res \<times> 's"

text \<open>A reply channel is a number.\<close>

datatype ConsensusMsg =
    StartElection nat
  | SendCommit
  | Submit Command
  | SendAES
  | RequestVoteMsg RequestVote nat
  | AppendEntryMsg AppendEntries nat
  | AppendEntryResult nat nat AppendEntriesReply
  | VoteResult nat bool

datatype call = CallVote nat RequestVote | CallAppend nat nat AppendEntries

datatype answer = AnswerVote nat "RequestVoteReply res" | AnswerAppend nat "AppendEntriesReply res"

record 's Consensus =
  node_id :: string
  peers :: "nat list"
  disk :: 's
  inbox :: "ConsensusMsg list"
  rx_closed :: bool
  commit_chan :: "CommitEntry list"
  current_term :: nat
  voted_for :: "string option"
  vote_count :: nat
  logs :: "LogEntry list"
  last_persisted_log :: nat
  log_index :: nat
  commit_index :: "nat option"
  last_applied :: "nat option"
  state :: State
  election_reset_event :: "nat option"
  next_index :: "nat \<rightharpoonup> nat"
  match_index :: "nat \<rightharpoonup> nat"
  election_handle :: "nat option"
  heartbeat_handle :: bool
  leader_id :: "string option"
  calls :: "call list"
  answers :: "answer list"

text \<open>What a handler reads from outside: the clock and the random generator.\<close>

record world =
  now :: nat
  timeout :: nat

definition INBOX_CAP :: nat where
  "INBOX_CAP = 1024"

text \<open>\<^verbatim>\<open>self.tx.send(..).await\<close> by the task that drains the inbox.\<close>

definition send_self :: "ConsensusMsg \<Rightarrow> 's Consensus \<Rightarrow> 's Consensus run" where
  "send_self m c =
     (if rx_closed c then Done c
      else if length (inbox c) < INBOX_CAP then Done (c\<lparr>inbox := inbox c @ [m]\<rparr>)
      else Hang)"

section \<open>Persistence\<close>

definition persist_state :: "'s storage_ops \<Rightarrow> 's Consensus \<Rightarrow> 's Consensus" where
  "persist_state so c =
     (let (_, d) = st_store so \<lparr>ps_current_term = current_term c, ps_voted_for = voted_for c,
            ps_last_applied = last_applied c\<rparr> (disk c);
          c = c\<lparr>disk := d\<rparr>
      in if logs c = [] then c
         else
           let last_log_idx = length (logs c) - 1;
               start_idx = (if last_persisted_log c = 0 then 0 else last_persisted_log c + 1)
           in if start_idx \<le> last_log_idx then
                (case st_append so (drop start_idx (logs c)) (disk c) of
                   (Inl _, d) \<Rightarrow> c\<lparr>disk := d\<rparr>
                 | (Inr _, d) \<Rightarrow> c\<lparr>disk := d, last_persisted_log := last_log_idx\<rparr>)
              else c)"

definition restore_state :: "'s storage_ops \<Rightarrow> 's Consensus \<Rightarrow> 's Consensus" where
  "restore_state so c =
     (case st_restore so (disk c) of
        (Inr (old, ls), d) \<Rightarrow>
          (let c = c\<lparr>disk := d, current_term := ps_current_term old, last_applied := ps_last_applied old,
                     log_index := length ls, logs := ls, voted_for := ps_voted_for old\<rparr>;
               c = (if voted_for c \<noteq> None \<and> ps_current_term old < current_term c then c\<lparr>voted_for := None\<rparr> else c);
               c = (if logs c \<noteq> [] then c\<lparr>last_persisted_log := length (logs c) - 1\<rparr> else c)
           in c\<lparr>state := Follower\<rparr>)
      | (Inl _, d) \<Rightarrow>
          c\<lparr>disk := d, current_term := 0, voted_for := None, last_applied := None, state := Follower\<rparr>)"

definition consensus_new :: "'s storage_ops \<Rightarrow> string \<Rightarrow> 's \<Rightarrow> 's Consensus" where
  "consensus_new so i d = restore_state so
     \<lparr>node_id = i, peers = [], disk = d, inbox = [], rx_closed = False, commit_chan = [], current_term = 0,
      voted_for = None, vote_count = 0, logs = [], last_persisted_log = 0, log_index = 0, commit_index = None,
      last_applied = None, state = Follower, election_reset_event = None, next_index = Map.empty,
      match_index = Map.empty, election_handle = None, heartbeat_handle = False, leader_id = None,
      calls = [], answers = []\<rparr>"

section \<open>Elections\<close>

text \<open>The last entry's position, or zeros; the command it carries is not used.\<close>

definition last_log :: "'s Consensus \<Rightarrow> CommitEntry" where
  "last_log c =
     (if logs c \<noteq> [] then
        \<lparr>ce_command = le_command (last (logs c)), ce_term = le_term (last (logs c)), ce_index = length (logs c) - 1\<rparr>
      else \<lparr>ce_command = Unknown, ce_term = 0, ce_index = 0\<rparr>)"

definition spawn_election_timer :: "world \<Rightarrow> 's Consensus \<Rightarrow> 's Consensus" where
  "spawn_election_timer w c = c\<lparr>election_handle := Some (timeout w)\<rparr>"

definition become_follower :: "'s storage_ops \<Rightarrow> world \<Rightarrow> nat \<Rightarrow> 's Consensus \<Rightarrow> 's Consensus" where
  "become_follower so w term c =
     spawn_election_timer w (persist_state so
       (c\<lparr>state := Follower, current_term := term, voted_for := None, leader_id := None,
          election_reset_event := Some (now w)\<rparr>))"

definition start_election :: "'s storage_ops \<Rightarrow> world \<Rightarrow> 's Consensus \<Rightarrow> 's Consensus" where
  "start_election so w c =
     (let c = persist_state so
            (c\<lparr>heartbeat_handle := False, state := Candidate, current_term := usize_add (current_term c) 1,
               election_reset_event := Some (now w), voted_for := Some (node_id c)\<rparr>);
          c = c\<lparr>vote_count := 1\<rparr>;
          req = \<lparr>rv_term = current_term c, rv_candidate_id = node_id c,
                 rv_last_log_index = ce_index (last_log c), rv_last_log_term = ce_term (last_log c)\<rparr>
      in c\<lparr>calls := calls c @ map (\<lambda>p. CallVote p req) (peers c)\<rparr>)"

text \<open>The start of \<^verbatim>\<open>start_leader\<close> up to the message it sends itself, and the heartbeat timer.\<close>

definition start_leader :: "'s Consensus \<Rightarrow> 's Consensus run" where
  "start_leader c =
     (let c = c\<lparr>election_handle := None, state := Leader, leader_id := Some (node_id c),
                next_index := (\<lambda>p. if p \<in> set (peers c) then Some (length (logs c)) else next_index c p),
                match_index := (\<lambda>p. if p \<in> set (peers c) then Some 0 else match_index c p)\<rparr>
      in run_map (\<lambda>c. c\<lparr>heartbeat_handle := True\<rparr>) (send_self SendAES c))"

definition request_vote :: "'s storage_ops \<Rightarrow> world \<Rightarrow> RequestVote \<Rightarrow> 's Consensus \<Rightarrow> RequestVoteReply res \<times> 's Consensus" where
  "request_vote so w req c =
     (if state c = Dead then (Inl ''node is dead'', c)
      else
        let last = last_log c;
            c = (if current_term c < rv_term req then become_follower so w (rv_term req) c else c);
            up_to_date = (ce_term last < rv_last_log_term req \<or>
               (rv_last_log_term req = ce_term last \<and> ce_index last \<le> rv_last_log_index req))
        in if rv_term req = current_term c
              \<and> (voted_for c = None \<or> voted_for c = Some (rv_candidate_id req)) \<and> up_to_date
           then (Inr \<lparr>rvr_term = current_term c, rvr_voted = True\<rparr>,
                 persist_state so (c\<lparr>voted_for := Some (rv_candidate_id req), election_reset_event := Some (now w)\<rparr>))
           else (Inr \<lparr>rvr_term = current_term c, rvr_voted = False\<rparr>, c))"

definition vote_result :: "'s storage_ops \<Rightarrow> world \<Rightarrow> nat \<Rightarrow> bool \<Rightarrow> 's Consensus \<Rightarrow> 's Consensus run" where
  "vote_result so w term voted c =
     (if state c \<noteq> Candidate then Done c
      else if term < current_term c then Done c
      else if current_term c < term then Done (become_follower so w term c)
      else if voted then
        let c = c\<lparr>vote_count := vote_count c + 1\<rparr>;
            quorum = (length (peers c) + 1) div 2 + 1
        in if quorum \<le> vote_count c then start_leader c else Done c
      else Done c)"

section \<open>Replication\<close>

text \<open>The first index of the run of entries with one term that ends at an index.\<close>

fun first_idx :: "LogEntry list \<Rightarrow> nat \<Rightarrow> nat \<Rightarrow> nat" where
  "first_idx ls t 0 = 0"
| "first_idx ls t (Suc i) = (if le_term (ls ! i) = t then first_idx ls t i else Suc i)"

text \<open>How many of the new entries are already there, by their terms.\<close>

fun match_len :: "LogEntry list \<Rightarrow> LogEntry list \<Rightarrow> nat" where
  "match_len (l # ls) (x # xs) = (if le_term l \<noteq> le_term x then 0 else Suc (match_len ls xs))"
| "match_len _ _ = 0"

definition prev_ok :: "AppendEntries \<Rightarrow> LogEntry list \<Rightarrow> bool" where
  "prev_ok req ls =
     (case (ae_prev_log_index req, ae_prev_log_term req) of
        (None, _) \<Rightarrow> True
      | (Some i, Some t) \<Rightarrow> i < length ls \<and> le_term (ls ! i) = t
      | _ \<Rightarrow> False)"

definition conflict_reply :: "nat \<Rightarrow> AppendEntries \<Rightarrow> LogEntry list \<Rightarrow> AppendEntriesReply" where
  "conflict_reply term req ls =
     (case ae_prev_log_index req of
        Some i \<Rightarrow>
          if length ls \<le> i then
            \<lparr>aer_term = term, aer_success = False, aer_conflict_index = Some (length ls), aer_conflict_term = None\<rparr>
          else
            \<lparr>aer_term = term, aer_success = False, aer_conflict_index = Some (first_idx ls (le_term (ls ! i)) i),
             aer_conflict_term = Some (le_term (ls ! i))\<rparr>
      | None \<Rightarrow> \<lparr>aer_term = term, aer_success = False, aer_conflict_index = Some 0, aer_conflict_term = None\<rparr>)"

text \<open>The log after the entries are merged in at \<open>insert_at\<close>; an overlap that agrees is not touched.\<close>

definition splice_entries :: "nat \<Rightarrow> LogEntry list \<Rightarrow> LogEntry list \<Rightarrow> LogEntry list" where
  "splice_entries insert_at es ls =
     (let n = match_len (drop insert_at ls) es
      in if n < length es then take (insert_at + n) ls @ drop n es else ls)"

text \<open>The parts of \<^verbatim>\<open>_append_entries\<close>: following the sender's term, and adopting its commit index.\<close>

definition ae_follow :: "'s storage_ops \<Rightarrow> world \<Rightarrow> AppendEntries \<Rightarrow> 's Consensus \<Rightarrow> 's Consensus" where
  "ae_follow so w req c =
     (let c = (if current_term c < ae_term req then become_follower so w (ae_term req) c else c)
      in if current_term c \<le> ae_term req \<and> state c = Follower then c\<lparr>leader_id := Some (ae_leader req)\<rparr> else c)"

definition ae_commit :: "AppendEntries \<Rightarrow> 's Consensus \<Rightarrow> 's Consensus run" where
  "ae_commit req c =
     (case ae_leader_commit req of
        None \<Rightarrow> Done c
      | Some lc \<Rightarrow>
          if logs c = [] then Done c
          else
            let new_commit = min lc (length (logs c) - 1)
            in if (case commit_index c of None \<Rightarrow> True | Some ci \<Rightarrow> ci < new_commit)
               then send_self SendCommit (c\<lparr>commit_index := Some new_commit\<rparr>)
               else Done c)"

definition insert_at :: "AppendEntries \<Rightarrow> nat" where
  "insert_at req = (case ae_prev_log_index req of None \<Rightarrow> 0 | Some i \<Rightarrow> i + 1)"

definition append_entries :: "'s storage_ops \<Rightarrow> world \<Rightarrow> AppendEntries \<Rightarrow> 's Consensus \<Rightarrow> (AppendEntriesReply res \<times> 's Consensus) run" where
  "append_entries so w req c =
     (if state c = Dead then Done (Inl ''node is dead'', c)
      else
        let c = ae_follow so w req c
        in if ae_term req < current_term c then
             Done (Inr \<lparr>aer_term = current_term c, aer_success = False, aer_conflict_index = None, aer_conflict_term = None\<rparr>, c)
           else
             let c = c\<lparr>election_reset_event := Some (now w)\<rparr>
             in if \<not> prev_ok req (logs c) then Done (Inr (conflict_reply (current_term c) req (logs c)), c)
                else
                  let c = c\<lparr>logs := splice_entries (insert_at req) (ae_entries req) (logs c)\<rparr>
                  in run_map (\<lambda>c. (Inr \<lparr>aer_term = current_term c, aer_success = True, aer_conflict_index = None,
                                        aer_conflict_term = None\<rparr>, persist_state so (c\<lparr>log_index := length (logs c)\<rparr>)))
                       (ae_commit req c))"

text \<open>One peer of \<^verbatim>\<open>send_leader_aes\<close>: the clamped next index and the call that is spawned.\<close>

definition send_ae_to :: "nat \<Rightarrow> 's Consensus \<Rightarrow> 's Consensus" where
  "send_ae_to p c =
     (let ni = min (case next_index c p of None \<Rightarrow> length (logs c) | Some n \<Rightarrow> n) (length (logs c));
          prev = (if ni = 0 then None else Some (ni - 1));
          req = \<lparr>ae_term = current_term c, ae_leader = node_id c, ae_prev_log_index = prev,
                 ae_prev_log_term = map_option (\<lambda>i. le_term (logs c ! i)) prev,
                 ae_entries = drop ni (logs c), ae_leader_commit = commit_index c\<rparr>
      in c\<lparr>next_index := (next_index c)(p \<mapsto> ni), calls := calls c @ [CallAppend p ni req]\<rparr>)"

definition send_leader_aes :: "'s Consensus \<Rightarrow> 's Consensus" where
  "send_leader_aes c = (if state c \<noteq> Leader then c else fold send_ae_to (peers c) c)"

definition match_count :: "'s Consensus \<Rightarrow> nat \<Rightarrow> nat" where
  "match_count c i =
     1 + length (filter (\<lambda>p. i \<le> (case match_index c p of None \<Rightarrow> 0 | Some m \<Rightarrow> m)) (peers c))"

text \<open>The loop over the indices from the commit index on; the last one that qualifies wins.\<close>

fun advance_commit :: "'s Consensus \<Rightarrow> nat list \<Rightarrow> nat option \<Rightarrow> nat option" where
  "advance_commit c [] ci = ci"
| "advance_commit c (i # is) ci =
     advance_commit c is
       (if le_term (logs c ! i) = current_term c \<and> length (peers c) + 1 < match_count c i * 2 then Some i else ci)"

text \<open>The last index with a given term, scanning from the end.\<close>

definition last_of_term :: "LogEntry list \<Rightarrow> nat \<Rightarrow> nat option" where
  "last_of_term ls t = find (\<lambda>i. le_term (ls ! i) = t) (rev [0..<length ls])"

definition handle_ae_res :: "'s storage_ops \<Rightarrow> world \<Rightarrow> nat \<Rightarrow> nat \<Rightarrow> AppendEntriesReply \<Rightarrow> 's Consensus \<Rightarrow> 's Consensus run" where
  "handle_ae_res so w p ni reply c =
     (if current_term c < aer_term reply then Done (become_follower so w (aer_term reply) c)
      else
        run_bind (slice_from (logs c) ni) (\<lambda>es.
          if state c = Leader \<and> current_term c = aer_term reply then
            if aer_success reply then
              let next = ni + length es;
                  c = c\<lparr>next_index := (next_index c)(p \<mapsto> next), match_index := (match_index c)(p \<mapsto> next - 1)\<rparr>;
                  saved = commit_index c;
                  from = (case saved of None \<Rightarrow> 0 | Some ci \<Rightarrow> ci);
                  c = c\<lparr>commit_index := advance_commit c [from..<length (logs c)] saved\<rparr>
              in if commit_index c \<noteq> saved
                 then run_bind (send_self SendCommit c) (send_self SendAES)
                 else Done c
            else
              let conflict = (case aer_conflict_index reply of None \<Rightarrow> 0 | Some i \<Rightarrow> i);
                  next = (case aer_conflict_term reply of
                      None \<Rightarrow> conflict
                    | Some ct \<Rightarrow> (case last_of_term (logs c) ct of Some l \<Rightarrow> l + 1 | None \<Rightarrow> conflict))
              in Done (c\<lparr>next_index := (next_index c)(p \<mapsto> next)\<rparr>)
          else Done c))"

section \<open>Commits and submissions\<close>

text \<open>The start index is the one after \<open>last_applied\<close>; the value \<^verbatim>\<open>usize::MAX\<close> stands for none.\<close>

definition send_commits :: "'s Consensus \<Rightarrow> 's Consensus run" where
  "send_commits c =
     (case commit_index c of
        None \<Rightarrow> Done c
      | Some ci \<Rightarrow>
          let start = (case last_applied c of None \<Rightarrow> 0 | Some a \<Rightarrow> if a = usize_max then 0 else a + 1)
          in if start \<le> ci \<and> start < length (logs c) then
               run_bind (slice_range (logs c) start (ci + 1)) (\<lambda>es.
                 Done (c\<lparr>commit_chan := commit_chan c @
                      map (\<lambda>(x, i). \<lparr>ce_command = le_command x, ce_term = current_term c, ce_index = i\<rparr>)
                        (zip es [start..<start + length es]),
                    last_applied := Some ci\<rparr>))
             else Done c)"

definition submit_entry :: "'s storage_ops \<Rightarrow> Command \<Rightarrow> 's Consensus \<Rightarrow> 's Consensus run" where
  "submit_entry so cmd c =
     (let c = c\<lparr>logs := logs c @ [\<lparr>le_command = cmd, le_term = current_term c\<rparr>], log_index := log_index c + 1\<rparr>
      in run_map (persist_state so) (send_self SendAES c))"

definition stop :: "'s Consensus \<Rightarrow> 's Consensus" where
  "stop c = c\<lparr>state := Dead, rx_closed := True, election_handle := None, heartbeat_handle := False\<rparr>"

definition report :: "'s Consensus \<Rightarrow> string \<times> nat \<times> State" where
  "report c = (node_id c, current_term c, state c)"

section \<open>The message loop\<close>

fun handle_msg :: "'s storage_ops \<Rightarrow> world \<Rightarrow> ConsensusMsg \<Rightarrow> 's Consensus \<Rightarrow> 's Consensus run" where
  "handle_msg so w (StartElection d) c =
     (if state c \<noteq> Candidate \<and> state c \<noteq> Follower then Done c
      else case election_reset_event c of
        None \<Rightarrow> Done c
      | Some ev \<Rightarrow> if d \<le> now w - ev then Done (start_election so w c) else Done c)"
| "handle_msg so w SendCommit c = send_commits c"
| "handle_msg so w (Submit cmd) c = (if state c = Leader then submit_entry so cmd c else Done c)"
| "handle_msg so w SendAES c = Done (send_leader_aes c)"
| "handle_msg so w (RequestVoteMsg req tx) c =
     (let (res, c) = request_vote so w req c in Done (c\<lparr>answers := answers c @ [AnswerVote tx res]\<rparr>))"
| "handle_msg so w (AppendEntryMsg req tx) c =
     run_bind (append_entries so w req c) (\<lambda>(res, c). Done (c\<lparr>answers := answers c @ [AnswerAppend tx res]\<rparr>))"
| "handle_msg so w (AppendEntryResult p ni reply) c = handle_ae_res so w p ni reply c"
| "handle_msg so w (VoteResult term voted) c = vote_result so w term voted c"

text \<open>
  Steps of a node: it takes the first message of its inbox, or another task (a timer, a remote
  call, a client) puts a message into the inbox while there is room.
\<close>

inductive node_step :: "'s storage_ops \<Rightarrow> 's Consensus \<Rightarrow> 's Consensus \<Rightarrow> bool" for so where
  receive: "inbox c = m # ms \<Longrightarrow> handle_msg so w m (c\<lparr>inbox := ms\<rparr>) = Done c' \<Longrightarrow> node_step so c c'"
| arrive: "length (inbox c) < INBOX_CAP \<Longrightarrow> node_step so c (c\<lparr>inbox := inbox c @ [m]\<rparr>)"

text \<open>\<^verbatim>\<open>start\<close>: the peers by the last digit of their addresses, and the first timer.\<close>

definition peer_id :: "string \<Rightarrow> nat run" where
  "peer_id url = (if url = [] then Panic else case to_digit (last url) of None \<Rightarrow> Panic | Some d \<Rightarrow> Done d)"

fun peer_ids :: "string list \<Rightarrow> nat list run" where
  "peer_ids [] = Done []"
| "peer_ids (u # us) = run_bind (peer_id u) (\<lambda>i. run_map ((#) i) (peer_ids us))"

definition start_node :: "world \<Rightarrow> string list \<Rightarrow> 's Consensus \<Rightarrow> 's Consensus run" where
  "start_node w urls c =
     run_map (\<lambda>ps. spawn_election_timer w (c\<lparr>peers := ps, election_reset_event := Some (now w + 500000000)\<rparr>))
       (peer_ids urls)"

section \<open>The handle other tasks use\<close>

text \<open>
  \<^verbatim>\<open>ConsensusHandle::submit\<close>: the index a client will wait at is read before the command is queued.
  With a full inbox the call waits until there is room.
\<close>

definition handle_submit :: "Command \<Rightarrow> 's Consensus \<Rightarrow> (nat option \<times> 's Consensus) run" where
  "handle_submit cmd c = run_map (\<lambda>c'. (Some (log_index c), c')) (send_self (Submit cmd) c)"

datatype 'a rpc_wait = Replied "'a res" | Dropped | Elapsed

text \<open>The end of \<^verbatim>\<open>ConsensusHandle::request_vote\<close> and \<^verbatim>\<open>append_entries\<close>: what one second of waiting gives.\<close>

fun rpc_reply :: "'a rpc_wait \<Rightarrow> RpcError + 'a" where
  "rpc_reply (Replied r) = map_sum Internal id r"
| "rpc_reply Dropped = Inl (Internal ''consensus actor dropped response channel'')"
| "rpc_reply Elapsed = Inl (Internal ''request timed out'')"

section \<open>What the methods leave alone\<close>

lemma persist_keeps [simp]:
  "node_id (persist_state so c) = node_id c" "peers (persist_state so c) = peers c" "inbox (persist_state so c) = inbox c"
  "rx_closed (persist_state so c) = rx_closed c" "commit_chan (persist_state so c) = commit_chan c"
  "current_term (persist_state so c) = current_term c" "voted_for (persist_state so c) = voted_for c"
  "vote_count (persist_state so c) = vote_count c" "logs (persist_state so c) = logs c"
  "commit_index (persist_state so c) = commit_index c" "last_applied (persist_state so c) = last_applied c"
  "state (persist_state so c) = state c" "next_index (persist_state so c) = next_index c"
  "match_index (persist_state so c) = match_index c" "leader_id (persist_state so c) = leader_id c"
  "calls (persist_state so c) = calls c" "answers (persist_state so c) = answers c"
  by (simp_all add: persist_state_def Let_def split: prod.split sum.split)

lemma become_follower_keeps [simp]:
  "node_id (become_follower so w t c) = node_id c" "peers (become_follower so w t c) = peers c"
  "inbox (become_follower so w t c) = inbox c" "rx_closed (become_follower so w t c) = rx_closed c"
  "commit_chan (become_follower so w t c) = commit_chan c" "logs (become_follower so w t c) = logs c"
  "commit_index (become_follower so w t c) = commit_index c" "last_applied (become_follower so w t c) = last_applied c"
  "current_term (become_follower so w t c) = t" "voted_for (become_follower so w t c) = None"
  "state (become_follower so w t c) = Follower" "calls (become_follower so w t c) = calls c"
  by (simp_all add: become_follower_def spawn_election_timer_def)

lemma send_self_Done: "send_self m c = Done c' \<Longrightarrow> c' = c \<or> c' = c\<lparr>inbox := inbox c @ [m]\<rparr>"
  by (auto simp: send_self_def split: if_splits)

lemma send_self_keeps:
  assumes "send_self m c = Done c'"
  shows "current_term c' = current_term c" "voted_for c' = voted_for c" "logs c' = logs c" "commit_index c' = commit_index c"
    "last_applied c' = last_applied c" "commit_chan c' = commit_chan c" "state c' = state c" "peers c' = peers c"
    "match_index c' = match_index c" "next_index c' = next_index c" "vote_count c' = vote_count c" "node_id c' = node_id c"
  using send_self_Done [OF assms] by auto

lemma send_ae_to_keeps:
  "current_term (send_ae_to p c) = current_term c" "voted_for (send_ae_to p c) = voted_for c"
  "logs (send_ae_to p c) = logs c" "commit_index (send_ae_to p c) = commit_index c"
  "last_applied (send_ae_to p c) = last_applied c" "commit_chan (send_ae_to p c) = commit_chan c"
  "state (send_ae_to p c) = state c"
  by (simp_all add: send_ae_to_def Let_def)

lemma send_leader_aes_keeps [simp]:
  "current_term (send_leader_aes c) = current_term c" "voted_for (send_leader_aes c) = voted_for c"
  "logs (send_leader_aes c) = logs c" "commit_index (send_leader_aes c) = commit_index c"
  "last_applied (send_leader_aes c) = last_applied c" "commit_chan (send_leader_aes c) = commit_chan c"
  "state (send_leader_aes c) = state c"
proof -
  have "current_term (fold send_ae_to ps c) = current_term c \<and> voted_for (fold send_ae_to ps c) = voted_for c
    \<and> logs (fold send_ae_to ps c) = logs c \<and> commit_index (fold send_ae_to ps c) = commit_index c
    \<and> last_applied (fold send_ae_to ps c) = last_applied c \<and> commit_chan (fold send_ae_to ps c) = commit_chan c
    \<and> state (fold send_ae_to ps c) = state c" for ps
    by (induction ps arbitrary: c) (simp_all add: send_ae_to_keeps)
  then show "current_term (send_leader_aes c) = current_term c" "voted_for (send_leader_aes c) = voted_for c"
    "logs (send_leader_aes c) = logs c" "commit_index (send_leader_aes c) = commit_index c"
    "last_applied (send_leader_aes c) = last_applied c" "commit_chan (send_leader_aes c) = commit_chan c"
    "state (send_leader_aes c) = state c"
    by (simp_all add: send_leader_aes_def)
qed

section \<open>Terms and votes\<close>

text \<open>The order in which a node's term and vote may move: up, or in the same term from no vote to a vote.\<close>

definition term_vote_le :: "'s Consensus \<Rightarrow> 's Consensus \<Rightarrow> bool" where
  "term_vote_le c c' \<longleftrightarrow> current_term c < current_term c' \<or>
     (current_term c = current_term c' \<and> (voted_for c = None \<or> voted_for c' = voted_for c))"

lemma term_vote_refl [simp]: "term_vote_le c c"
  by (simp add: term_vote_le_def)

lemma term_vote_trans: "term_vote_le a b \<Longrightarrow> term_vote_le b c \<Longrightarrow> term_vote_le a c"
  by (auto simp: term_vote_le_def)

lemma term_vote_same: "current_term c' = current_term c \<Longrightarrow> voted_for c' = voted_for c \<Longrightarrow> term_vote_le c c'"
  by (simp add: term_vote_le_def)

lemma start_leader_term: "start_leader c = Done c' \<Longrightarrow> current_term c' = current_term c \<and> voted_for c' = voted_for c"
  by (auto simp: start_leader_def Let_def run_simps dest: send_self_keeps(1,2))

lemma vote_result_term: "vote_result so w t v c = Done c' \<Longrightarrow> term_vote_le c c'"
  by (auto simp: vote_result_def Let_def split: if_splits dest!: start_leader_term intro: term_vote_same)
    (simp add: term_vote_le_def)

lemma request_vote_term: "request_vote so w req c = (r, c') \<Longrightarrow> term_vote_le c c'"
  by (auto simp: request_vote_def Let_def term_vote_le_def split: if_splits)

lemma ae_follow_keeps [simp]:
  "logs (ae_follow so w req c) = logs c" "commit_index (ae_follow so w req c) = commit_index c"
  "last_applied (ae_follow so w req c) = last_applied c" "commit_chan (ae_follow so w req c) = commit_chan c"
  "inbox (ae_follow so w req c) = inbox c" "current_term (ae_follow so w req c) = max (current_term c) (ae_term req)"
  by (simp_all add: ae_follow_def Let_def)

lemma ae_follow_term: "term_vote_le c (ae_follow so w req c)"
  by (simp add: ae_follow_def Let_def term_vote_le_def)

lemma ae_commit_keeps:
  assumes "ae_commit req c = Done c'"
  shows "current_term c' = current_term c" "voted_for c' = voted_for c" "logs c' = logs c"
    "last_applied c' = last_applied c" "commit_chan c' = commit_chan c"
  using assms by (auto simp: ae_commit_def Let_def split: option.splits if_splits dest!: send_self_Done)

lemma append_entries_term:
  assumes "append_entries so w req c = Done (r, c')"
  shows "term_vote_le c c'"
proof -
  have "c' = c \<or> current_term c' = current_term (ae_follow so w req c) \<and> voted_for c' = voted_for (ae_follow so w req c)"
    using assms ae_commit_keeps(1,2)
    by (fastforce simp: append_entries_def Let_def run_simps split: if_splits)
  then show ?thesis using ae_follow_term [of c so w req] by (auto simp: term_vote_le_def)
qed

lemma handle_ae_res_term: "handle_ae_res so w p ni reply c = Done c' \<Longrightarrow> term_vote_le c c'"
  by (auto simp: handle_ae_res_def Let_def run_simps term_vote_le_def split: if_splits dest!: send_self_Done)

lemma submit_entry_term: "submit_entry so cmd c = Done c' \<Longrightarrow> term_vote_le c c'"
  by (auto simp: submit_entry_def Let_def run_simps term_vote_le_def dest!: send_self_Done)

lemma send_commits_term: "send_commits c = Done c' \<Longrightarrow> term_vote_le c c'"
  by (auto simp: send_commits_def Let_def run_simps term_vote_le_def split: option.splits if_splits)

lemma start_election_term: "current_term c < usize_max \<Longrightarrow> term_vote_le c (start_election so w c)"
  by (simp add: start_election_def Let_def term_vote_le_def usize_add_def usize_max_def)

lemma handle_msg_term:
  "handle_msg so w m c = Done c' \<Longrightarrow> current_term c < usize_max \<Longrightarrow> term_vote_le c c'"
proof (cases m)
  case (RequestVoteMsg req tx)
  assume "handle_msg so w m c = Done c'"
  with RequestVoteMsg show ?thesis
    using request_vote_term [of so w req c] by (auto simp: term_vote_le_def split: prod.splits)
next
  case (AppendEntryMsg req tx)
  assume "handle_msg so w m c = Done c'"
  with AppendEntryMsg obtain r c1 where "append_entries so w req c = Done (r, c1)" "c' = c1\<lparr>answers := answers c1 @ [AnswerAppend tx r]\<rparr>"
    by (auto simp: run_simps)
  then show ?thesis using append_entries_term [of so w req c r c1] by (simp add: term_vote_le_def)
qed (auto split: if_splits option.splits intro: term_vote_same start_election_term
    dest: send_commits_term submit_entry_term handle_ae_res_term vote_result_term)

section \<open>Runs of a node\<close>

text \<open>Machine bounds: terms and log indices that fit a \<^verbatim>\<open>usize\<close> with room for one more.\<close>

definition in_bounds :: "'s Consensus \<Rightarrow> bool" where
  "in_bounds c \<longleftrightarrow> current_term c < usize_max \<and> length (logs c) < usize_max"

text \<open>Runs all of whose steps start within the bounds.\<close>

inductive node_run :: "'s storage_ops \<Rightarrow> 's Consensus \<Rightarrow> 's Consensus \<Rightarrow> bool" for so where
  start: "node_run so c c"
| step: "node_run so c c' \<Longrightarrow> in_bounds c' \<Longrightarrow> node_step so c' c'' \<Longrightarrow> node_run so c c''"

inductive_cases node_stepE: "node_step so c c'"

lemma node_step_term: "node_step so c c' \<Longrightarrow> current_term c < usize_max \<Longrightarrow> term_vote_le c c'"
proof (erule node_stepE)
  fix m ms w
  assume "handle_msg so w m (c\<lparr>inbox := ms\<rparr>) = Done c'" "current_term c < usize_max"
  then show "term_vote_le c c'"
    using handle_msg_term [of so w m "c\<lparr>inbox := ms\<rparr>" c'] by (simp add: term_vote_le_def)
qed (simp add: term_vote_le_def)

lemma node_run_term: "node_run so c c' \<Longrightarrow> term_vote_le c c'"
  by (induction rule: node_run.induct) (auto intro: term_vote_trans node_step_term simp: in_bounds_def)

section \<open>Commit index and the stream of committed entries\<close>

definition commit_le :: "nat option \<Rightarrow> nat option \<Rightarrow> bool" where
  "commit_le a b \<longleftrightarrow> (case a of None \<Rightarrow> True | Some x \<Rightarrow> (case b of None \<Rightarrow> False | Some y \<Rightarrow> x \<le> y))"

lemma commit_le_refl [simp]: "commit_le a a"
  by (simp add: commit_le_def split: option.split)

lemma commit_le_trans: "commit_le a b \<Longrightarrow> commit_le b c \<Longrightarrow> commit_le a c"
  by (auto simp: commit_le_def split: option.splits)

text \<open>What \<open>advance_commit\<close> may choose.\<close>

lemma advance_commit_cases:
  "advance_commit c is ci = ci \<or>
     (\<exists>i \<in> set is. advance_commit c is ci = Some i \<and> le_term (logs c ! i) = current_term c
        \<and> length (peers c) + 1 < match_count c i * 2)"
  by (induction "is" arbitrary: ci) auto

lemma advance_commit_le:
  assumes "from = (case ci of None \<Rightarrow> 0 | Some x \<Rightarrow> x)"
  shows "commit_le ci (advance_commit c [from..<n] ci)"
  using advance_commit_cases [of c "[from..<n]" ci] assms by (auto simp: commit_le_def split: option.splits)

lemma ae_commit_le: "ae_commit req c = Done c' \<Longrightarrow> commit_le (commit_index c) (commit_index c')"
  by (auto simp: ae_commit_def Let_def commit_le_def split: option.splits if_splits dest!: send_self_Done)

lemma append_entries_commit:
  "append_entries so w req c = Done (r, c') \<Longrightarrow> commit_le (commit_index c) (commit_index c')"
  using ae_commit_le by (fastforce simp: append_entries_def Let_def run_simps split: if_splits)

lemma handle_ae_res_commit:
  "handle_ae_res so w p ni reply c = Done c' \<Longrightarrow> commit_le (commit_index c) (commit_index c')"
  by (auto simp: handle_ae_res_def Let_def run_simps split: if_splits dest!: send_self_Done intro: advance_commit_le)

lemma start_leader_keeps:
  assumes "start_leader c = Done c'"
  shows "commit_index c' = commit_index c" "last_applied c' = last_applied c" "commit_chan c' = commit_chan c" "logs c' = logs c"
  using assms by (auto simp: start_leader_def Let_def run_simps dest!: send_self_Done)

lemma vote_result_keeps:
  assumes "vote_result so w t v c = Done c'"
  shows "commit_index c' = commit_index c" "last_applied c' = last_applied c" "commit_chan c' = commit_chan c" "logs c' = logs c"
  using assms by (auto simp: vote_result_def Let_def split: if_splits dest: start_leader_keeps)

lemma request_vote_keeps:
  assumes "request_vote so w req c = (r, c')"
  shows "commit_index c' = commit_index c" "last_applied c' = last_applied c" "commit_chan c' = commit_chan c" "logs c' = logs c"
  using assms by (auto simp: request_vote_def Let_def split: if_splits)

lemma start_election_keeps [simp]:
  "commit_index (start_election so w c) = commit_index c" "last_applied (start_election so w c) = last_applied c"
  "commit_chan (start_election so w c) = commit_chan c" "logs (start_election so w c) = logs c"
  by (simp_all add: start_election_def Let_def)

lemma submit_entry_keeps:
  assumes "submit_entry so cmd c = Done c'"
  shows "commit_index c' = commit_index c" "last_applied c' = last_applied c" "commit_chan c' = commit_chan c"
    "logs c' = logs c @ [\<lparr>le_command = cmd, le_term = current_term c\<rparr>]"
  using assms by (auto simp: submit_entry_def Let_def run_simps dest!: send_self_Done)

lemma handle_msg_commit:
  assumes "handle_msg so w m c = Done c'"
  shows "commit_le (commit_index c) (commit_index c')"
proof (cases m)
  case SendCommit
  then show ?thesis using assms by (auto simp: send_commits_def Let_def run_simps split: option.splits if_splits)
next
  case (AppendEntryMsg req tx)
  then show ?thesis using assms by (auto simp: run_simps dest: append_entries_commit)
next
  case (RequestVoteMsg req tx)
  then show ?thesis using assms by (auto split: prod.splits dest: request_vote_keeps)
qed (use assms in \<open>auto split: if_splits option.splits dest: submit_entry_keeps vote_result_keeps handle_ae_res_commit\<close>)

lemma node_run_commit: "node_run so c c' \<Longrightarrow> commit_le (commit_index c) (commit_index c')"
proof (induction rule: node_run.induct)
  case (step c c' c'')
  from step.hyps(3) have "commit_le (commit_index c') (commit_index c'')"
    by (rule node_stepE) (auto dest!: handle_msg_commit)
  then show ?case using step.IH commit_le_trans by blast
qed simp

text \<open>The index that will be sent next.\<close>

definition next_apply :: "'s Consensus \<Rightarrow> nat" where
  "next_apply c = (case last_applied c of None \<Rightarrow> 0 | Some a \<Rightarrow> a + 1)"

definition send_start :: "'s Consensus \<Rightarrow> nat" where
  "send_start c = (case last_applied c of None \<Rightarrow> 0 | Some a \<Rightarrow> if a = usize_max then 0 else a + 1)"

lemma send_commits_cases:
  assumes "send_commits c = Done c'"
  shows "c' = c \<or> (\<exists>ci. commit_index c = Some ci \<and> send_start c \<le> ci \<and> ci < length (logs c)
    \<and> c' = c\<lparr>commit_chan := commit_chan c @
          map (\<lambda>i. \<lparr>ce_command = le_command (logs c ! i), ce_term = current_term c, ce_index = i\<rparr>) [send_start c..<ci + 1],
        last_applied := Some ci\<rparr>)"
proof -
  have zip: "map f (zip (drop a (take b xs)) [a..<b]) = map (\<lambda>i. f (xs ! i, i)) [a..<b]"
    if "b \<le> length xs" "a \<le> b" for a b and xs :: "LogEntry list" and f :: "LogEntry \<times> nat \<Rightarrow> CommitEntry"
    using that by (auto intro: nth_equalityI)
  show ?thesis
  proof (cases "commit_index c")
    case None
    then show ?thesis using assms by (simp add: send_commits_def)
  next
    case (Some ci)
    have "c' = c" if "\<not> (send_start c \<le> ci \<and> send_start c < length (logs c))"
      using assms Some that by (auto simp: send_commits_def Let_def send_start_def split: if_splits)
    moreover have ?thesis if "send_start c \<le> ci" "send_start c < length (logs c)"
      using assms Some that zip [of "ci + 1" "logs c" "send_start c"]
      by (auto simp: send_commits_def Let_def run_simps simp flip: send_start_def split: if_splits)
    ultimately show ?thesis by blast
  qed
qed

lemma handle_msg_keeps_stream:
  assumes "handle_msg so w m c = Done c'" "m \<noteq> SendCommit"
  shows "commit_chan c' = commit_chan c \<and> last_applied c' = last_applied c"
proof (cases m)
  case (AppendEntryMsg req tx)
  then obtain r c1 where a: "append_entries so w req c = Done (r, c1)" "commit_chan c' = commit_chan c1" "last_applied c' = last_applied c1"
    using assms by (auto simp: run_simps)
  then show ?thesis using ae_commit_keeps(4,5)
    by (fastforce simp: append_entries_def Let_def run_simps split: if_splits)
next
  case (AppendEntryResult p ni reply)
  then show ?thesis
    using assms by (auto simp: handle_ae_res_def Let_def run_simps split: if_splits dest!: send_self_Done)
next
  case (RequestVoteMsg req tx)
  then show ?thesis using assms by (auto split: prod.splits dest: request_vote_keeps)
qed (use assms in \<open>auto split: if_splits option.splits dest: submit_entry_keeps vote_result_keeps\<close>)

text \<open>The stream so far: consecutive indices from \<open>base\<close> up to the one after the last applied.\<close>

definition stream_ok :: "nat \<Rightarrow> 's Consensus \<Rightarrow> bool" where
  "stream_ok base c \<longleftrightarrow> base \<le> next_apply c \<and> map ce_index (commit_chan c) = [base..<next_apply c] \<and> next_apply c \<le> usize_max"

lemma send_commits_stream:
  assumes "send_commits c = Done c'" "stream_ok base c" "length (logs c) < usize_max"
  shows "stream_ok base c'"
proof -
  have st: "send_start c = next_apply c"
    using assms(2) by (auto simp: send_start_def next_apply_def stream_ok_def split: option.splits)
  from send_commits_cases [OF assms(1)] show ?thesis
  proof (elim disjE exE conjE)
    fix ci
    assume ci: "send_start c \<le> ci" "ci < length (logs c)" and c': "c' = c\<lparr>commit_chan := commit_chan c @
        map (\<lambda>i. \<lparr>ce_command = le_command (logs c ! i), ce_term = current_term c, ce_index = i\<rparr>) [send_start c..<ci + 1],
        last_applied := Some ci\<rparr>"
    have "[base..<next_apply c] @ [next_apply c..<ci + 1] = [base..<ci + 1]"
      using assms(2) ci(1) st upt_add_eq_append [of base "next_apply c" "ci + 1 - next_apply c"]
      by (simp add: stream_ok_def)
    moreover have "map ce_index (commit_chan c') = map ce_index (commit_chan c) @ [next_apply c..<ci + 1]"
      by (simp add: c' st comp_def)
    moreover have "next_apply c' = ci + 1"
      by (simp add: c' next_apply_def)
    ultimately show ?thesis
      using assms(2,3) ci st by (simp only: stream_ok_def) simp
  qed (simp add: assms(2))
qed

lemma node_run_stream: "node_run so c c' \<Longrightarrow> stream_ok base c \<Longrightarrow> stream_ok base c'"
proof (induction rule: node_run.induct)
  case (step c c' c'')
  then have ok: "stream_ok base c'" by blast
  have same: "stream_ok base x" if "commit_chan x = commit_chan c'" "last_applied x = last_applied c'" for x
    using ok that by (simp add: stream_ok_def next_apply_def)
  from step.hyps(3) show ?case
  proof (rule node_stepE)
    fix m ms w
    assume h: "handle_msg so w m (c'\<lparr>inbox := ms\<rparr>) = Done c''"
    show ?thesis
    proof (cases "m = SendCommit")
      case True
      then show ?thesis
        using h send_commits_stream [of "c'\<lparr>inbox := ms\<rparr>" c'' base] step.hyps(2) same [of "c'\<lparr>inbox := ms\<rparr>"]
        by (simp add: in_bounds_def)
    next
      case False
      then show ?thesis using handle_msg_keeps_stream [OF h False] same [of c''] by auto
    qed
  qed (auto intro!: same)
qed

section \<open>Log positions\<close>

text \<open>The position of a log's end, ordered by term and then by index.\<close>

datatype log_pos = LogPos (pos_term: nat) (pos_index: nat)

instantiation log_pos :: linorder
begin

definition less_eq_log_pos :: "log_pos \<Rightarrow> log_pos \<Rightarrow> bool" where
  "less_eq_log_pos a b \<longleftrightarrow> pos_term a < pos_term b \<or> pos_term a = pos_term b \<and> pos_index a \<le> pos_index b"

definition less_log_pos :: "log_pos \<Rightarrow> log_pos \<Rightarrow> bool" where
  "less_log_pos a b \<longleftrightarrow> pos_term a < pos_term b \<or> pos_term a = pos_term b \<and> pos_index a < pos_index b"

instance
  by standard (auto simp: less_eq_log_pos_def less_log_pos_def log_pos.expand)

end

definition end_pos :: "'s Consensus \<Rightarrow> log_pos" where
  "end_pos c = LogPos (ce_term (last_log c)) (ce_index (last_log c))"

section \<open>Merging logs\<close>

text \<open>Two logs match when an index at which both have the same term has the same entries up to it.\<close>

definition log_matching :: "LogEntry list \<Rightarrow> LogEntry list \<Rightarrow> bool" where
  "log_matching f l \<longleftrightarrow>
     (\<forall>i < min (length f) (length l). le_term (f ! i) = le_term (l ! i) \<longrightarrow> take (Suc i) f = take (Suc i) l)"

lemma match_len_le: "match_len ls es \<le> length ls \<and> match_len ls es \<le> length es"
  by (induction ls es rule: match_len.induct) auto

lemma match_len_terms: "i < match_len ls es \<Longrightarrow> le_term (ls ! i) = le_term (es ! i)"
  by (induction ls es arbitrary: i rule: match_len.induct) (auto simp: nth_Cons split: nat.splits if_splits)

text \<open>Where the terms agree with a matching log, so do the entries.\<close>

lemma matching_prefix:
  assumes "log_matching f l" "take ni f = take ni l" "ni \<le> length f" "ni \<le> length l"
  shows "take (ni + match_len (drop ni f) (drop ni l)) f = take (ni + match_len (drop ni f) (drop ni l)) l"
proof (cases "match_len (drop ni f) (drop ni l)")
  case 0
  then show ?thesis using assms(2) by simp
next
  case (Suc n)
  have b: "ni + n < length f" "ni + n < length l"
    using match_len_le [of "drop ni f" "drop ni l"] Suc assms(3,4) by auto
  then have "le_term (f ! (ni + n)) = le_term (l ! (ni + n))"
    using match_len_terms [of n "drop ni f" "drop ni l"] Suc by simp
  then have "take (Suc (ni + n)) f = take (Suc (ni + n)) l"
    using assms(1) b by (simp add: log_matching_def)
  then show ?thesis using Suc by simp
qed

lemma splice_replicates:
  assumes "log_matching f l" "take ni f = take ni l" "ni \<le> length f" "ni \<le> length l"
  shows "take (length l) (splice_entries ni (drop ni l) f) = l
    \<and> (splice_entries ni (drop ni l) f = l \<or> splice_entries ni (drop ni l) f = f)"
proof -
  let ?n = "match_len (drop ni f) (drop ni l)"
  have p: "take (ni + ?n) f = take (ni + ?n) l" using matching_prefix [OF assms] .
  show ?thesis
  proof (cases "?n < length (drop ni l)")
    case True
    then have "splice_entries ni (drop ni l) f = take (ni + ?n) l @ drop (ni + ?n) l"
      using p by (simp add: splice_entries_def Let_def add.commute)
    then show ?thesis by simp
  next
    case False
    then have "ni + ?n = length l"
      using match_len_le [of "drop ni f" "drop ni l"] assms(4) by simp
    then have "take (length l) f = l" using p by simp
    then show ?thesis using False by (simp add: splice_entries_def)
  qed
qed

text \<open>The call a leader spawns for a peer.\<close>

lemma send_ae_to_call:
  "\<exists>ni req. calls (send_ae_to p c) = calls c @ [CallAppend p ni req] \<and> ni \<le> length (logs c)
     \<and> ae_term req = current_term c \<and> insert_at req = ni \<and> ae_entries req = drop ni (logs c)
     \<and> ae_prev_log_index req = (if ni = 0 then None else Some (ni - 1))
     \<and> (0 < ni \<longrightarrow> ae_prev_log_term req = Some (le_term (logs c ! (ni - 1))))
     \<and> ae_leader_commit req = commit_index c"
proof -
  define ni where "ni = min (case next_index c p of None \<Rightarrow> length (logs c) | Some n \<Rightarrow> n) (length (logs c))"
  have "ni \<le> length (logs c)" by (simp add: ni_def)
  then show ?thesis
    unfolding send_ae_to_def Let_def ni_def [symmetric] by (simp add: insert_at_def)
qed

lemma append_entries_success:
  assumes "append_entries so w req f = Done (Inr reply, f')" "aer_success reply"
  shows "prev_ok req (logs f) \<and> logs f' = splice_entries (insert_at req) (ae_entries req) (logs f)"
  using assms ae_commit_keeps(3)
  by (fastforce simp: append_entries_def conflict_reply_def Let_def run_simps split: if_splits option.splits)

lemma prev_ok_prefix:
  assumes "prev_ok req f" "log_matching f l" "ni \<le> length l"
    and "ae_prev_log_index req = (if ni = 0 then None else Some (ni - 1))"
    and "0 < ni \<longrightarrow> ae_prev_log_term req = Some (le_term (l ! (ni - 1)))"
  shows "take ni f = take ni l \<and> ni \<le> length f"
proof (cases ni)
  case (Suc i)
  then have "i < length f" "i < length l" "le_term (f ! i) = le_term (l ! i)"
    using assms(1,3,4,5) by (auto simp: prev_ok_def)
  then show ?thesis using assms(2) Suc by (simp add: log_matching_def)
qed simp

section \<open>A storage and nodes for concrete runs\<close>

text \<open>The storage of the source's own tests: it keeps the last state and all appended entries.\<close>

definition mock_storage :: "(PersistentState \<times> LogEntry list) storage_ops" where
  "mock_storage = \<lparr>st_store = (\<lambda>p d. (Inr (), (p, snd d))), st_restore = (\<lambda>d. (Inr d, d)),
     st_append = (\<lambda>es d. (Inr (), (fst d, snd d @ es)))\<rparr>"

definition demo_entry :: "nat \<Rightarrow> LogEntry" where
  "demo_entry t = \<lparr>le_command = Unknown, le_term = t\<rparr>"

definition demo_node :: "string \<Rightarrow> nat \<Rightarrow> LogEntry list \<Rightarrow> (PersistentState \<times> LogEntry list) Consensus" where
  "demo_node i t ls = (consensus_new mock_storage i
     (\<lparr>ps_current_term = t, ps_voted_for = None, ps_last_applied = None\<rparr>, ls))\<lparr>peers := [2, 3]\<rparr>"

definition demo_world :: world where
  "demo_world = \<lparr>now = 1000, timeout = 200\<rparr>"

lemma demo_node_fields [simp]:
  "current_term (demo_node i t ls) = t" "voted_for (demo_node i t ls) = None" "logs (demo_node i t ls) = ls"
  "state (demo_node i t ls) = Follower" "inbox (demo_node i t ls) = []" "peers (demo_node i t ls) = [2, 3]"
  "commit_index (demo_node i t ls) = None" "last_applied (demo_node i t ls) = None" "commit_chan (demo_node i t ls) = []"
  "node_id (demo_node i t ls) = i" "next_index (demo_node i t ls) = Map.empty" "match_index (demo_node i t ls) = Map.empty"
  "rx_closed (demo_node i t ls) = False" "calls (demo_node i t ls) = []"
  by (simp_all add: demo_node_def consensus_new_def restore_state_def mock_storage_def Let_def)

section \<open>Properties\<close>

text \<open>
  C5. Terms and votes. Along every run of a node whose steps start within the machine's bounds, the
  term never decreases, and within one term a vote once given is never changed or withdrawn.
\<close>

theorem term_and_vote_monotone:
  assumes "node_run so c c'"
  shows "current_term c \<le> current_term c'
    \<and> (current_term c' = current_term c \<and> voted_for c \<noteq> None \<longrightarrow> voted_for c' = voted_for c)"
  using node_run_term [OF assms] by (auto simp: term_vote_le_def)

definition demo_vote :: RequestVote where
  "demo_vote = \<lparr>rv_term = 5, rv_candidate_id = ''n2'', rv_last_log_index = 0, rv_last_log_term = 3\<rparr>"

theorem term_and_vote_monotone_witness:
  "\<exists>c'. node_run mock_storage (demo_node ''n1'' 4 []) c' \<and> 4 \<le> current_term c' \<and> voted_for c' = Some ''n2''"
proof -
  let ?c = "demo_node ''n1'' 4 []" and ?m = "RequestVoteMsg demo_vote 9"
  let ?c1 = "?c\<lparr>inbox := [?m]\<rparr>"
  obtain c2 where h: "handle_msg mock_storage demo_world ?m (?c1\<lparr>inbox := []\<rparr>) = Done c2" "voted_for c2 = Some ''n2''"
    by (simp add: request_vote_def demo_vote_def last_log_def Let_def)
  have "node_run mock_storage ?c ?c1"
    using node_run.step [OF node_run.start, of ?c mock_storage ?c1] node_step.arrive [of ?c mock_storage ?m]
    by (simp add: in_bounds_def usize_max_def INBOX_CAP_def)
  then have "node_run mock_storage ?c c2"
    using node_run.step [of mock_storage ?c ?c1 c2] node_step.receive [of ?c1 ?m "[]" mock_storage demo_world c2] h
    by (simp add: in_bounds_def usize_max_def)
  then show ?thesis using term_and_vote_monotone [of mock_storage ?c c2] h by auto
qed

text \<open>
  C8. When a vote is granted. A node that is not dead grants a vote exactly when the candidate's term
  is newer than its own, or the same and the node has voted for no one else in it, and the end of
  the candidate's log is not behind the end of its own in the order of terms and then indices; it
  then stands in the candidate's term with its vote recorded for that candidate, and its log is
  unchanged in any case.
\<close>

theorem vote_granted_iff:
  assumes "state c \<noteq> Dead" "request_vote so w req c = (Inr r, c')"
  shows "(rvr_voted r \<longleftrightarrow>
      (current_term c < rv_term req
        \<or> rv_term req = current_term c \<and> (voted_for c = None \<or> voted_for c = Some (rv_candidate_id req)))
      \<and> end_pos c \<le> LogPos (rv_last_log_term req) (rv_last_log_index req))
    \<and> (rvr_voted r \<longrightarrow> voted_for c' = Some (rv_candidate_id req) \<and> current_term c' = rv_term req \<and> rvr_term r = rv_term req)
    \<and> rvr_term r = current_term c' \<and> current_term c' = max (current_term c) (rv_term req) \<and> logs c' = logs c"
  using assms
  by (auto simp: request_vote_def Let_def end_pos_def less_eq_log_pos_def split: if_splits)

theorem vote_granted_iff_witness:
  "\<exists>r c'. request_vote mock_storage demo_world demo_vote (demo_node ''n1'' 4 [demo_entry 4]) = (Inr r, c') \<and> \<not> rvr_voted r"
proof -
  obtain r c' where r: "request_vote mock_storage demo_world demo_vote (demo_node ''n1'' 4 [demo_entry 4]) = (Inr r, c')"
    by (simp add: request_vote_def demo_vote_def last_log_def demo_entry_def Let_def)
  have "\<not> rvr_voted r"
    using vote_granted_iff [OF _ r] by (simp add: end_pos_def last_log_def demo_entry_def demo_vote_def less_eq_log_pos_def)
  with r show ?thesis by blast
qed

text \<open>
  C6. Replication. When a leader sends a peer the request it builds for it, and the peer, whose log
  matches the leader's in Raft's sense, answers with success, then the leader's whole log is a
  prefix of the peer's new log; moreover the new log is the leader's log, or the peer's old log
  unchanged, so an overlap that agrees is never cut.
\<close>

theorem append_entries_replicates:
  assumes "calls (send_ae_to p l) = calls l @ [CallAppend p ni req]" "log_matching (logs f) (logs l)"
    and "append_entries so w req f = Done (Inr reply, f')" "aer_success reply"
  shows "take (length (logs l)) (logs f') = logs l \<and> (logs f' = logs l \<or> logs f' = logs f)"
proof -
  have req: "ni \<le> length (logs l)" "insert_at req = ni" "ae_entries req = drop ni (logs l)"
    "ae_prev_log_index req = (if ni = 0 then None else Some (ni - 1))"
    "0 < ni \<longrightarrow> ae_prev_log_term req = Some (le_term (logs l ! (ni - 1)))"
    using assms(1) send_ae_to_call [of p l] by auto
  have ok: "prev_ok req (logs f)" "logs f' = splice_entries ni (drop ni (logs l)) (logs f)"
    using append_entries_success [OF assms(3,4)] req by auto
  have "take ni (logs f) = take ni (logs l)" "ni \<le> length (logs f)"
    using prev_ok_prefix [OF ok(1) assms(2) req(1,4,5)] by auto
  then show ?thesis
    using splice_replicates [OF assms(2) _ _ req(1)] ok(2) by simp
qed

definition demo_leader :: "(PersistentState \<times> LogEntry list) Consensus" where
  "demo_leader = (demo_node ''n1'' 5 [demo_entry 3, demo_entry 5])\<lparr>state := Leader, next_index := [2 \<mapsto> 1, 3 \<mapsto> 2]\<rparr>"

definition demo_req :: AppendEntries where
  "demo_req = \<lparr>ae_term = 5, ae_leader = ''n1'', ae_prev_log_index = Some 0, ae_prev_log_term = Some 3,
     ae_entries = [demo_entry 5], ae_leader_commit = None\<rparr>"

theorem append_entries_replicates_witness:
  "\<exists>reply f'. append_entries mock_storage demo_world demo_req (demo_node ''n2'' 4 [demo_entry 3, demo_entry 4]) = Done (Inr reply, f')
     \<and> aer_success reply \<and> take 2 (logs f') = [demo_entry 3, demo_entry 5]"
proof -
  let ?f = "demo_node ''n2'' 4 [demo_entry 3, demo_entry 4]"
  have call: "calls (send_ae_to 2 demo_leader) = calls demo_leader @ [CallAppend 2 1 demo_req]"
    by (simp add: send_ae_to_def demo_leader_def demo_req_def demo_entry_def Let_def)
  have m: "log_matching (logs ?f) (logs demo_leader)"
    by (auto simp: log_matching_def demo_leader_def demo_entry_def less_Suc_eq numeral_2_eq_2)
  obtain reply f' where a: "append_entries mock_storage demo_world demo_req ?f = Done (Inr reply, f')" "aer_success reply"
    by (simp add: append_entries_def ae_follow_def ae_commit_def prev_ok_def demo_req_def demo_entry_def Let_def)
  from append_entries_replicates [OF call m a] a show ?thesis
    by (auto simp: demo_leader_def numeral_2_eq_2)
qed

text \<open>
  C7. The commit index never moves back, and the entries a node hands to the service form one gapless
  stream: along every run within the machine's bounds that starts with nothing sent, the indices
  sent are exactly the consecutive ones from the first one due up to the last applied.
\<close>

theorem commit_stream_gapless:
  assumes "node_run so c c'" "commit_chan c = []" "next_apply c \<le> usize_max"
  shows "commit_le (commit_index c) (commit_index c')
    \<and> map ce_index (commit_chan c') = [next_apply c..<next_apply c']"
proof -
  have "stream_ok (next_apply c) c" using assms(2,3) by (simp add: stream_ok_def)
  then show ?thesis
    using node_run_stream [OF assms(1)] node_run_commit [OF assms(1)] by (simp add: stream_ok_def)
qed

theorem commit_stream_gapless_witness:
  "\<exists>c'. node_run mock_storage ((demo_node ''n1'' 5 [demo_entry 3, demo_entry 5])\<lparr>commit_index := Some 1\<rparr>) c'
     \<and> map ce_index (commit_chan c') = [0, 1]"
proof -
  let ?c = "(demo_node ''n1'' 5 [demo_entry 3, demo_entry 5])\<lparr>commit_index := Some 1\<rparr>"
  let ?c1 = "?c\<lparr>inbox := [SendCommit]\<rparr>"
  obtain c2 where h: "handle_msg mock_storage demo_world SendCommit (?c1\<lparr>inbox := []\<rparr>) = Done c2" "last_applied c2 = Some 1"
    by (simp add: send_commits_def slice_range_def Let_def)
  have "node_run mock_storage ?c ?c1"
    using node_run.step [OF node_run.start, of ?c mock_storage ?c1] node_step.arrive [of ?c mock_storage SendCommit]
    by (simp add: in_bounds_def usize_max_def INBOX_CAP_def)
  then have "node_run mock_storage ?c c2"
    using node_run.step [of mock_storage ?c ?c1 c2] node_step.receive [of ?c1 SendCommit "[]" mock_storage demo_world c2] h
    by (simp add: in_bounds_def usize_max_def)
  moreover have "map ce_index (commit_chan c2) = [next_apply ?c..<next_apply c2]"
    using commit_stream_gapless [OF \<open>node_run mock_storage ?c c2\<close>] by (simp add: next_apply_def)
  ultimately show ?thesis using h(2) by (auto simp: next_apply_def numeral_2_eq_2)
qed

text \<open>
  What is sent: one round of sending commits that returns either changes nothing, or sends the log
  entries from the first one due up to the commit index, in order, with their commands and
  indices, and marks the commit index as applied, so that a second round sends nothing.
\<close>

lemma send_commits_exact:
  assumes "send_commits c = Done c'" "next_apply c \<le> usize_max"
  shows "(c' = c \<or> (\<exists>ci. commit_index c = Some ci \<and> next_apply c \<le> ci \<and> ci < length (logs c)
      \<and> c' = c\<lparr>commit_chan := commit_chan c @
            map (\<lambda>i. \<lparr>ce_command = le_command (logs c ! i), ce_term = current_term c, ce_index = i\<rparr>) [next_apply c..<ci + 1],
          last_applied := Some ci\<rparr>))
    \<and> (length (logs c) < usize_max \<longrightarrow> send_commits c' = Done c')"
proof -
  have st: "send_start c = next_apply c"
    using assms(2) by (auto simp: send_start_def next_apply_def split: option.splits)
  from send_commits_cases [OF assms(1), unfolded st] show ?thesis
  proof (elim disjE exE)
    fix ci
    assume ci: "commit_index c = Some ci \<and> next_apply c \<le> ci \<and> ci < length (logs c)
      \<and> c' = c\<lparr>commit_chan := commit_chan c @
            map (\<lambda>i. \<lparr>ce_command = le_command (logs c ! i), ce_term = current_term c, ce_index = i\<rparr>) [next_apply c..<ci + 1],
          last_applied := Some ci\<rparr>"
    then have "length (logs c) < usize_max \<longrightarrow> send_commits c' = Done c'"
      by (simp add: send_commits_def)
    with ci show ?thesis by blast
  qed (use assms(1) in simp)
qed

text \<open>
  C9. The leader's commit rule: when a successful reply moves the commit index, the new index is an
  index of the log whose entry has the leader's current term, it is not before the old one, and
  by the leader's match indices a strict majority of the cluster (itself included) has reached it.
\<close>

theorem leader_commit_rule:
  assumes "handle_ae_res so w p ni reply c = Done c'" "commit_index c' \<noteq> commit_index c"
  shows "state c = Leader \<and> aer_success reply \<and> aer_term reply = current_term c
    \<and> (\<exists>i. commit_index c' = Some i \<and> commit_le (commit_index c) (Some i) \<and> i < length (logs c)
        \<and> le_term (logs c ! i) = current_term c \<and> length (peers c) + 1 < match_count c' i * 2)"
proof -
  let ?c1 = "c\<lparr>next_index := (next_index c)(p \<mapsto> length (logs c)), match_index := (match_index c)(p \<mapsto> length (logs c) - 1)\<rparr>"
  let ?from = "case commit_index c of None \<Rightarrow> 0 | Some ci \<Rightarrow> ci"
  let ?ci = "advance_commit ?c1 [?from..<length (logs c)] (commit_index c)"
  have lead: "state c = Leader" "aer_success reply" "aer_term reply = current_term c"
    and c': "commit_index c' = ?ci" "match_index c' = match_index ?c1" "peers c' = peers c"
    using assms by (auto simp: handle_ae_res_def Let_def run_simps split: if_splits dest!: send_self_Done)
  have mc: "match_count c' i = match_count ?c1 i" for i
    using c'(2,3) by (simp add: match_count_def)
  obtain i where i: "i \<in> set [?from..<length (logs c)]" "?ci = Some i" "le_term (logs c ! i) = current_term c"
    "length (peers c) + 1 < match_count ?c1 i * 2"
    using advance_commit_cases [of ?c1 "[?from..<length (logs c)]" "commit_index c"] assms(2) c'(1) by auto
  moreover have "commit_le (commit_index c) (Some i)"
    using i(1) by (simp add: commit_le_def split: option.splits)
  ultimately show ?thesis using lead c'(1) mc by auto
qed

definition demo_ok :: AppendEntriesReply where
  "demo_ok = \<lparr>aer_term = 5, aer_success = True, aer_conflict_index = None, aer_conflict_term = None\<rparr>"

theorem leader_commit_rule_witness:
  "\<exists>c'. handle_ae_res mock_storage demo_world 2 1 demo_ok demo_leader = Done c' \<and> commit_index c' = Some 1 \<and> 3 < match_count c' 1 * 2"
proof -
  obtain c' where h: "handle_ae_res mock_storage demo_world 2 1 demo_ok demo_leader = Done c'" "commit_index c' = Some 1"
    by (simp add: handle_ae_res_def demo_ok_def demo_leader_def demo_entry_def slice_from_def send_self_def INBOX_CAP_def
        match_count_def Let_def numeral_2_eq_2 upt_rec)
  then show ?thesis
    using leader_commit_rule [OF h(1)] by (auto simp: demo_leader_def)
qed

text \<open>
  C34. The entry at index 0 is committed without any replica. A leader whose match indices are the
  zeros of its election and whose log holds one entry of its term commits that entry on the first
  successful reply, even the reply to a heartbeat that carried no entry: a match index of zero
  does not distinguish a peer that has entry 0 from a peer that has nothing.
\<close>

theorem index_zero_committed_unreplicated:
  assumes "state c = Leader" "logs c = [x]" "le_term x = current_term c" "commit_index c = None"
    and "\<forall>q \<in> set (peers c). match_index c q = Some 0" "peers c \<noteq> []"
    and "aer_success reply" "aer_term reply = current_term c" "ni \<le> 1" "length (inbox c) + 2 \<le> INBOX_CAP"
  shows "\<exists>c'. handle_ae_res so w p ni reply c = Done c' \<and> commit_index c' = Some 0"
proof -
  let ?c1 = "c\<lparr>next_index := (next_index c)(p \<mapsto> 1), match_index := (match_index c)(p \<mapsto> 0)\<rparr>"
  have "filter (\<lambda>q. 0 \<le> (case match_index ?c1 q of None \<Rightarrow> 0 | Some m \<Rightarrow> m)) (peers c) = peers c"
    by simp
  then have "match_count ?c1 0 = 1 + length (peers c)"
    by (simp add: match_count_def)
  then have "advance_commit ?c1 [0..<1] None = Some 0"
    using assms(2,3,6) by (simp add: match_count_def)
  then show ?thesis
    using assms by (auto simp: handle_ae_res_def slice_from_def send_self_def Let_def)
qed

theorem index_zero_committed_unreplicated_witness:
  "\<exists>c'. handle_ae_res mock_storage demo_world 2 0 demo_ok
      ((demo_node ''n1'' 5 [demo_entry 5])\<lparr>state := Leader, match_index := [2 \<mapsto> 0, 3 \<mapsto> 0]\<rparr>) = Done c'
     \<and> commit_index c' = Some 0"
  by (rule index_zero_committed_unreplicated [where x = "demo_entry 5"])
    (simp_all add: demo_entry_def demo_ok_def INBOX_CAP_def)

end
