(* ===== verification/Log_Storage.thy ===== *)
theory Log_Storage
  imports Consensus_Node
begin

text \<open>
  The file storage of the consensus module, \<^verbatim>\<open>efis/src/storage/consensus.rs\<close>: a metadata file replaced
  by renaming, a log file of length-prefixed records behind a write buffer, and a cache of entries.

  The bincode crate is a record of functions, of which \<^verbatim>\<open>serializer.rs\<close> makes the record \<open>codec\<close>, with the
  locale \<open>binary_codec\<close> for what is used of it; failures of the operating system and the iteration order of
  the cache, a \<^verbatim>\<open>DashMap\<close>, are parameters. The two static variables of the source are part of the state.

  The lemmas show that the file and the buffer together always hold the records of the appended
  entries, that a log file cut at any byte is read as a prefix of those entries, that term and
  vote are durable once stored, and where a restart loses the order of the log.
\<close>

section \<open>Environment and state\<close>

type_synonym octets = "8 word list"

record codec =
  enc_entry :: "LogEntry \<Rightarrow> octets res"
  dec_entry :: "octets \<Rightarrow> LogEntry res"
  enc_meta :: "PersistentState \<Rightarrow> octets res"
  dec_meta :: "octets \<Rightarrow> PersistentState res"
  entry_size :: nat
  cache_iter :: "(nat \<rightharpoonup> LogEntry) \<Rightarrow> LogEntry list"

text \<open>
  \<^verbatim>\<open>encode\<close> and \<^verbatim>\<open>decode\<close> of \<^verbatim>\<open>serializer.rs\<close>: the crate's functions, whatever error they report replaced by
  one text.
\<close>

definition encode :: "('a \<Rightarrow> 'e + octets) \<Rightarrow> 'a \<Rightarrow> octets res" where
  "encode serialize input = (case serialize input of Inr bs \<Rightarrow> Inr bs | Inl _ \<Rightarrow> Inl ''invalid type'')"

definition decode :: "(octets \<Rightarrow> 'e + 'a) \<Rightarrow> octets \<Rightarrow> 'a res" where
  "decode deserialize encoded = (case deserialize encoded of Inr x \<Rightarrow> Inr x | Inl _ \<Rightarrow> Inl ''invalid type'')"

text \<open>The crate at the two types the storage uses, and the codec that comes of it.\<close>

record 'e bincode =
  bin_ser_entry :: "LogEntry \<Rightarrow> 'e + octets"
  bin_de_entry :: "octets \<Rightarrow> 'e + LogEntry"
  bin_ser_meta :: "PersistentState \<Rightarrow> 'e + octets"
  bin_de_meta :: "octets \<Rightarrow> 'e + PersistentState"

definition program_codec :: "'e bincode \<Rightarrow> nat \<Rightarrow> ((nat \<rightharpoonup> LogEntry) \<Rightarrow> LogEntry list) \<Rightarrow> codec" where
  "program_codec bin sz iter =
     \<lparr>enc_entry = encode (bin_ser_entry bin), dec_entry = decode (bin_de_entry bin), enc_meta = encode (bin_ser_meta bin),
      dec_meta = decode (bin_de_meta bin), entry_size = sz, cache_iter = iter\<rparr>"

text \<open>Failures of one call: writing the metadata, renaming it, writing (after some bytes) and syncing the log.\<close>

record log_faults =
  meta_write_fails :: bool
  meta_rename_fails :: bool
  log_write_fails :: "nat option"
  log_sync_fails :: bool

record ConFileStorage =
  meta_file :: "octets option"
  log_file :: octets
  buffer :: octets
  pending_bytes :: nat
  flush_triggered :: bool
  log_cache :: "nat \<rightharpoonup> LogEntry"
  last_cached_index :: nat
  last_metadata :: "PersistentState option"
  flush_count :: nat

definition default_state :: PersistentState where
  "default_state = \<lparr>ps_current_term = 0, ps_voted_for = None, ps_last_applied = None\<rparr>"

section \<open>Records of the log file\<close>

text \<open>\<^verbatim>\<open>u32::to_le_bytes\<close> of a length (cast to 32 bits) and \<^verbatim>\<open>u32::from_le_bytes\<close>.\<close>

definition le_bytes :: "nat \<Rightarrow> octets" where
  "le_bytes n = map (\<lambda>i. word_of_nat (n div 256 ^ i)) [0..<4]"

definition from_le_bytes :: "octets \<Rightarrow> nat" where
  "from_le_bytes bs = (\<Sum>i<4. unat (bs ! i) * 256 ^ i)"

definition frame :: "octets \<Rightarrow> octets" where
  "frame bs = le_bytes (length bs mod 2 ^ 32) @ bs"

text \<open>The reading loop: a length or a body that is cut off ends it, a body that does not decode is an error.\<close>

function read_log :: "codec \<Rightarrow> octets \<Rightarrow> LogEntry list res" where
  "read_log cd bs =
     (if length bs < 4 then Inr []
      else let n = from_le_bytes (take 4 bs); rest = drop 4 bs in
        if length rest < n then Inr []
        else case dec_entry cd (take n rest) of
          Inl err \<Rightarrow> Inl err
        | Inr e \<Rightarrow> map_sum id ((#) e) (read_log cd (drop n rest)))"
  by pat_completeness auto
termination
  by (relation "measure (\<lambda>(cd, bs). length bs)") auto

declare read_log.simps [simp del]

section \<open>The log writer\<close>

definition flush :: "log_faults \<Rightarrow> ConFileStorage \<Rightarrow> unit res \<times> ConFileStorage" where
  "flush io s =
     (if buffer s = [] then (Inr (), s)
      else
        let buf = buffer s; s = s\<lparr>buffer := []\<rparr> in
        case log_write_fails io of
          Some k \<Rightarrow> (Inl ''write failed'', s\<lparr>log_file := log_file s @ take k buf\<rparr>)
        | None \<Rightarrow>
            let s = s\<lparr>log_file := log_file s @ buf\<rparr>;
                count = flush_count s;
                s = s\<lparr>flush_count := usize_add count 1\<rparr>
            in if count mod 10 = 0 \<and> log_sync_fails io then (Inl ''sync failed'', s)
               else (Inr (), s\<lparr>pending_bytes := 0\<rparr>))"

text \<open>\<^verbatim>\<open>start_background_flusher\<close>: a flush at every tick and every notice; a notice is consumed, an error is ignored.\<close>

datatype flush_event = FlushTick log_faults | FlushNotified log_faults

fun background_flusher :: "flush_event list \<Rightarrow> ConFileStorage \<Rightarrow> ConFileStorage" where
  "background_flusher [] s = s"
| "background_flusher (FlushTick io # evs) s = background_flusher evs (snd (flush io s))"
| "background_flusher (FlushNotified io # evs) s =
     (if flush_triggered s then background_flusher evs (snd (flush io (s\<lparr>flush_triggered := False\<rparr>)))
      else background_flusher evs s)"

text \<open>The loop that encodes into the buffer; an error leaves what was already written there.\<close>

fun encode_into :: "codec \<Rightarrow> LogEntry list \<Rightarrow> octets \<Rightarrow> unit res \<times> octets" where
  "encode_into cd [] buf = (Inr (), buf)"
| "encode_into cd (e # es) buf =
     (case enc_entry cd e of Inl err \<Rightarrow> (Inl err, buf) | Inr bs \<Rightarrow> encode_into cd es (buf @ frame bs))"

definition append_batch :: "codec \<Rightarrow> log_faults \<Rightarrow> LogEntry list \<Rightarrow> ConFileStorage \<Rightarrow> unit res \<times> ConFileStorage" where
  "append_batch cd io es s =
     (let total = length es * (entry_size cd + 4);
          (r, s) = (if 1024 * 1024 < pending_bytes s + total then flush io s else (Inr (), s))
      in case r of
        Inl err \<Rightarrow> (Inl err, s)
      | Inr _ \<Rightarrow>
          (case encode_into cd es (buffer s) of
             (Inl err, buf) \<Rightarrow> (Inl err, s\<lparr>buffer := buf\<rparr>)
           | (Inr _, buf) \<Rightarrow>
               (Inr (), s\<lparr>buffer := buf, pending_bytes := pending_bytes s + total,
                         flush_triggered := flush_triggered s \<or> 512 * 1024 < length buf\<rparr>)))"

section \<open>The storage\<close>

definition write_metadata_optimized :: "codec \<Rightarrow> log_faults \<Rightarrow> PersistentState \<Rightarrow> ConFileStorage \<Rightarrow> unit res \<times> ConFileStorage" where
  "write_metadata_optimized cd io p s =
     (case last_metadata s of
        Some l \<Rightarrow>
          if ps_current_term p = ps_current_term l \<and> ps_voted_for p = ps_voted_for l then (Inr (), s)
          else (case enc_meta cd p of
              Inl err \<Rightarrow> (Inl err, s)
            | Inr bs \<Rightarrow>
                if meta_write_fails io \<or> meta_rename_fails io then (Inl ''io error'', s)
                else (Inr (), s\<lparr>meta_file := Some bs, last_metadata := Some p\<rparr>))
      | None \<Rightarrow>
          (case enc_meta cd p of
             Inl err \<Rightarrow> (Inl err, s)
           | Inr bs \<Rightarrow>
               if meta_write_fails io \<or> meta_rename_fails io then (Inl ''io error'', s)
               else (Inr (), s\<lparr>meta_file := Some bs, last_metadata := Some p\<rparr>)))"

definition storage_store :: "codec \<Rightarrow> log_faults \<Rightarrow> PersistentState \<Rightarrow> ConFileStorage \<Rightarrow> unit res \<times> ConFileStorage" where
  "storage_store cd io p s = write_metadata_optimized cd io
     \<lparr>ps_current_term = ps_current_term p, ps_voted_for = ps_voted_for p, ps_last_applied = ps_last_applied p\<rparr> s"

fun cache_from :: "nat \<Rightarrow> LogEntry list \<Rightarrow> (nat \<rightharpoonup> LogEntry) \<Rightarrow> (nat \<rightharpoonup> LogEntry)" where
  "cache_from i [] m = m"
| "cache_from i (e # es) m = cache_from (Suc i) es (m(i \<mapsto> e))"

definition storage_append :: "codec \<Rightarrow> log_faults \<Rightarrow> LogEntry list \<Rightarrow> ConFileStorage \<Rightarrow> unit res \<times> ConFileStorage" where
  "storage_append cd io es s =
     (if es = [] then (Inr (), s)
      else append_batch cd io es
        (s\<lparr>log_cache := cache_from (last_cached_index s) es (log_cache s),
           last_cached_index := last_cached_index s + length es\<rparr>))"

definition read_meta :: "codec \<Rightarrow> ConFileStorage \<Rightarrow> PersistentState res" where
  "read_meta cd s = (case meta_file s of None \<Rightarrow> Inr default_state | Some bs \<Rightarrow> dec_meta cd bs)"

definition storage_restore :: "codec \<Rightarrow> ConFileStorage \<Rightarrow> (PersistentState \<times> LogEntry list) res \<times> ConFileStorage" where
  "storage_restore cd s =
     (let cached = cache_iter cd (log_cache s) in
      case read_meta cd s of
        Inl err \<Rightarrow> (Inl err, s)
      | Inr p \<Rightarrow>
          if cached \<noteq> [] then (Inr (p, cached), s)
          else (case read_log cd (log_file s) of
              Inl err \<Rightarrow> (Inl err, s)
            | Inr ls \<Rightarrow> (Inr (p, ls), s\<lparr>log_cache := cache_from 0 ls (log_cache s), last_cached_index := length ls\<rparr>)))"

definition warm_cache :: "codec \<Rightarrow> ConFileStorage \<Rightarrow> ConFileStorage" where
  "warm_cache cd s =
     (let (r, s) = storage_restore cd s;
          ls = (case r of Inl _ \<Rightarrow> [] | Inr (_, ls) \<Rightarrow> ls);
          start_idx = length ls - 1000
      in s\<lparr>log_cache := cache_from start_idx (drop start_idx ls) (log_cache s), last_cached_index := start_idx + 1000\<rparr>)"

text \<open>\<^verbatim>\<open>ConFileStorage::new\<close> in a new process, on the files an earlier one left.\<close>

definition storage_new :: "codec \<Rightarrow> octets option \<Rightarrow> octets \<Rightarrow> ConFileStorage" where
  "storage_new cd meta log = warm_cache cd
     \<lparr>meta_file = meta, log_file = log, buffer = [], pending_bytes = 0, flush_triggered = False,
      log_cache = Map.empty, last_cached_index = 0, last_metadata = None, flush_count = 0\<rparr>"

text \<open>The storage as the consensus node sees it, when no call of the operating system fails.\<close>

definition no_log_faults :: log_faults where
  "no_log_faults = \<lparr>meta_write_fails = False, meta_rename_fails = False, log_write_fails = None, log_sync_fails = False\<rparr>"

definition file_storage :: "codec \<Rightarrow> log_faults \<Rightarrow> ConFileStorage storage_ops" where
  "file_storage cd io = \<lparr>st_store = storage_store cd io, st_restore = storage_restore cd, st_append = storage_append cd io\<rparr>"

section \<open>Records\<close>

definition entry_bytes :: "codec \<Rightarrow> LogEntry \<Rightarrow> octets" where
  "entry_bytes cd e = (case enc_entry cd e of Inr bs \<Rightarrow> bs | Inl _ \<Rightarrow> [])"

definition encodable :: "codec \<Rightarrow> LogEntry \<Rightarrow> bool" where
  "encodable cd e \<longleftrightarrow> enc_entry cd e = Inr (entry_bytes cd e)"

definition records :: "codec \<Rightarrow> LogEntry list \<Rightarrow> octets" where
  "records cd es = concat (map (\<lambda>e. frame (entry_bytes cd e)) es)"

lemma records_simps [simp]:
  "records cd [] = []" "records cd (e # es) = frame (entry_bytes cd e) @ records cd es"
  "records cd (es @ fs) = records cd es @ records cd fs"
  by (simp_all add: records_def)

lemma length_le_bytes [simp]: "length (le_bytes n) = 4"
  by (simp add: le_bytes_def)

lemma base256_step:
  "n = a * 256 + r \<Longrightarrow> a = b * 256 + s \<Longrightarrow> b = c * 256 + t \<Longrightarrow> n = r + 256 * s + 65536 * t + 16777216 * c" for n :: nat
  by simp

lemma base256:
  "n = n mod 256 + 256 * (n div 256 mod 256) + 65536 * (n div 65536 mod 256) + 16777216 * (n div 16777216)" for n :: nat
proof -
  have d: "n div 65536 = n div 256 div 256" "n div 16777216 = n div 256 div 256 div 256"
    by (simp_all add: div_mult2_eq [symmetric])
  show ?thesis
    unfolding d by (rule base256_step; rule div_mult_mod_eq [symmetric])
qed

lemma le_bytes_list:
  "le_bytes n = [word_of_nat n, word_of_nat (n div 256), word_of_nat (n div 65536), word_of_nat (n div 16777216)]"
proof -
  have "[0..<4] = [0, 1, 2, 3::nat]" by (simp add: upt_rec)
  then show ?thesis by (simp add: le_bytes_def)
qed

lemma from_le_bytes_list:
  "from_le_bytes [a, b, c, d] = unat a + 256 * unat b + 65536 * unat c + 16777216 * unat d"
proof -
  have "{..<4} = {0, 1, 2, 3::nat}" by auto
  then show ?thesis by (simp add: from_le_bytes_def)
qed

lemma from_le_bytes_le: "n < 2 ^ 32 \<Longrightarrow> from_le_bytes (le_bytes n) = n"
proof -
  assume n: "n < 2 ^ 32"
  have u: "unat (word_of_nat m :: 8 word) = m mod 256" for m
    by (simp add: unsigned_of_nat take_bit_eq_mod)
  have "n div 16777216 < 256" using n by (simp add: less_mult_imp_div_less)
  then show ?thesis
    using base256 [of n] by (simp only: le_bytes_list from_le_bytes_list u) simp
qed

lemma encode_into_ok:
  "\<forall>e \<in> set es. encodable cd e \<Longrightarrow> encode_into cd es buf = (Inr (), buf @ records cd es)"
  by (induction es arbitrary: buf) (auto simp: encodable_def)

section \<open>What is used of the encoding\<close>

text \<open>What encodes decodes again, and fits the length field; the metadata always encodes.\<close>

locale binary_codec =
  fixes cd :: codec
  assumes entry_rt: "enc_entry cd e = Inr bs \<Longrightarrow> dec_entry cd bs = Inr e \<and> length bs < 2 ^ 32"
    and meta_rt: "\<exists>bs. enc_meta cd p = Inr bs \<and> dec_meta cd bs = Inr p"
begin

lemma encodable_bytes: "encodable cd e \<Longrightarrow> dec_entry cd (entry_bytes cd e) = Inr e \<and> length (entry_bytes cd e) < 2 ^ 32"
  by (rule entry_rt) (simp add: encodable_def)

lemma read_log_record:
  assumes "encodable cd e"
  shows "read_log cd (frame (entry_bytes cd e) @ rest) = map_sum id ((#) e) (read_log cd rest)"
proof -
  have "length (entry_bytes cd e) < 2 ^ 32" "dec_entry cd (entry_bytes cd e) = Inr e"
    using encodable_bytes [OF assms] by auto
  then show ?thesis
    by (subst read_log.simps) (simp add: frame_def from_le_bytes_le)
qed

lemma read_log_cut:
  assumes "encodable cd e" "k < length (frame (entry_bytes cd e))"
  shows "read_log cd (take k (frame (entry_bytes cd e))) = Inr []"
proof (cases "k < 4")
  case True
  then have "length (take k (frame (entry_bytes cd e))) < 4" by simp
  then show ?thesis by (subst read_log.simps) simp
next
  case False
  have "length (entry_bytes cd e) < 2 ^ 32" using encodable_bytes [OF assms(1)] by auto
  then show ?thesis
    using False assms(2) by (subst read_log.simps) (auto simp: frame_def from_le_bytes_le Let_def)
qed

lemma read_log_prefix:
  "\<forall>e \<in> set es. encodable cd e \<Longrightarrow> \<exists>j. read_log cd (take k (records cd es)) = Inr (take j es)"
proof (induction es arbitrary: k)
  case Nil
  then show ?case by (simp add: read_log.simps [of cd "[]"])
next
  case (Cons e es)
  let ?f = "frame (entry_bytes cd e)"
  show ?case
  proof (cases "k < length ?f")
    case True
    then show ?thesis using read_log_cut [of e k] Cons.prems by (intro exI [of _ 0]) simp
  next
    case False
    obtain j where j: "read_log cd (take (k - length ?f) (records cd es)) = Inr (take j es)"
      using Cons by auto
    have "take k (records cd (e # es)) = ?f @ take (k - length ?f) (records cd es)"
      using False by simp
    then have "read_log cd (take k (records cd (e # es))) = Inr (take (Suc j) (e # es))"
      using read_log_record [of e] j Cons.prems by simp
    then show ?thesis by blast
  qed
qed

lemma read_log_torn:
  assumes "\<forall>x \<in> set es. encodable cd x" "encodable cd e" "4 \<le> k" "k + length rest < length (frame (entry_bytes cd e))"
  shows "read_log cd (records cd es @ take k (frame (entry_bytes cd e)) @ rest) = Inr es"
proof -
  have n: "length (entry_bytes cd e) < 2 ^ 32" using encodable_bytes [OF assms(2)] by simp
  have "read_log cd (take k (frame (entry_bytes cd e)) @ rest) = Inr []"
    using assms(3,4) n by (subst read_log.simps) (auto simp: frame_def from_le_bytes_le Let_def)
  then show ?thesis
    using assms(1) by (induction es) (simp_all add: read_log_record)
qed

lemma read_log_records: "\<forall>e \<in> set es. encodable cd e \<Longrightarrow> read_log cd (records cd es) = Inr es"
  by (induction es) (simp_all add: read_log.simps [of cd "[]"] read_log_record)

end

section \<open>Runs of the log writer\<close>

text \<open>The calls the node and the background task make, in the order the locks admit.\<close>

datatype log_op = AppendOp "LogEntry list" | FlushOp

fun run_log :: "codec \<Rightarrow> log_op list \<Rightarrow> ConFileStorage \<Rightarrow> ConFileStorage" where
  "run_log cd [] s = s"
| "run_log cd (AppendOp es # ops) s = run_log cd ops (snd (storage_append cd no_log_faults es s))"
| "run_log cd (FlushOp # ops) s = run_log cd ops (snd (flush no_log_faults s))"

fun appended :: "log_op list \<Rightarrow> LogEntry list" where
  "appended [] = []"
| "appended (AppendOp es # ops) = es @ appended ops"
| "appended (FlushOp # ops) = appended ops"

lemma flush_bytes: "log_file (snd (flush no_log_faults s)) = log_file s @ buffer s \<and> buffer (snd (flush no_log_faults s)) = []"
  by (simp add: flush_def no_log_faults_def Let_def)

lemma append_bytes:
  assumes "\<forall>e \<in> set es. encodable cd e"
  shows "log_file (snd (storage_append cd no_log_faults es s)) @ buffer (snd (storage_append cd no_log_faults es s))
    = log_file s @ buffer s @ records cd es"
proof -
  have "log_file (snd (append_batch cd no_log_faults es s)) @ buffer (snd (append_batch cd no_log_faults es s))
      = log_file s @ buffer s @ records cd es" for s
    using encode_into_ok [OF assms]
    by (auto simp: append_batch_def Let_def flush_def no_log_faults_def split: if_splits)
  then show ?thesis by (simp add: storage_append_def)
qed

lemma run_log_bytes:
  "\<forall>e \<in> set (appended ops). encodable cd e \<Longrightarrow>
     log_file (run_log cd ops s) @ buffer (run_log cd ops s) = log_file s @ buffer s @ records cd (appended ops)"
proof (induction ops arbitrary: s)
  case (Cons op ops)
  show ?case
  proof (cases op)
    case (AppendOp es)
    let ?s = "snd (storage_append cd no_log_faults es s)"
    have "log_file (run_log cd ops ?s) @ buffer (run_log cd ops ?s) = (log_file ?s @ buffer ?s) @ records cd (appended ops)"
      using Cons AppendOp by simp
    then show ?thesis using append_bytes [of es cd s] Cons.prems AppendOp by simp
  next
    case FlushOp
    then show ?thesis using Cons flush_bytes [of s] by simp
  qed
qed simp

section \<open>The contract of a storage\<close>

text \<open>Between two messages the storage holds the node's term and vote.\<close>

definition durable :: "('s \<Rightarrow> bool) \<Rightarrow> ('s \<Rightarrow> nat \<times> string option) \<Rightarrow> 's Consensus \<Rightarrow> bool" where
  "durable ok saved c \<longleftrightarrow> ok (disk c) \<and> saved (disk c) = (current_term c, voted_for c)"

text \<open>Persisting is one store, followed by at most one append.\<close>

lemma persist_disk:
  fixes c :: "'s Consensus" and so :: "'s storage_ops"
  defines "d \<equiv> snd (st_store so \<lparr>ps_current_term = current_term c, ps_voted_for = voted_for c,
      ps_last_applied = last_applied c\<rparr> (disk c))"
  shows "disk (persist_state so c) \<in> insert d (range (\<lambda>es. snd (st_append so es d)))"
proof -
  have "disk (case st_append so es d of (Inl _, x) \<Rightarrow> c1\<lparr>disk := x\<rparr> | (Inr _, x) \<Rightarrow> c1\<lparr>disk := x, last_persisted_log := n\<rparr>)
      = snd (st_append so es d)" for es n and c1 :: "'s Consensus"
    by (simp split: prod.split sum.split)
  then show ?thesis
    unfolding persist_state_def Let_def d_def by (simp add: case_prod_beta)
qed

text \<open>
  What the safety of elections needs of the trait \<^verbatim>\<open>Storage\<close>: a stored term and vote are what a restart
  would read, and appending entries does not disturb them. \<open>saved\<close> is that reading.
\<close>

locale raft_storage =
  fixes so :: "'s storage_ops"
    and ok :: "'s \<Rightarrow> bool"
    and saved :: "'s \<Rightarrow> nat \<times> string option"
  assumes store_ok: "ok d \<Longrightarrow> ok (snd (st_store so p d)) \<and> saved (snd (st_store so p d)) = (ps_current_term p, ps_voted_for p)"
    and append_ok: "ok d \<Longrightarrow> ok (snd (st_append so es d)) \<and> saved (snd (st_append so es d)) = saved d"
begin

lemma durable_cong: "disk c' = disk c \<Longrightarrow> current_term c' = current_term c \<Longrightarrow> voted_for c' = voted_for c \<Longrightarrow> durable ok saved c' \<longleftrightarrow> durable ok saved c"
  by (simp add: durable_def)

lemma persist_durable: "ok (disk c) \<Longrightarrow> durable ok saved (persist_state so c)"
proof -
  assume i: "ok (disk c)"
  let ?p = "\<lparr>ps_current_term = current_term c, ps_voted_for = voted_for c, ps_last_applied = last_applied c\<rparr>"
  let ?d = "snd (st_store so ?p (disk c))"
  have s: "ok ?d" "saved ?d = (current_term c, voted_for c)" using store_ok [OF i, of ?p] by auto
  have "disk (persist_state so c) \<in> insert ?d (range (\<lambda>es. snd (st_append so es ?d)))"
    by (rule persist_disk)
  then have "ok (disk (persist_state so c)) \<and> saved (disk (persist_state so c)) = (current_term c, voted_for c)"
    using s append_ok [OF s(1)] by auto
  then show ?thesis by (simp add: durable_def)
qed

lemma become_follower_durable: "ok (disk c) \<Longrightarrow> durable ok saved (become_follower so w t c)"
proof -
  assume "ok (disk c)"
  then have "durable ok saved (persist_state so (c\<lparr>state := Follower, current_term := t, voted_for := None, leader_id := None,
      election_reset_event := Some (now w)\<rparr>))"
    by (intro persist_durable) simp
  then show ?thesis by (simp add: become_follower_def spawn_election_timer_def durable_def)
qed

lemma durable_ok: "durable ok saved c \<Longrightarrow> ok (disk c)"
  by (simp add: durable_def)

lemma send_self_durable: "send_self m c = Done c' \<Longrightarrow> durable ok saved c' \<longleftrightarrow> durable ok saved c"
  by (auto simp: durable_def dest!: send_self_Done)

lemma ae_follow_durable: "durable ok saved c \<Longrightarrow> durable ok saved (ae_follow so w req c)"
  using become_follower_durable [OF durable_ok, of c w "ae_term req"]
  by (auto simp: ae_follow_def Let_def durable_def)

lemma ae_commit_durable: "ae_commit req c = Done c' \<Longrightarrow> durable ok saved c' \<longleftrightarrow> durable ok saved c"
  by (auto simp: ae_commit_def Let_def durable_def split: option.splits if_splits dest!: send_self_Done)

lemma send_leader_aes_disk: "disk (send_leader_aes c) = disk c"
proof -
  have "disk (fold send_ae_to ps c) = disk c" for ps
    by (induction ps arbitrary: c) (simp_all add: send_ae_to_def Let_def)
  then show ?thesis by (simp add: send_leader_aes_def)
qed

lemma request_vote_durable:
  assumes "request_vote so w req c = (r, c')" "durable ok saved c"
  shows "durable ok saved c'"
proof -
  let ?c1 = "if current_term c < rv_term req then become_follower so w (rv_term req) c else c"
  have d1: "durable ok saved ?c1"
    using assms(2) become_follower_durable [OF durable_ok [OF assms(2)]] by simp
  have "c' = c \<or> c' = ?c1 \<or> c' = persist_state so (?c1\<lparr>voted_for := Some (rv_candidate_id req), election_reset_event := Some (now w)\<rparr>)"
    using assms(1) by (simp add: request_vote_def Let_def split: if_splits)
  moreover have "durable ok saved (persist_state so (?c1\<lparr>voted_for := Some (rv_candidate_id req), election_reset_event := Some (now w)\<rparr>))"
    using durable_ok [OF d1] by (intro persist_durable) simp
  ultimately show ?thesis using assms(2) d1 by blast
qed

lemma append_entries_durable:
  assumes "append_entries so w req c = Done (r, c')" "durable ok saved c"
  shows "durable ok saved c'"
proof -
  let ?c1 = "ae_follow so w req c"
  have d1: "durable ok saved ?c1" using assms(2) by (rule ae_follow_durable)
  have "c' = c \<or> c' = ?c1 \<or> c' = ?c1\<lparr>election_reset_event := Some (now w)\<rparr>
      \<or> (\<exists>es c2. ae_commit req (?c1\<lparr>election_reset_event := Some (now w), logs := es\<rparr>) = Done c2
            \<and> c' = persist_state so (c2\<lparr>log_index := length (logs c2)\<rparr>))"
    using assms(1) by (auto simp: append_entries_def Let_def run_simps split: if_splits)
  moreover have "durable ok saved (persist_state so (c2\<lparr>log_index := length (logs c2)\<rparr>))"
    if "ae_commit req (?c1\<lparr>election_reset_event := Some (now w), logs := es\<rparr>) = Done c2" for es c2
  proof -
    have "durable ok saved c2" using ae_commit_durable [OF that] d1 by (simp add: durable_def)
    then show ?thesis by (intro persist_durable) (simp add: durable_def)
  qed
  ultimately show ?thesis using assms(2) d1 by (auto simp: durable_def)
qed

lemma handle_ae_res_durable:
  "handle_ae_res so w p ni reply c = Done c' \<Longrightarrow> durable ok saved c \<Longrightarrow> durable ok saved c'"
  using become_follower_durable [OF durable_ok, of c w "aer_term reply"]
  by (auto simp: handle_ae_res_def Let_def run_simps durable_def split: if_splits dest!: send_self_Done)

lemma vote_result_durable:
  "vote_result so w t v c = Done c' \<Longrightarrow> durable ok saved c \<Longrightarrow> durable ok saved c'"
  using become_follower_durable [OF durable_ok, of c w t]
  by (auto simp: vote_result_def start_leader_def Let_def run_simps durable_def split: if_splits dest!: send_self_Done)

lemma start_election_durable: "durable ok saved c \<Longrightarrow> durable ok saved (start_election so w c)"
proof -
  assume "durable ok saved c"
  then have "durable ok saved (persist_state so (c\<lparr>heartbeat_handle := False, state := Candidate,
      current_term := usize_add (current_term c) 1, election_reset_event := Some (now w), voted_for := Some (node_id c)\<rparr>))"
    by (intro persist_durable) (simp add: durable_def)
  then show ?thesis by (simp add: start_election_def Let_def durable_def)
qed

lemma submit_entry_durable: "submit_entry so cmd c = Done c' \<Longrightarrow> durable ok saved c \<Longrightarrow> durable ok saved c'"
  by (auto simp: submit_entry_def Let_def run_simps durable_def intro!: persist_durable [unfolded durable_def] dest!: send_self_Done)

lemma handle_msg_durable:
  assumes "handle_msg so w m c = Done c'" "durable ok saved c"
  shows "durable ok saved c'"
proof (cases m)
  case (RequestVoteMsg req tx)
  then obtain r c1 where "request_vote so w req c = (r, c1)" "c' = c1\<lparr>answers := answers c1 @ [AnswerVote tx r]\<rparr>"
    using assms(1) by (auto split: prod.splits)
  then show ?thesis using request_vote_durable assms(2) by (auto simp: durable_def)
next
  case (AppendEntryMsg req tx)
  then obtain r c1 where "append_entries so w req c = Done (r, c1)" "c' = c1\<lparr>answers := answers c1 @ [AnswerAppend tx r]\<rparr>"
    using assms(1) by (auto simp: run_simps)
  then show ?thesis using append_entries_durable assms(2) by (auto simp: durable_def)
next
  case SendCommit
  then show ?thesis
    using assms by (auto simp: send_commits_def Let_def run_simps durable_def split: option.splits if_splits)
next
  case SendAES
  then show ?thesis using assms by (auto simp: durable_def send_leader_aes_disk)
qed (use assms in \<open>auto split: if_splits option.splits intro: start_election_durable
    dest: submit_entry_durable handle_ae_res_durable vote_result_durable\<close>)

lemma node_run_durable: "node_run so c c' \<Longrightarrow> durable ok saved c \<Longrightarrow> durable ok saved c'"
proof (induction rule: node_run.induct)
  case (step c c' c'')
  then have d: "durable ok saved c'" by blast
  from step.hyps(3) show ?case
  proof (rule node_stepE)
    fix m ms w
    assume "handle_msg so w m (c'\<lparr>inbox := ms\<rparr>) = Done c''"
    then show ?thesis using handle_msg_durable d by (auto simp: durable_def)
  qed (use d in \<open>simp add: durable_def\<close>)
qed

end

text \<open>
  A storage that is opened again after a crash: \<open>reboot\<close> relates what the old process left to what the
  new one finds, and restoring from it gives the term and the vote that were saved.
\<close>

locale rebooting_storage = raft_storage so ok saved
  for so :: "'s storage_ops" and ok :: "'s \<Rightarrow> bool" and saved :: "'s \<Rightarrow> nat \<times> string option" +
  fixes reboot :: "'s \<Rightarrow> 's \<Rightarrow> bool"
  assumes reboot_ok: "ok d \<Longrightarrow> reboot d d' \<Longrightarrow> st_restore so d' = (r, d'') \<Longrightarrow> ok d'' \<and> saved d'' = saved d
    \<and> saved d = (case r of Inl _ \<Rightarrow> (0, None) | Inr (p, _) \<Rightarrow> (ps_current_term p, ps_voted_for p))"
begin

lemma consensus_new_durable:
  assumes "ok d" "reboot d d'"
  shows "durable ok saved (consensus_new so i d')"
    and "(current_term (consensus_new so i d'), voted_for (consensus_new so i d')) = saved d"
proof -
  obtain r d'' where r: "st_restore so d' = (r, d'')" by fastforce
  show "durable ok saved (consensus_new so i d')"
    "(current_term (consensus_new so i d'), voted_for (consensus_new so i d')) = saved d"
    using reboot_ok [OF assms r] r
    by (auto simp: durable_def consensus_new_def restore_state_def Let_def split: sum.splits)
qed

end

section \<open>The file storage keeps the contract\<close>

text \<open>What a restart would find as term and vote; where the file does not decode, \<^verbatim>\<open>restore_state\<close> starts from term 0.\<close>

definition saved_meta :: "codec \<Rightarrow> ConFileStorage \<Rightarrow> nat \<times> string option" where
  "saved_meta cd s = (case read_meta cd s of Inl _ \<Rightarrow> (0, None) | Inr p \<Rightarrow> (ps_current_term p, ps_voted_for p))"

text \<open>The remembered metadata, which decides whether a write is skipped, agrees with the file.\<close>

definition meta_ok :: "codec \<Rightarrow> ConFileStorage \<Rightarrow> bool" where
  "meta_ok cd s \<longleftrightarrow> (\<forall>p. last_metadata s = Some p \<longrightarrow> saved_meta cd s = (ps_current_term p, ps_voted_for p))"

lemma append_keeps_meta [simp]:
  "meta_file (snd (storage_append cd io es s)) = meta_file s"
  "last_metadata (snd (storage_append cd io es s)) = last_metadata s"
proof -
  have f: "meta_file (snd (flush io s)) = meta_file s \<and> last_metadata (snd (flush io s)) = last_metadata s" for s
    by (simp add: flush_def Let_def split: option.split)
  have "meta_file (snd (append_batch cd io es s)) = meta_file s \<and> last_metadata (snd (append_batch cd io es s)) = last_metadata s" for s
    using f [of s] by (simp add: append_batch_def Let_def case_prod_beta split: sum.split prod.split)
  then show "meta_file (snd (storage_append cd io es s)) = meta_file s"
    "last_metadata (snd (storage_append cd io es s)) = last_metadata s"
    by (simp_all add: storage_append_def)
qed

lemma storage_new_meta [simp]:
  "meta_file (storage_new cd meta log) = meta" "last_metadata (storage_new cd meta log) = None"
  "log_file (storage_new cd meta log) = log" "buffer (storage_new cd meta log) = []"
  by (simp_all add: storage_new_def warm_cache_def storage_restore_def Let_def case_prod_beta split: sum.split)

lemma meta_ok_fresh: "meta_ok cd (storage_new cd meta log)"
  by (simp add: meta_ok_def)

lemma no_log_faults_fields [simp]:
  "\<not> meta_write_fails no_log_faults" "\<not> meta_rename_fails no_log_faults"
  "log_write_fails no_log_faults = None" "\<not> log_sync_fails no_log_faults"
  by (simp_all add: no_log_faults_def)

text \<open>A store is skipped when the remembered term and vote are the same, and writes the file otherwise.\<close>

lemma storage_store_cases:
  assumes "enc_meta cd p = Inr bs"
  shows "storage_store cd no_log_faults p s =
    (case last_metadata s of
       Some l \<Rightarrow> if ps_current_term p = ps_current_term l \<and> ps_voted_for p = ps_voted_for l then (Inr (), s)
                 else (Inr (), s\<lparr>meta_file := Some bs, last_metadata := Some p\<rparr>)
     | None \<Rightarrow> (Inr (), s\<lparr>meta_file := Some bs, last_metadata := Some p\<rparr>))"
proof -
  have "storage_store cd no_log_faults p s = write_metadata_optimized cd no_log_faults p s"
    by (cases p) (simp add: storage_store_def)
  then show ?thesis
    using assms by (simp add: write_metadata_optimized_def split: option.split)
qed

text \<open>
  The crate reads back what it wrote, a record fits the length field, and the metadata, which has
  only numbers and a short text, always encodes: then the codec of the program keeps the contract.
\<close>

lemma program_codec_law:
  assumes "\<And>e bs. bin_ser_entry bin e = Inr bs \<Longrightarrow> bin_de_entry bin bs = Inr e \<and> length bs < 2 ^ 32"
    and "\<And>p. \<exists>bs. bin_ser_meta bin p = Inr bs \<and> bin_de_meta bin bs = Inr p"
  shows "binary_codec (program_codec bin sz iter)"
proof unfold_locales
  show "enc_entry (program_codec bin sz iter) e = Inr bs \<Longrightarrow> dec_entry (program_codec bin sz iter) bs = Inr e \<and> length bs < 2 ^ 32"
    for e bs using assms(1) [of e bs] by (auto simp: program_codec_def encode_def decode_def split: sum.splits)
  show "\<exists>bs. enc_meta (program_codec bin sz iter) p = Inr bs \<and> dec_meta (program_codec bin sz iter) bs = Inr p"
    for p using assms(2) [of p] by (auto simp: program_codec_def encode_def decode_def)
qed

text \<open>Bytes the crate cannot read are an error, whose text does not say why.\<close>

lemma decode_error: "deserialize bs = Inl e \<Longrightarrow> decode deserialize bs = Inl ''invalid type''"
  by (simp add: decode_def)

sublocale binary_codec \<subseteq> fs: raft_storage "file_storage cd no_log_faults" "meta_ok cd" "saved_meta cd"
proof unfold_locales
  fix d :: ConFileStorage and p
  assume ok: "meta_ok cd d"
  obtain bs where "enc_meta cd p = Inr bs" "dec_meta cd bs = Inr p" using meta_rt by blast
  then show "meta_ok cd (snd (st_store (file_storage cd no_log_faults) p d))
    \<and> saved_meta cd (snd (st_store (file_storage cd no_log_faults) p d)) = (ps_current_term p, ps_voted_for p)"
    using ok by (auto simp: file_storage_def storage_store_cases meta_ok_def saved_meta_def read_meta_def split: option.split)
next
  fix d :: ConFileStorage and es
  assume "meta_ok cd d"
  then show "meta_ok cd (snd (st_append (file_storage cd no_log_faults) es d))
    \<and> saved_meta cd (snd (st_append (file_storage cd no_log_faults) es d)) = saved_meta cd d"
    by (simp add: file_storage_def meta_ok_def saved_meta_def read_meta_def)
qed

context binary_codec
begin

lemma file_run_durable:
  "node_run (file_storage cd no_log_faults) c c' \<Longrightarrow> durable (meta_ok cd) (saved_meta cd) c \<Longrightarrow> durable (meta_ok cd) (saved_meta cd) c'"
  by (rule fs.node_run_durable)

lemma log_cut_prefix:
  assumes "\<forall>e \<in> set (appended ops). encodable cd e" "log_file s = []" "buffer s = []"
  shows "\<exists>j. read_log cd (take k (log_file (run_log cd ops s))) = Inr (take j (appended ops))"
proof -
  let ?s = "run_log cd ops s"
  have b: "log_file ?s @ buffer ?s = records cd (appended ops)" using run_log_bytes [OF assms(1), of s] assms by simp
  have "take k (log_file ?s) = take (min k (length (log_file ?s))) (log_file ?s @ buffer ?s)" by (simp add: min_def)
  then have "take k (log_file ?s) = take (min k (length (log_file ?s))) (records cd (appended ops))" by (simp only: b)
  then show ?thesis using read_log_prefix [OF assms(1), of "min k (length (log_file ?s))"] by simp
qed

lemma log_flushed:
  assumes "\<forall>e \<in> set (appended ops). encodable cd e" "log_file s = []" "buffer s = []"
  shows "read_log cd (log_file (snd (flush no_log_faults (run_log cd ops s)))) = Inr (appended ops)"
  using run_log_bytes [OF assms(1), of s] flush_bytes [of "run_log cd ops s"] read_log_records [OF assms(1)] assms by simp

end

text \<open>The storage of the tests keeps the contract as well.\<close>

interpretation mock: raft_storage mock_storage "\<lambda>_. True" "\<lambda>d. (ps_current_term (fst d), ps_voted_for (fst d))"
  by unfold_locales (simp_all add: mock_storage_def)

section \<open>Restarting\<close>

lemma cache_from_lookup:
  "cache_from i es m j = (if i \<le> j \<and> j < i + length es then Some (es ! (j - i)) else m j)"
  by (induction es arbitrary: i m) (auto simp: nth_Cons' Suc_diff_Suc)

definition log_map :: "LogEntry list \<Rightarrow> nat \<rightharpoonup> LogEntry" where
  "log_map ls j = (if j < length ls then Some (ls ! j) else None)"

lemma cache_from_log_map: "cache_from 0 ls Map.empty = log_map ls"
  by (rule ext) (simp add: cache_from_lookup log_map_def)

lemma cache_from_again: "cache_from k (drop k ls) (log_map ls) = log_map ls"
  by (rule ext) (auto simp: cache_from_lookup log_map_def)

lemma dom_log_map: "dom (log_map ls) = {..<length ls}"
  by (auto simp: log_map_def dom_def)

text \<open>Iterating over a \<^verbatim>\<open>DashMap\<close> yields every entry once, in an order the caller does not control.\<close>

definition some_order :: "codec \<Rightarrow> bool" where
  "some_order cd \<longleftrightarrow> (\<forall>m. finite (dom m) \<longrightarrow>
     (\<exists>ks. distinct ks \<and> set ks = dom m \<and> cache_iter cd m = map (\<lambda>k. the (m k)) ks))"

lemma some_order_log_map:
  assumes "some_order cd"
  shows "mset (cache_iter cd (log_map ls)) = mset ls"
proof -
  obtain ks where ks: "distinct ks" "set ks = {..<length ls}"
    and i: "cache_iter cd (log_map ls) = map (\<lambda>k. the (log_map ls k)) ks"
    using assms unfolding some_order_def by (auto simp: dom_log_map dest!: spec [of _ "log_map ls"])
  have "set ks = set [0..<length ls]" by (simp only: ks(2) set_upt atLeast0LessThan)
  then have "mset ks = mset [0..<length ls]"
    by (rule set_eq_iff_mset_eq_distinct [OF ks(1) distinct_upt, THEN iffD1])
  then have "mset (map (\<lambda>k. the (log_map ls k)) ks) = mset (map (\<lambda>k. the (log_map ls k)) [0..<length ls])"
    unfolding mset_map by (rule arg_cong)
  moreover have "map (\<lambda>k. the (log_map ls k)) [0..<length ls] = ls"
    by (rule nth_equalityI) (simp_all add: log_map_def)
  ultimately show ?thesis unfolding i by (simp only:)
qed

lemma storage_new_cache:
  assumes "some_order cd" "read_log cd log = Inr ls" "read_meta cd (storage_new cd meta log) = Inr p"
  shows "log_cache (storage_new cd meta log) = log_map ls"
proof -
  let ?s = "\<lparr>meta_file = meta, log_file = log, buffer = [], pending_bytes = 0, flush_triggered = False,
      log_cache = Map.empty, last_cached_index = 0, last_metadata = None, flush_count = 0\<rparr>"
  have "cache_iter cd Map.empty = []"
    using some_order_log_map [OF assms(1), of "[]"] by (simp add: log_map_def [abs_def])
  moreover have "read_meta cd ?s = Inr p"
    using assms(3) by (simp add: read_meta_def)
  ultimately have "storage_restore cd ?s = (Inr (p, ls), ?s\<lparr>log_cache := log_map ls, last_cached_index := length ls\<rparr>)"
    using assms(2) by (simp add: storage_restore_def cache_from_log_map)
  then show ?thesis
    by (simp add: storage_new_def warm_cache_def cache_from_again)
qed

lemma restored_term_vote:
  fixes cd io meta log i
  defines "d \<equiv> storage_new cd meta log" and "c \<equiv> consensus_new (file_storage cd io) i (storage_new cd meta log)"
  assumes "read_log cd log = Inr ls"
  shows "durable (meta_ok cd) (saved_meta cd) c" and "(current_term c, voted_for c) = saved_meta cd d"
proof -
  have "current_term c = fst (saved_meta cd d) \<and> voted_for c = snd (saved_meta cd d)
      \<and> meta_file (disk c) = meta_file d \<and> last_metadata (disk c) = None"
    using assms(3) unfolding c_def d_def
    by (simp add: consensus_new_def restore_state_def file_storage_def storage_restore_def saved_meta_def read_meta_def
        Let_def split: sum.split option.split)
  then show "durable (meta_ok cd) (saved_meta cd) c" "(current_term c, voted_for c) = saved_meta cd d"
    by (auto simp: durable_def meta_ok_def saved_meta_def read_meta_def)
qed

lemma restored_logs:
  assumes "some_order cd" "read_log cd log = Inr ls" "read_meta cd (storage_new cd meta log) = Inr p"
  shows "logs (consensus_new (file_storage cd io) i (storage_new cd meta log)) = cache_iter cd (log_map ls)"
proof -
  have n: "cache_iter cd (log_map ls) = [] \<Longrightarrow> ls = []"
    using some_order_log_map [OF assms(1), of ls] by simp
  show ?thesis
    using assms(2,3) n storage_new_cache [OF assms]
    by (auto simp: consensus_new_def restore_state_def file_storage_def storage_restore_def Let_def)
qed

text \<open>A new process on the metadata file and on a log file that can be read, whole or cut.\<close>

definition file_reboot :: "codec \<Rightarrow> ConFileStorage \<Rightarrow> ConFileStorage \<Rightarrow> bool" where
  "file_reboot cd d d' \<longleftrightarrow> (\<exists>log ls. read_log cd log = Inr ls \<and> d' = storage_new cd (meta_file d) log)"

sublocale binary_codec \<subseteq> fs: rebooting_storage "file_storage cd no_log_faults" "meta_ok cd" "saved_meta cd" "file_reboot cd"
proof unfold_locales
  fix d d' d'' :: ConFileStorage and r
  assume "file_reboot cd d d'"
  then obtain log ls where l: "read_log cd log = Inr ls" and d': "d' = storage_new cd (meta_file d) log"
    by (auto simp: file_reboot_def)
  assume "st_restore (file_storage cd no_log_faults) d' = (r, d'')"
  then show "meta_ok cd d'' \<and> saved_meta cd d'' = saved_meta cd d
    \<and> saved_meta cd d = (case r of Inl _ \<Rightarrow> (0, None) | Inr (p, _) \<Rightarrow> (ps_current_term p, ps_voted_for p))"
    using l unfolding d'
    by (auto simp: file_storage_def storage_restore_def meta_ok_def saved_meta_def read_meta_def Let_def
        split: sum.splits option.splits if_splits)
qed

interpretation mock: rebooting_storage mock_storage "\<lambda>_. True" "\<lambda>d. (ps_current_term (fst d), ps_voted_for (fst d))" "(=)"
  by unfold_locales (auto simp: mock_storage_def)

context binary_codec
begin

lemma rebooting: "rebooting_storage (file_storage cd no_log_faults) (meta_ok cd) (saved_meta cd) (file_reboot cd)"
  by (rule fs.rebooting_storage_axioms)

end

section \<open>An encoding that satisfies the laws\<close>

text \<open>
  An instance of the parameters: entries as the text of the wire protocol, where that text reads
  back, metadata as a prefix code, and a cache that is iterated from the highest index down.
\<close>

definition text_octets :: "string \<Rightarrow> octets" where
  "text_octets = map (\<lambda>c. word_of_nat (of_char c))"

definition octets_text :: "octets \<Rightarrow> string" where
  "octets_text = map (\<lambda>b. char_of (unat b))"

definition dec_text :: "octets \<Rightarrow> LogEntry res" where
  "dec_text bs = (case de_LogEntry bits_text (octets_text bs) of Done r \<Rightarrow> r | _ \<Rightarrow> Inl ''invalid type'')"

definition enc_text :: "LogEntry \<Rightarrow> octets res" where
  "enc_text e = (let bs = text_octets (ser_LogEntry bits_text e) in
     if dec_text bs = Inr e \<and> length bs < 2 ^ 32 then Inr bs else Inl ''invalid type'')"

fun take_nat :: "octets \<Rightarrow> nat \<times> octets" where
  "take_nat [] = (0, [])"
| "take_nat (b # bs) = (if b = 0 then (0, bs) else apfst Suc (take_nat bs))"

fun take_text :: "octets \<Rightarrow> string \<times> octets" where
  "take_text (b # c # bs) = (if b = 0 then ([], c # bs) else apfst ((#) (char_of (unat c))) (take_text bs))"
| "take_text bs = ([], tl bs)"

definition put_nat :: "nat \<Rightarrow> octets" where
  "put_nat n = replicate n 1 @ [0]"

definition put_text :: "string \<Rightarrow> octets" where
  "put_text s = concat (map (\<lambda>c. [1, word_of_nat (of_char c)]) s) @ [0]"

definition put_meta :: "PersistentState \<Rightarrow> octets res" where
  "put_meta p = Inr (put_nat (ps_current_term p)
     @ (case ps_voted_for p of None \<Rightarrow> [0] | Some v \<Rightarrow> 1 # put_text v)
     @ (case ps_last_applied p of None \<Rightarrow> [0] | Some a \<Rightarrow> 1 # put_nat a))"

definition take_meta :: "octets \<Rightarrow> PersistentState res" where
  "take_meta bs =
     (let (t, bs) = take_nat bs;
          (v, bs) = (if hd bs = 0 then (None, tl bs) else apfst Some (take_text (tl bs)));
          a = (if hd bs = 0 then None else Some (fst (take_nat (tl bs))))
      in Inr \<lparr>ps_current_term = t, ps_voted_for = v, ps_last_applied = a\<rparr>)"

definition demo_codec :: codec where
  "demo_codec = \<lparr>enc_entry = enc_text, dec_entry = dec_text, enc_meta = put_meta, dec_meta = take_meta, entry_size = 40,
     cache_iter = (\<lambda>m. map (\<lambda>k. the (m k)) (rev (sorted_list_of_set (dom m))))\<rparr>"

lemma demo_codec_fields [simp]:
  "enc_entry demo_codec = enc_text" "dec_entry demo_codec = dec_text" "enc_meta demo_codec = put_meta"
  "dec_meta demo_codec = take_meta" "entry_size demo_codec = 40"
  "cache_iter demo_codec = (\<lambda>m. map (\<lambda>k. the (m k)) (rev (sorted_list_of_set (dom m))))"
  by (simp_all add: demo_codec_def)

lemma take_put_nat: "take_nat (put_nat n @ bs) = (n, bs)"
  by (induction n) (simp_all add: put_nat_def)

lemma octet_char: "char_of (unat (word_of_nat (of_char c) :: 8 word)) = c"
  by (simp add: unsigned_of_nat char_of_take_bit_eq)

lemma take_put_text: "take_text (put_text s @ b # bs) = (s, b # bs)"
  by (induction s) (simp_all add: put_text_def octet_char)

lemma take_put_meta: "put_meta p = Inr bs \<Longrightarrow> take_meta bs = Inr p"
  by (cases p; cases "ps_voted_for p"; cases "ps_last_applied p")
    (auto simp: put_meta_def take_meta_def take_put_nat take_put_nat [of _ "[]", simplified] take_put_text)

interpretation demo: binary_codec demo_codec
proof unfold_locales
  show "enc_entry demo_codec e = Inr bs \<Longrightarrow> dec_entry demo_codec bs = Inr e \<and> length bs < 2 ^ 32" for e bs
    by (auto simp: enc_text_def Let_def split: if_splits)
  show "\<exists>bs. enc_meta demo_codec p = Inr bs \<and> dec_meta demo_codec bs = Inr p" for p
  proof -
    obtain bs where "put_meta p = Inr bs" by (simp add: put_meta_def)
    then show ?thesis using take_put_meta by auto
  qed
qed

lemma demo_codec_law: "binary_codec demo_codec"
  by (rule demo.binary_codec_axioms)

lemma demo_some_order: "some_order demo_codec"
  unfolding some_order_def
proof (intro allI impI)
  fix m :: "nat \<rightharpoonup> LogEntry"
  assume "finite (dom m)"
  then show "\<exists>ks. distinct ks \<and> set ks = dom m \<and> cache_iter demo_codec m = map (\<lambda>k. the (m k)) ks"
    by (intro exI [of _ "rev (sorted_list_of_set (dom m))"]) simp
qed

lemma octets_text_octets [simp]: "octets_text (text_octets t) = t"
  by (induction t) (simp_all add: octets_text_def text_octets_def octet_char)

lemma enc_text_wf:
  "wf_LogEntry bits_text e \<Longrightarrow> length (ser_LogEntry bits_text e) < 2 ^ 32 \<Longrightarrow> enc_text e = Inr (text_octets (ser_LogEntry bits_text e))"
  using bits.rt_LogEntry [of e] by (simp add: enc_text_def dec_text_def) (simp add: text_octets_def)

lemma ser_demo_entry:
  "ser_LogEntry bits_text (demo_entry 2) = ''{command=Unknown term=2}''"
  "ser_LogEntry bits_text (demo_entry 3) = ''{command=Unknown term=3}''"
  by code_simp+

lemma enc_demo_entry:
  "enc_text (demo_entry 2) = Inr (text_octets ''{command=Unknown term=2}'')"
  "enc_text (demo_entry 3) = Inr (text_octets ''{command=Unknown term=3}'')"
  using enc_text_wf [of "demo_entry 2"] enc_text_wf [of "demo_entry 3"]
  unfolding ser_demo_entry by (simp_all add: wf_LogEntry_def demo_entry_def usize_max_def)

lemma demo_entry_bytes:
  "entry_bytes demo_codec (demo_entry 2) = text_octets ''{command=Unknown term=2}''"
  "entry_bytes demo_codec (demo_entry 3) = text_octets ''{command=Unknown term=3}''"
  by (simp_all add: entry_bytes_def enc_demo_entry)

lemma demo_encodable: "encodable demo_codec (demo_entry 2)" "encodable demo_codec (demo_entry 3)"
  by (simp_all add: encodable_def demo_entry_bytes enc_demo_entry)

definition long_entry :: LogEntry where
  "long_entry = \<lparr>le_command = Delete \<lparr>get_key = ''a long key''\<rparr>, le_term = 2\<rparr>"

lemma long_entry_bytes:
  "entry_bytes demo_codec long_entry = text_octets (ser_LogEntry bits_text long_entry)"
  "encodable demo_codec long_entry" "length (ser_LogEntry bits_text long_entry) = 43"
proof -
  have s: "ser_LogEntry bits_text long_entry = ''{command=Delete({key='' @ [CHR 0x22] @ ''a long key'' @ [CHR 0x22] @ ''}) term=2}''"
    by code_simp
  have "wf_LogEntry bits_text long_entry"
    by (simp add: wf_LogEntry_def long_entry_def wf_GetReq_def wf_eval parens_ok_def ser_GetReq_def ser_struct_def usize_max_def)
  then have e: "enc_text long_entry = Inr (text_octets (ser_LogEntry bits_text long_entry))"
    by (rule enc_text_wf) (simp add: s)
  then show b: "entry_bytes demo_codec long_entry = text_octets (ser_LogEntry bits_text long_entry)"
    by (simp add: entry_bytes_def)
  show "encodable demo_codec long_entry" by (simp add: encodable_def b e)
  show "length (ser_LogEntry bits_text long_entry) = 43" by (simp add: s)
qed

lemma read_log_empty: "read_log cd [] = Inr []"
  by (simp add: read_log.simps)

text \<open>A node started on empty files.\<close>

definition fresh_node :: "string \<Rightarrow> ConFileStorage Consensus" where
  "fresh_node i = consensus_new (file_storage demo_codec no_log_faults) i (storage_new demo_codec None [])"

lemma fresh_node_fields [simp]:
  "current_term (fresh_node i) = 0" "voted_for (fresh_node i) = None" "logs (fresh_node i) = []" "state (fresh_node i) = Follower"
  "inbox (fresh_node i) = []" "calls (fresh_node i) = []" "answers (fresh_node i) = []" "node_id (fresh_node i) = i"
  "rx_closed (fresh_node i) = False"
  unfolding fresh_node_def
  using restored_term_vote(2) [OF read_log_empty, of demo_codec no_log_faults i None]
    restored_logs [OF demo_some_order read_log_empty, of None default_state]
  by (simp_all add: saved_meta_def read_meta_def default_state_def log_map_def dom_def)
    (simp_all add: consensus_new_def restore_state_def Let_def split: prod.split sum.split)

lemma fresh_node_durable: "durable (meta_ok demo_codec) (saved_meta demo_codec) (fresh_node i)"
  unfolding fresh_node_def by (rule restored_term_vote(1) [OF read_log_empty])

section \<open>Properties\<close>

text \<open>
  C10. Promises survive a restart. A node that starts on any readable files, runs, and is restarted
  on the metadata file it left, with any log file that can be read, comes back with the term and
  the vote it had, and in all runs after the restart its term does not go below what it was and a
  vote of the same term is not changed.
\<close>

theorem restart_keeps_term_and_vote:
  fixes cd :: codec
  defines "so \<equiv> file_storage cd no_log_faults"
  assumes "binary_codec cd" "read_log cd log = Inr ls" "read_log cd log' = Inr ls'"
    and "node_run so (consensus_new so i (storage_new cd meta log)) c"
    and "node_run so (consensus_new so i (storage_new cd (meta_file (disk c)) log')) c'"
  shows "current_term (consensus_new so i (storage_new cd (meta_file (disk c)) log')) = current_term c
    \<and> voted_for (consensus_new so i (storage_new cd (meta_file (disk c)) log')) = voted_for c
    \<and> current_term c \<le> current_term c'
    \<and> (current_term c' = current_term c \<and> voted_for c \<noteq> None \<longrightarrow> voted_for c' = voted_for c)"
proof -
  let ?n = "consensus_new so i (storage_new cd (meta_file (disk c)) log')"
  have "durable (meta_ok cd) (saved_meta cd) c"
    using binary_codec.file_run_durable [OF assms(2)] restored_term_vote(1) [OF assms(3)] assms(5) unfolding so_def by blast
  moreover have "saved_meta cd (storage_new cd (meta_file (disk c)) log') = saved_meta cd (disk c)"
    by (simp add: saved_meta_def read_meta_def)
  ultimately have "(current_term ?n, voted_for ?n) = (current_term c, voted_for c)"
    using restored_term_vote(2) [OF assms(4)] unfolding so_def by (simp add: durable_def)
  then have n: "current_term ?n = current_term c" "voted_for ?n = voted_for c" by simp_all
  have "current_term c < current_term c' \<or> current_term c = current_term c' \<and> (voted_for c = None \<or> voted_for c' = voted_for c)"
    using node_run_term [OF assms(6)] unfolding term_vote_le_def n .
  then show ?thesis unfolding n by (intro conjI refl; linarith)
qed

theorem restart_keeps_term_and_vote_witness:
  "\<exists>c. node_run (file_storage demo_codec no_log_faults) (fresh_node ''n1'') c
     \<and> voted_for c = Some ''n2''
     \<and> voted_for (consensus_new (file_storage demo_codec no_log_faults) ''n1''
         (storage_new demo_codec (meta_file (disk c)) [])) = Some ''n2''"
proof -
  let ?so = "file_storage demo_codec no_log_faults"
  let ?c = "fresh_node ''n1''" and ?m = "RequestVoteMsg demo_vote 9"
  let ?c1 = "?c\<lparr>inbox := [?m]\<rparr>"
  obtain c2 where h: "handle_msg ?so demo_world ?m (?c1\<lparr>inbox := []\<rparr>) = Done c2" "voted_for c2 = Some ''n2''"
    by (simp add: request_vote_def demo_vote_def last_log_def Let_def)
  have "node_run ?so ?c ?c1"
    using node_run.step [OF node_run.start, of ?c ?so ?c1] node_step.arrive [of ?c ?so ?m]
    by (simp add: in_bounds_def usize_max_def INBOX_CAP_def)
  then have "node_run ?so ?c c2"
    using node_run.step [of ?so ?c ?c1 c2] node_step.receive [of ?c1 ?m "[]" ?so demo_world c2] h
    by (simp add: in_bounds_def usize_max_def)
  then show ?thesis
    using restart_keeps_term_and_vote [OF demo_codec_law read_log_empty read_log_empty _ node_run.start] h
    unfolding fresh_node_def by (intro exI [of _ c2]) simp
qed

text \<open>
  C21. A crash loses only a suffix of the log. Whatever batches were appended and whenever the buffer
  was flushed, a log file cut at any byte is read as the first entries of those appended, in
  order and with no invented entry; after a flush the whole file is read as exactly the
  appended entries.
\<close>

theorem log_crash_prefix:
  assumes "binary_codec cd" "\<forall>e \<in> set (appended ops). encodable cd e"
  shows "(\<exists>j. read_log cd (take k (log_file (run_log cd ops (storage_new cd meta [])))) = Inr (take j (appended ops)))
    \<and> read_log cd (log_file (snd (flush no_log_faults (run_log cd ops (storage_new cd meta []))))) = Inr (appended ops)"
  using binary_codec.log_cut_prefix [OF assms] binary_codec.log_flushed [OF assms] by simp

theorem log_crash_prefix_witness:
  "read_log demo_codec (log_file (snd (flush no_log_faults
     (run_log demo_codec [AppendOp [demo_entry 2], FlushOp, AppendOp [demo_entry 3]] (storage_new demo_codec None [])))))
   = Inr [demo_entry 2, demo_entry 3]"
  using log_crash_prefix [OF demo_codec_law, of "[AppendOp [demo_entry 2], FlushOp, AppendOp [demo_entry 3]]"]
  by (simp add: demo_encodable)

text \<open>
  C38. A torn record is not cut off at a restart. If a crash left the length of the last record but
  not all of its bytes, the new process appends behind it, and as long as the bytes after that
  length are fewer than it announces, a later start reads none of the entries appended since.
\<close>

theorem torn_record_hides_appends:
  assumes "binary_codec cd" "\<forall>x \<in> set es \<union> set (appended ops). encodable cd x" "encodable cd e"
    and "4 \<le> k" "k + length (records cd (appended ops)) < length (frame (entry_bytes cd e))"
  shows "read_log cd (log_file (snd (flush no_log_faults (run_log cd ops
      (storage_new cd meta (records cd es @ take k (frame (entry_bytes cd e)))))))) = Inr es"
proof -
  let ?s = "storage_new cd meta (records cd es @ take k (frame (entry_bytes cd e)))"
  have "log_file (snd (flush no_log_faults (run_log cd ops ?s)))
      = records cd es @ take k (frame (entry_bytes cd e)) @ records cd (appended ops)"
    using run_log_bytes [of ops cd ?s] flush_bytes [of "run_log cd ops ?s"] assms(2) by simp
  then show ?thesis
    using binary_codec.read_log_torn [OF assms(1) _ assms(3,4,5), of es] assms(2) by simp
qed

theorem torn_record_hides_appends_witness:
  "read_log demo_codec (log_file (snd (flush no_log_faults (run_log demo_codec [AppendOp [demo_entry 3]]
     (storage_new demo_codec None (records demo_codec [demo_entry 2] @ take 4 (frame (entry_bytes demo_codec long_entry)))))))) = Inr [demo_entry 2]"
  by (rule torn_record_hides_appends)
    (simp_all add: demo_codec_law demo_encodable demo_entry_bytes long_entry_bytes frame_def text_octets_def)

text \<open>
  C37. A restarted node has the entries of its log file, but in the order in which the cache happens
  to be iterated: the cache is filled before the state is restored, and restoring then returns
  the iteration over that hash table instead of reading the file.
\<close>

theorem restart_log_in_cache_order:
  assumes "some_order cd" "read_log cd log = Inr ls" "read_meta cd (storage_new cd meta log) = Inr p"
  shows "logs (consensus_new (file_storage cd io) i (storage_new cd meta log)) = cache_iter cd (log_map ls)
    \<and> mset (logs (consensus_new (file_storage cd io) i (storage_new cd meta log))) = mset ls"
  using restored_logs [OF assms] some_order_log_map [OF assms(1)] by simp

theorem restart_log_in_cache_order_witness:
  "logs (consensus_new (file_storage demo_codec no_log_faults) ''n1''
     (storage_new demo_codec None (records demo_codec [demo_entry 2, demo_entry 3]))) = [demo_entry 3, demo_entry 2]"
proof -
  have "read_log demo_codec (records demo_codec [demo_entry 2, demo_entry 3]) = Inr [demo_entry 2, demo_entry 3]"
    by (rule demo.read_log_records) (simp add: demo_encodable)
  moreover have "dom (log_map [demo_entry 2, demo_entry 3]) = {0, 1}" by (auto simp: dom_log_map)
  ultimately show ?thesis
    using restart_log_in_cache_order [OF demo_some_order, of _ "[demo_entry 2, demo_entry 3]" None default_state]
    by (simp add: read_meta_def log_map_def)
qed

end
