(* ===== verification/Consensus_Cluster.thy ===== *)
theory Consensus_Cluster
  imports Log_Storage
begin

text \<open>
  Several nodes of \<^verbatim>\<open>efis/src/consensus.rs\<close> together. A call that a node spawned is a numbered task, the
  number standing for the reply channel; its request reaches the callee's inbox late, more than once
  or never, an answer completes it at most once, and it can be forgotten (a timeout or a lost
  connection). A node can be restarted on what its storage holds at any time.

  The lemmas lead to election safety: over a whole run, restarts included, a term has at most one
  leader. The argument is the usual one, from one vote per term and node to the quorums of two
  leaders; what is specific to this code is that votes are counted by number, without the names
  of the voters, which is sound because a call to a peer is made once per term.
\<close>

section \<open>The cluster\<close>

type_synonym task = "nat \<times> call"

record 's cluster =
  nodes :: "nat \<Rightarrow> 's Consensus"
  tasks :: "nat \<rightharpoonup> task"
  next_task :: nat

fun callee :: "call \<Rightarrow> nat" where
  "callee (CallVote p _) = p"
| "callee (CallAppend p _ _) = p"

text \<open>The message a request becomes at the callee, and what the spawned task makes of an answer.\<close>

fun request_msg :: "call \<Rightarrow> nat \<Rightarrow> ConsensusMsg" where
  "request_msg (CallVote _ req) k = RequestVoteMsg req k"
| "request_msg (CallAppend _ _ req) k = AppendEntryMsg req k"

fun channel :: "answer \<Rightarrow> nat" where
  "channel (AnswerVote k _) = k"
| "channel (AnswerAppend k _) = k"

fun reply_msg :: "call \<Rightarrow> answer \<Rightarrow> ConsensusMsg option" where
  "reply_msg (CallVote _ _) (AnswerVote _ (Inr r)) = Some (VoteResult (rvr_term r) (rvr_voted r))"
| "reply_msg (CallAppend p ni _) (AnswerAppend _ (Inr r)) = Some (AppendEntryResult p ni r)"
| "reply_msg _ _ = None"

text \<open>What timers and clients send.\<close>

fun local_msg :: "ConsensusMsg \<Rightarrow> bool" where
  "local_msg (StartElection _) = True"
| "local_msg SendAES = True"
| "local_msg (Submit _) = True"
| "local_msg _ = False"

definition deliver :: "nat \<Rightarrow> ConsensusMsg \<Rightarrow> 's cluster \<Rightarrow> 's cluster" where
  "deliver i m s = s\<lparr>nodes := (nodes s)(i := (nodes s i)\<lparr>inbox := inbox (nodes s i) @ [m]\<rparr>)\<rparr>"

definition forget :: "nat \<Rightarrow> 's cluster \<Rightarrow> 's cluster" where
  "forget k s = s\<lparr>tasks := (tasks s)(k := None)\<rparr>"

text \<open>A node's new state, the calls it made being taken over as tasks.\<close>

definition spawn :: "nat \<Rightarrow> 's Consensus \<Rightarrow> 's cluster \<Rightarrow> 's cluster" where
  "spawn i c s = s\<lparr>nodes := (nodes s)(i := c\<lparr>calls := []\<rparr>),
     tasks := (\<lambda>k. if next_task s \<le> k \<and> k < next_task s + length (calls c) then Some (i, calls c ! (k - next_task s)) else tasks s k),
     next_task := next_task s + length (calls c)\<rparr>"

inductive cluster_step :: "'s storage_ops \<Rightarrow> ('s \<Rightarrow> 's \<Rightarrow> bool) \<Rightarrow> nat set \<Rightarrow> 's cluster \<Rightarrow> 's cluster \<Rightarrow> bool"
  for so reboot N where
  handle: "i \<in> N \<Longrightarrow> in_bounds (nodes s i) \<Longrightarrow> inbox (nodes s i) = m # ms
    \<Longrightarrow> handle_msg so w m ((nodes s i)\<lparr>inbox := ms\<rparr>) = Done c \<Longrightarrow> cluster_step so reboot N s (spawn i c s)"
| tick: "i \<in> N \<Longrightarrow> local_msg m \<Longrightarrow> cluster_step so reboot N s (deliver i m s)"
| request: "tasks s k = Some (i, cl) \<Longrightarrow> cluster_step so reboot N s (deliver (callee cl) (request_msg cl k) s)"
| reply: "tasks s k = Some (i, cl) \<Longrightarrow> a \<in> set (answers (nodes s (callee cl))) \<Longrightarrow> channel a = k
    \<Longrightarrow> reply_msg cl a = Some m \<Longrightarrow> cluster_step so reboot N s (deliver i m (forget k s))"
| lose: "cluster_step so reboot N s (forget k s)"
| restart: "i \<in> N \<Longrightarrow> reboot (disk (nodes s i)) d
    \<Longrightarrow> start_node w urls (consensus_new so (node_id (nodes s i)) d) = Done c \<Longrightarrow> peers c = peers (nodes s i)
    \<Longrightarrow> cluster_step so reboot N s (s\<lparr>nodes := (nodes s)(i := c\<lparr>answers := answers (nodes s i)\<rparr>)\<rparr>)"

text \<open>
  A run, with the votes that stood in some node and the terms some node led, at some time of the
  run: (voter, term, candidate) and (leader, term).
\<close>

definition ballots :: "nat set \<Rightarrow> 's cluster \<Rightarrow> (nat \<times> nat \<times> string) set" where
  "ballots N s = {(p, t, v). p \<in> N \<and> t = current_term (nodes s p) \<and> voted_for (nodes s p) = Some v}"

definition leaders :: "nat set \<Rightarrow> 's cluster \<Rightarrow> (nat \<times> nat) set" where
  "leaders N s = {(i, t). i \<in> N \<and> state (nodes s i) = Leader \<and> t = current_term (nodes s i)}"

inductive cluster_run ::
  "'s storage_ops \<Rightarrow> ('s \<Rightarrow> 's \<Rightarrow> bool) \<Rightarrow> nat set \<Rightarrow> 's cluster \<Rightarrow> 's cluster \<Rightarrow> (nat \<times> nat \<times> string) set \<Rightarrow> (nat \<times> nat) set \<Rightarrow> bool"
  for so reboot N s0 where
  init: "cluster_run so reboot N s0 s0 (ballots N s0) (leaders N s0)"
| step: "cluster_run so reboot N s0 s B L \<Longrightarrow> cluster_step so reboot N s s'
    \<Longrightarrow> cluster_run so reboot N s0 s' (B \<union> ballots N s') (L \<union> leaders N s')"

text \<open>A cluster that has just been started: everyone knows everyone else, and nothing is under way.\<close>

definition cluster_shape :: "nat set \<Rightarrow> (nat \<Rightarrow> string) \<Rightarrow> 's cluster \<Rightarrow> bool" where
  "cluster_shape N nm s \<longleftrightarrow> (\<forall>i \<in> N. node_id (nodes s i) = nm i \<and> distinct (peers (nodes s i))
     \<and> set (peers (nodes s i)) = N - {i} \<and> calls (nodes s i) = [])"

definition started :: "nat set \<Rightarrow> (nat \<Rightarrow> string) \<Rightarrow> 's cluster \<Rightarrow> bool" where
  "started N nm s \<longleftrightarrow> finite N \<and> inj_on nm N \<and> cluster_shape N nm s \<and> tasks s = Map.empty
     \<and> (\<forall>i \<in> N. state (nodes s i) = Follower \<and> inbox (nodes s i) = [] \<and> answers (nodes s i) = [])"

section \<open>What one message does to an election\<close>

text \<open>The four ways in which handling a message can move a node's part in an election.\<close>

inductive election_move :: "ConsensusMsg \<Rightarrow> 's Consensus \<Rightarrow> 's Consensus \<Rightarrow> bool" where
  stay: "current_term c' = current_term c \<Longrightarrow> state c' = state c \<Longrightarrow> vote_count c' = vote_count c
    \<Longrightarrow> (\<And>p req. CallVote p req \<in> set (calls c') \<Longrightarrow> CallVote p req \<in> set (calls c)) \<Longrightarrow> election_move m c c'"
| follow: "state c' = Follower \<Longrightarrow> calls c' = calls c \<Longrightarrow> election_move m c c'"
| stand: "state c' = Candidate \<Longrightarrow> current_term c' = usize_add (current_term c) 1 \<Longrightarrow> vote_count c' = 1
    \<Longrightarrow> voted_for c' = Some (node_id c) \<Longrightarrow> rv_term req = current_term c' \<Longrightarrow> rv_candidate_id req = node_id c
    \<Longrightarrow> calls c' = calls c @ map (\<lambda>p. CallVote p req) (peers c) \<Longrightarrow> election_move m c c'"
| count: "m = VoteResult (current_term c) True \<Longrightarrow> state c = Candidate \<Longrightarrow> current_term c' = current_term c
    \<Longrightarrow> vote_count c' = vote_count c + 1 \<Longrightarrow> calls c' = calls c
    \<Longrightarrow> state c' = Candidate \<or> state c' = Leader \<and> (length (peers c) + 1) div 2 + 1 \<le> vote_count c' \<Longrightarrow> election_move m c c'"

lemma become_follower_more [simp]: "answers (become_follower so w t c) = answers c"
  by (simp add: become_follower_def spawn_election_timer_def)

lemma send_leader_aes_more:
  "node_id (send_leader_aes c) = node_id c" "peers (send_leader_aes c) = peers c" "inbox (send_leader_aes c) = inbox c"
  "answers (send_leader_aes c) = answers c" "vote_count (send_leader_aes c) = vote_count c"
  "CallVote p req \<in> set (calls (send_leader_aes c)) \<longleftrightarrow> CallVote p req \<in> set (calls c)"
proof -
  have "node_id (fold send_ae_to ps c) = node_id c \<and> peers (fold send_ae_to ps c) = peers c
    \<and> inbox (fold send_ae_to ps c) = inbox c \<and> answers (fold send_ae_to ps c) = answers c
    \<and> vote_count (fold send_ae_to ps c) = vote_count c
    \<and> (CallVote p req \<in> set (calls (fold send_ae_to ps c)) \<longleftrightarrow> CallVote p req \<in> set (calls c))" for ps
    by (induction ps arbitrary: c) (auto simp: send_ae_to_def Let_def)
  then show "node_id (send_leader_aes c) = node_id c" "peers (send_leader_aes c) = peers c"
    "inbox (send_leader_aes c) = inbox c" "answers (send_leader_aes c) = answers c"
    "vote_count (send_leader_aes c) = vote_count c"
    "CallVote p req \<in> set (calls (send_leader_aes c)) \<longleftrightarrow> CallVote p req \<in> set (calls c)"
    by (simp_all add: send_leader_aes_def)
qed

text \<open>What every message leaves alone: the node's identity, and the inbox up to messages to itself.\<close>

definition same_node :: "'s Consensus \<Rightarrow> 's Consensus \<Rightarrow> bool" where
  "same_node c c' \<longleftrightarrow> node_id c' = node_id c \<and> peers c' = peers c
     \<and> (\<exists>xs. inbox c' = inbox c @ xs \<and> set xs \<subseteq> {SendAES, SendCommit})"

lemma same_node_refl [simp]: "same_node c c"
  by (simp add: same_node_def)

lemma same_node_trans: "same_node a b \<Longrightarrow> same_node b c \<Longrightarrow> same_node a c"
proof -
  assume ab: "same_node a b" and bc: "same_node b c"
  obtain xs ys where "inbox b = inbox a @ xs" "inbox c = inbox b @ ys" "set xs \<union> set ys \<subseteq> {SendAES, SendCommit}"
    using ab bc by (auto simp: same_node_def)
  then have "\<exists>zs. inbox c = inbox a @ zs \<and> set zs \<subseteq> {SendAES, SendCommit}" by (intro exI [of _ "xs @ ys"]) auto
  then show ?thesis using ab bc by (simp add: same_node_def)
qed

lemma same_node_quiet:
  "node_id c' = node_id c \<Longrightarrow> peers c' = peers c \<Longrightarrow> inbox c' = inbox c \<Longrightarrow> same_node c c'"
  by (simp add: same_node_def)

lemma send_self_node:
  "send_self m c = Done c' \<Longrightarrow> m \<in> {SendAES, SendCommit} \<Longrightarrow> same_node c c' \<and> answers c' = answers c \<and> calls c' = calls c"
  by (drule send_self_Done) (auto simp: same_node_def)

lemma vote_result_move:
  assumes "vote_result so w t v c = Done c'"
  shows "same_node c c' \<and> answers c' = answers c \<and> election_move (VoteResult t v) c c'"
proof -
  consider (same) "c' = c" | (down) "c' = become_follower so w t c"
    | (vote) "t = current_term c" v "state c = Candidate"
        "c' = c\<lparr>vote_count := vote_count c + 1\<rparr> \<or>
         (length (peers c) + 1) div 2 + 1 \<le> vote_count c + 1 \<and> start_leader (c\<lparr>vote_count := vote_count c + 1\<rparr>) = Done c'"
    using assms by (auto simp: vote_result_def Let_def split: if_splits)
  then show ?thesis
  proof cases
    case same
    then show ?thesis by (auto intro: election_move.stay)
  next
    case down
    then show ?thesis by (auto intro: election_move.follow same_node_quiet)
  next
    case vote
    from vote(4) show ?thesis
    proof (elim disjE conjE)
      assume "c' = c\<lparr>vote_count := vote_count c + 1\<rparr>"
      then show ?thesis using vote by (auto intro!: election_move.count same_node_quiet)
    next
      assume q: "(length (peers c) + 1) div 2 + 1 \<le> vote_count c + 1"
        and "start_leader (c\<lparr>vote_count := vote_count c + 1\<rparr>) = Done c'"
      then have "state c' = Leader \<and> current_term c' = current_term c \<and> vote_count c' = vote_count c + 1
          \<and> calls c' = calls c \<and> answers c' = answers c \<and> same_node c c'"
        by (auto simp: start_leader_def Let_def run_simps same_node_def dest!: send_self_Done)
      then show ?thesis using q vote by (auto intro!: election_move.count)
    qed
  qed
qed

lemma request_vote_move:
  assumes "request_vote so w req c = (r, c')"
  shows "same_node c c' \<and> answers c' = answers c \<and> election_move m c c'
    \<and> (\<forall>r'. r = Inr r' \<and> rvr_voted r' \<longrightarrow> rvr_term r' = rv_term req \<and> current_term c' = rv_term req \<and> voted_for c' = Some (rv_candidate_id req))"
proof (cases "current_term c < rv_term req \<and> state c \<noteq> Dead")
  case True
  then have "state c' = Follower" "calls c' = calls c" "node_id c' = node_id c" "peers c' = peers c" "inbox c' = inbox c"
      "answers c' = answers c"
    using assms by (auto simp: request_vote_def Let_def split: if_splits)
  then show ?thesis
    using assms by (auto simp: request_vote_def Let_def split: if_splits intro: election_move.follow same_node_quiet)
next
  case False
  then show ?thesis
    using assms by (auto simp: request_vote_def Let_def split: if_splits intro!: election_move.stay same_node_quiet)
qed

text \<open>A change that leaves the election alone altogether.\<close>

definition aside :: "'s Consensus \<Rightarrow> 's Consensus \<Rightarrow> bool" where
  "aside c c' \<longleftrightarrow> same_node c c' \<and> current_term c' = current_term c \<and> state c' = state c \<and> vote_count c' = vote_count c
     \<and> calls c' = calls c \<and> answers c' = answers c"

lemma aside_refl [simp]: "aside c c"
  by (simp add: aside_def)

lemma aside_trans: "aside a b \<Longrightarrow> aside b c \<Longrightarrow> aside a c"
  by (auto simp: aside_def intro: same_node_trans)

lemma aside_move: "aside c c' \<Longrightarrow> same_node c c' \<and> answers c' = answers c \<and> election_move m c c'"
  by (auto simp: aside_def intro: election_move.stay)

lemma aside_send_self: "send_self m c = Done c' \<Longrightarrow> m \<in> {SendAES, SendCommit} \<Longrightarrow> aside c c'"
  by (drule send_self_Done) (auto simp: aside_def same_node_def)

lemma aside_fields:
  "aside c c' \<Longrightarrow> node_id c1 = node_id c \<Longrightarrow> peers c1 = peers c \<Longrightarrow> inbox c1 = inbox c \<Longrightarrow> current_term c1 = current_term c
    \<Longrightarrow> state c1 = state c \<Longrightarrow> vote_count c1 = vote_count c \<Longrightarrow> calls c1 = calls c \<Longrightarrow> answers c1 = answers c \<Longrightarrow> aside c1 c'"
  by (simp add: aside_def same_node_def)

lemma aside_quiet:
  "node_id c' = node_id c \<Longrightarrow> peers c' = peers c \<Longrightarrow> inbox c' = inbox c \<Longrightarrow> current_term c' = current_term c
    \<Longrightarrow> state c' = state c \<Longrightarrow> vote_count c' = vote_count c \<Longrightarrow> calls c' = calls c \<Longrightarrow> answers c' = answers c \<Longrightarrow> aside c c'"
  by (simp add: aside_def same_node_def)

lemma aside_persist: "aside c c' \<Longrightarrow> aside c (persist_state so c')"
  by (simp add: aside_def same_node_def)

lemma ae_commit_aside: "ae_commit req c = Done c' \<Longrightarrow> aside c c'"
  by (auto simp: ae_commit_def Let_def split: option.splits if_splits dest!: aside_send_self intro: aside_fields)

lemma ae_follow_aside:
  "if current_term c < ae_term req then state (ae_follow so w req c) = Follower \<and> calls (ae_follow so w req c) = calls c
      \<and> same_node c (ae_follow so w req c) \<and> answers (ae_follow so w req c) = answers c
   else aside c (ae_follow so w req c)"
  by (simp add: ae_follow_def Let_def aside_def same_node_def)

lemma append_entries_aside:
  assumes "append_entries so w req c = Done (r, c')" "state c \<noteq> Dead"
  shows "aside (ae_follow so w req c) c'"
  using assms
  by (auto simp: append_entries_def Let_def run_simps split: if_splits dest!: ae_commit_aside intro: aside_quiet)
    (simp add: aside_def same_node_def)

lemma append_entries_move:
  assumes "append_entries so w req c = Done (r, c')"
  shows "same_node c c' \<and> answers c' = answers c \<and> election_move m c c'"
proof (cases "state c = Dead")
  case True
  then show ?thesis using assms by (intro aside_move) (auto simp: append_entries_def)
next
  case False
  have a: "aside (ae_follow so w req c) c'" by (rule append_entries_aside [OF assms False])
  show ?thesis
  proof (cases "current_term c < ae_term req")
    case True
    then have "state (ae_follow so w req c) = Follower \<and> calls (ae_follow so w req c) = calls c
        \<and> same_node c (ae_follow so w req c) \<and> answers (ae_follow so w req c) = answers c"
      using ae_follow_aside [of c req so w] by simp
    then show ?thesis using a by (auto simp: aside_def intro: election_move.follow same_node_trans)
  next
    case False
    then have "aside c (ae_follow so w req c)" using ae_follow_aside [of c req so w] by simp
    then show ?thesis using a by (intro aside_move) (rule aside_trans)
  qed
qed

lemma handle_ae_res_move:
  assumes "handle_ae_res so w p ni reply c = Done c'"
  shows "same_node c c' \<and> answers c' = answers c \<and> election_move m c c'"
proof (cases "current_term c < aer_term reply")
  case True
  then have "c' = become_follower so w (aer_term reply) c" using assms by (simp add: handle_ae_res_def)
  then show ?thesis by (auto intro: election_move.follow same_node_quiet)
next
  case False
  have two: "aside c c2" if "send_self SendCommit c = Done c1" "send_self SendAES c1 = Done c2" for c c1 c2 :: "'a Consensus"
    using aside_trans [OF aside_send_self [OF that(1)] aside_send_self [OF that(2)]] by simp
  have "aside c c'"
    using assms False
    by (auto simp: handle_ae_res_def Let_def run_simps split: if_splits intro: aside_quiet
        dest!: two intro: aside_fields)
  then show ?thesis by (rule aside_move)
qed

lemma submit_entry_aside: "submit_entry so cmd c = Done c' \<Longrightarrow> aside c c'"
  by (auto simp: submit_entry_def Let_def run_simps dest!: aside_send_self intro!: aside_persist intro: aside_fields)

lemma send_commits_aside: "send_commits c = Done c' \<Longrightarrow> aside c c'"
  by (auto simp: send_commits_def Let_def run_simps split: option.splits if_splits intro: aside_quiet)

lemma start_election_move: "same_node c (start_election so w c) \<and> answers (start_election so w c) = answers c \<and> election_move m c (start_election so w c)"
proof -
  let ?c = "start_election so w c"
  have "calls ?c = calls c @ map (\<lambda>p. CallVote p \<lparr>rv_term = current_term ?c, rv_candidate_id = node_id c,
      rv_last_log_index = ce_index (last_log ?c), rv_last_log_term = ce_term (last_log ?c)\<rparr>) (peers c)"
    by (simp add: start_election_def Let_def last_log_def)
  then have "election_move m c ?c"
    by (rule election_move.stand [rotated -1]) (simp_all add: start_election_def Let_def)
  then show ?thesis by (simp add: start_election_def Let_def same_node_def)
qed

lemma handle_msg_move:
  assumes "handle_msg so w m c = Done c'"
  shows "same_node c c'" "election_move m c c'"
proof -
  have "same_node c c' \<and> election_move m c c'"
  proof (cases m)
    case (RequestVoteMsg req tx)
    then obtain r c1 where r: "request_vote so w req c = (r, c1)" and c': "c' = c1\<lparr>answers := answers c1 @ [AnswerVote tx r]\<rparr>"
      using assms by (auto split: prod.splits)
    from request_vote_move [OF r, of m] show ?thesis
      unfolding c' by (auto simp: same_node_def elim!: election_move.cases intro: election_move.intros)
  next
    case (AppendEntryMsg req tx)
    then obtain r c1 where r: "append_entries so w req c = Done (r, c1)" and c': "c' = c1\<lparr>answers := answers c1 @ [AnswerAppend tx r]\<rparr>"
      using assms by (auto simp: run_simps)
    from append_entries_move [OF r, of m] show ?thesis
      unfolding c' by (auto simp: same_node_def elim!: election_move.cases intro: election_move.intros)
  next
    case SendAES
    then show ?thesis using assms by (auto simp: same_node_def send_leader_aes_more intro!: election_move.stay)
  next
    case (StartElection d)
    then show ?thesis
      using assms start_election_move [of c so w m] aside_move [OF aside_refl, of c m] by (auto split: if_splits option.splits)
  next
    case (Submit cmd)
    then show ?thesis
      using assms aside_move [OF submit_entry_aside, of so cmd c c' m] aside_move [OF aside_refl, of c m] by (auto split: if_splits)
  next
    case SendCommit
    then show ?thesis using assms aside_move [OF send_commits_aside, of c c' m] by simp
  next
    case (AppendEntryResult p ni reply)
    then show ?thesis using assms handle_ae_res_move [of so w p ni reply c c' m] by simp
  next
    case (VoteResult t v)
    then show ?thesis using assms vote_result_move [of so w t v c c'] by simp
  qed
  then show "same_node c c'" "election_move m c c'" by auto
qed

text \<open>The only new answer that grants a vote is that to the request for it, and then the vote is recorded.\<close>

lemma handle_msg_answers:
  assumes "handle_msg so w m c = Done c'" "AnswerVote k (Inr r) \<in> set (answers c')" "rvr_voted r"
  shows "AnswerVote k (Inr r) \<in> set (answers c) \<or>
    (\<exists>req. m = RequestVoteMsg req k \<and> rvr_term r = rv_term req \<and> current_term c' = rv_term req \<and> voted_for c' = Some (rv_candidate_id req))"
proof (cases m)
  case (RequestVoteMsg req tx)
  then obtain r0 c1 where r: "request_vote so w req c = (r0, c1)" and c': "c' = c1\<lparr>answers := answers c1 @ [AnswerVote tx r0]\<rparr>"
    using assms by (auto split: prod.splits)
  from request_vote_move [OF r] show ?thesis
    using assms(2,3) RequestVoteMsg unfolding c' by auto
next
  case (AppendEntryMsg req tx)
  then obtain r0 c1 where r: "append_entries so w req c = Done (r0, c1)" and c': "c' = c1\<lparr>answers := answers c1 @ [AnswerAppend tx r0]\<rparr>"
    using assms by (auto simp: run_simps)
  from append_entries_move [OF r] show ?thesis
    using assms(2) unfolding c' by auto
next
  case (StartElection d)
  then have "answers c' = answers c"
    using assms(1) start_election_move [of c so w] by (auto split: if_splits option.splits)
  then show ?thesis using assms(2) by simp
next
  case (Submit cmd)
  then have "answers c' = answers c"
    using assms(1) submit_entry_aside [of so cmd c c'] by (auto simp: aside_def split: if_splits)
  then show ?thesis using assms(2) by simp
qed (use assms in \<open>auto simp: send_leader_aes_more aside_def dest!: send_commits_aside handle_ae_res_move vote_result_move\<close>)

section \<open>The invariant of elections\<close>

text \<open>Every vote of the run: never two by one node in a term, and those of the node's current term still stand.\<close>

definition ballot_inv :: "nat set \<Rightarrow> (nat \<times> nat \<times> string) set \<Rightarrow> 's cluster \<Rightarrow> bool" where
  "ballot_inv N B s \<longleftrightarrow> ballots N s \<subseteq> B
     \<and> (\<forall>p t v. (p, t, v) \<in> B \<longrightarrow> p \<in> N \<and> t \<le> current_term (nodes s p)
          \<and> (t = current_term (nodes s p) \<longrightarrow> voted_for (nodes s p) = Some v))
     \<and> (\<forall>p t v v'. (p, t, v) \<in> B \<longrightarrow> (p, t, v') \<in> B \<longrightarrow> v = v')"

text \<open>Calls for votes under way: made by a node in its own name, once per peer and term.\<close>

definition task_inv :: "nat set \<Rightarrow> (nat \<Rightarrow> string) \<Rightarrow> 's cluster \<Rightarrow> bool" where
  "task_inv N nm s \<longleftrightarrow>
     (\<forall>k t. tasks s k = Some t \<longrightarrow> k < next_task s)
     \<and> (\<forall>k i p req. tasks s k = Some (i, CallVote p req) \<longrightarrow> i \<in> N \<and> p \<in> N \<and> p \<noteq> i
          \<and> rv_candidate_id req = nm i \<and> rv_term req \<le> current_term (nodes s i))
     \<and> (\<forall>k k' i p req req'. tasks s k = Some (i, CallVote p req) \<longrightarrow> tasks s k' = Some (i, CallVote p req')
          \<longrightarrow> rv_term req = rv_term req' \<longrightarrow> k = k')"

text \<open>Requests and answers belong to their task, an answer that grants a vote is backed by that vote, and
  no vote is received before its term.\<close>

definition channel_inv :: "nat set \<Rightarrow> (nat \<Rightarrow> string) \<Rightarrow> (nat \<times> nat \<times> string) set \<Rightarrow> 's cluster \<Rightarrow> bool" where
  "channel_inv N nm B s \<longleftrightarrow> (\<forall>p \<in> N.
     (\<forall>req k. RequestVoteMsg req k \<in> set (inbox (nodes s p)) \<longrightarrow> k < next_task s
        \<and> (\<forall>t. tasks s k = Some t \<longrightarrow> (\<exists>i. t = (i, CallVote p req))))
     \<and> (\<forall>k r. AnswerVote k (Inr r) \<in> set (answers (nodes s p)) \<longrightarrow> rvr_voted r \<longrightarrow> k < next_task s
        \<and> (\<forall>i req. tasks s k = Some (i, CallVote p req) \<longrightarrow> rvr_term r = rv_term req \<and> (p, rv_term req, nm i) \<in> B))
     \<and> (\<forall>t. VoteResult t True \<in> set (inbox (nodes s p)) \<longrightarrow> t \<le> current_term (nodes s p)))"

text \<open>The peers that voted for a node in a term and whose call is no longer under way.\<close>

definition credited :: "nat set \<Rightarrow> (nat \<Rightarrow> string) \<Rightarrow> (nat \<times> nat \<times> string) set \<Rightarrow> 's cluster \<Rightarrow> nat \<Rightarrow> nat \<Rightarrow> nat set" where
  "credited N nm B s i t = {p \<in> N - {i}. (p, t, nm i) \<in> B \<and> (\<forall>k req. tasks s k = Some (i, CallVote p req) \<longrightarrow> rv_term req \<noteq> t)}"

text \<open>Votes a candidate has counted or will find in its inbox are covered by credited peers.\<close>

definition count_inv :: "nat set \<Rightarrow> (nat \<Rightarrow> string) \<Rightarrow> (nat \<times> nat \<times> string) set \<Rightarrow> 's cluster \<Rightarrow> bool" where
  "count_inv N nm B s \<longleftrightarrow> (\<forall>i \<in> N.
     (state (nodes s i) = Candidate \<longrightarrow>
        vote_count (nodes s i) + count_list (inbox (nodes s i)) (VoteResult (current_term (nodes s i)) True)
          \<le> Suc (card (credited N nm B s i (current_term (nodes s i)))))
     \<and> (state (nodes s i) = Candidate \<or> state (nodes s i) = Leader \<longrightarrow> voted_for (nodes s i) = Some (nm i)))"

definition voters :: "nat set \<Rightarrow> (nat \<Rightarrow> string) \<Rightarrow> (nat \<times> nat \<times> string) set \<Rightarrow> nat \<Rightarrow> nat \<Rightarrow> nat set" where
  "voters N nm B i t = {p \<in> N. (p, t, nm i) \<in> B}"

definition leader_inv :: "nat set \<Rightarrow> (nat \<Rightarrow> string) \<Rightarrow> (nat \<times> nat \<times> string) set \<Rightarrow> (nat \<times> nat) set \<Rightarrow> 's cluster \<Rightarrow> bool" where
  "leader_inv N nm B L s \<longleftrightarrow> leaders N s \<subseteq> L
     \<and> (\<forall>i t. (i, t) \<in> L \<longrightarrow> i \<in> N \<and> card N div 2 + 1 \<le> card (voters N nm B i t))"

lemma ballot_step:
  assumes "ballot_inv N B s" "\<And>p. p \<in> N \<Longrightarrow> term_vote_le (nodes s p) (nodes s' p)"
  shows "ballot_inv N (B \<union> ballots N s') s'"
proof -
  have old: "p \<in> N \<and> t \<le> current_term (nodes s' p) \<and> (t = current_term (nodes s' p) \<longrightarrow> voted_for (nodes s' p) = Some v)"
    if "(p, t, v) \<in> B" for p t v
  proof -
    have "p \<in> N" "t \<le> current_term (nodes s p)" "t = current_term (nodes s p) \<longrightarrow> voted_for (nodes s p) = Some v"
      using assms(1) that by (auto simp: ballot_inv_def)
    then show ?thesis using assms(2) [of p] by (auto simp: term_vote_le_def)
  qed
  have new: "p \<in> N \<and> t = current_term (nodes s' p) \<and> voted_for (nodes s' p) = Some v" if "(p, t, v) \<in> ballots N s'" for p t v
    using that by (simp add: ballots_def)
  have fn: "v = v'" if "(p, t, v) \<in> B" "(p, t, v') \<in> B" for p t v v'
    using assms(1) that unfolding ballot_inv_def by blast
  have "v = v'" if "(p, t, v) \<in> B \<union> ballots N s'" "(p, t, v') \<in> B \<union> ballots N s'" for p t v v'
    using that by (metis UnE fn new old option.inject)
  then show ?thesis
    unfolding ballot_inv_def using old new by blast
qed

lemma voters_mono: "finite N \<Longrightarrow> B \<subseteq> B' \<Longrightarrow> card (voters N nm B i t) \<le> card (voters N nm B' i t)"
  by (intro card_mono) (auto simp: voters_def)

lemma credited_mono:
  assumes "finite N" "B \<subseteq> B'" "\<And>k p req. tasks s' k = Some (i, CallVote p req) \<Longrightarrow> rv_term req = t \<Longrightarrow> tasks s k = Some (i, CallVote p req)"
  shows "card (credited N nm B s i t) \<le> card (credited N nm B' s' i t)"
proof (intro card_mono)
  show "finite (credited N nm B' s' i t)" using assms(1) by (simp add: credited_def)
  show "credited N nm B s i t \<subseteq> credited N nm B' s' i t"
    using assms(2,3) unfolding credited_def by blast
qed

text \<open>Two nodes that a majority voted for in one term are the same.\<close>

lemma quorums_meet:
  assumes "finite N" "inj_on nm N" "i \<in> N" "j \<in> N"
    and one: "\<And>p v v'. (p, t, v) \<in> B \<Longrightarrow> (p, t, v') \<in> B \<Longrightarrow> v = v'"
    and "card N div 2 + 1 \<le> card (voters N nm B i t)" "card N div 2 + 1 \<le> card (voters N nm B j t)"
  shows "i = j"
proof -
  have sub: "voters N nm B i t \<union> voters N nm B j t \<subseteq> N" by (auto simp: voters_def)
  then have fin: "finite (voters N nm B i t)" "finite (voters N nm B j t)"
    using assms(1) by (auto intro: finite_subset)
  have "card (voters N nm B i t \<union> voters N nm B j t) \<le> card N" by (rule card_mono [OF assms(1) sub])
  moreover have "card (voters N nm B i t) + card (voters N nm B j t)
      = card (voters N nm B i t \<union> voters N nm B j t) + card (voters N nm B i t \<inter> voters N nm B j t)"
    by (rule card_Un_Int [OF fin])
  ultimately have "0 < card (voters N nm B i t \<inter> voters N nm B j t)" using assms(6,7) by linarith
  then obtain p where "p \<in> voters N nm B i t" "p \<in> voters N nm B j t" by (auto simp: card_gt_0_iff)
  then have "nm i = nm j" using one by (auto simp: voters_def)
  then show ?thesis using assms(2-4) by (auto dest: inj_onD)
qed

definition election_inv :: "nat set \<Rightarrow> (nat \<Rightarrow> string) \<Rightarrow> (nat \<times> nat \<times> string) set \<Rightarrow> (nat \<times> nat) set \<Rightarrow> 's cluster \<Rightarrow> bool" where
  "election_inv N nm B L s \<longleftrightarrow> cluster_shape N nm s \<and> ballot_inv N B s \<and> task_inv N nm s \<and> channel_inv N nm B s
     \<and> count_inv N nm B s \<and> leader_inv N nm B L s"

section \<open>Steps of the network\<close>

lemma deliver_fields [simp]:
  "node_id (nodes (deliver i m s) j) = node_id (nodes s j)" "peers (nodes (deliver i m s) j) = peers (nodes s j)"
  "disk (nodes (deliver i m s) j) = disk (nodes s j)" "calls (nodes (deliver i m s) j) = calls (nodes s j)"
  "answers (nodes (deliver i m s) j) = answers (nodes s j)" "state (nodes (deliver i m s) j) = state (nodes s j)"
  "current_term (nodes (deliver i m s) j) = current_term (nodes s j)"
  "voted_for (nodes (deliver i m s) j) = voted_for (nodes s j)"
  "vote_count (nodes (deliver i m s) j) = vote_count (nodes s j)"
  "inbox (nodes (deliver i m s) j) = (if j = i then inbox (nodes s i) @ [m] else inbox (nodes s j))"
  by (simp_all add: deliver_def)

lemma deliver_simps [simp]:
  "tasks (deliver i m s) = tasks s" "next_task (deliver i m s) = next_task s"
  "ballots N (deliver i m s) = ballots N s" "leaders N (deliver i m s) = leaders N s"
  by (simp_all add: deliver_def [THEN arg_cong [of _ _ tasks]] deliver_def [THEN arg_cong [of _ _ next_task]] ballots_def leaders_def)

lemma forget_simps [simp]:
  "tasks (forget k s) = (tasks s)(k := None)" "next_task (forget k s) = next_task s" "nodes (forget k s) = nodes s"
  "ballots N (forget k s) = ballots N s" "leaders N (forget k s) = leaders N s"
  by (simp_all add: forget_def ballots_def leaders_def)

lemma deliver_shape [simp]: "cluster_shape N nm (deliver i m s) \<longleftrightarrow> cluster_shape N nm s"
  by (auto simp: cluster_shape_def)

lemma deliver_ballot [simp]: "ballot_inv N B (deliver i m s) \<longleftrightarrow> ballot_inv N B s"
  by (auto simp: ballot_inv_def)

lemma deliver_task [simp]: "task_inv N nm (deliver i m s) \<longleftrightarrow> task_inv N nm s"
  by (auto simp: task_inv_def)

lemma deliver_credited [simp]: "credited N nm B (deliver i m s) = credited N nm B s"
  by (intro ext) (simp add: credited_def)

lemma deliver_leader [simp]: "leader_inv N nm B L (deliver i m s) \<longleftrightarrow> leader_inv N nm B L s"
  by (simp add: leader_inv_def)

lemma deliver_quiet:
  assumes inv: "election_inv N nm B L s"
    and req: "\<And>req k. m = RequestVoteMsg req k \<Longrightarrow> k < next_task s \<and> (\<exists>j. tasks s k = Some (j, CallVote i req))"
    and vote: "\<And>t. m \<noteq> VoteResult t True"
  shows "election_inv N nm B L (deliver i m s)"
proof -
  have "channel_inv N nm B (deliver i m s)"
    using inv req vote by (fastforce simp: election_inv_def channel_inv_def)
  moreover have "count_inv N nm B (deliver i m s)"
    using inv vote by (auto simp: election_inv_def count_inv_def)
  ultimately show ?thesis using inv by (simp add: election_inv_def)
qed

lemma forget_inv:
  assumes "finite N" "election_inv N nm B L s"
  shows "election_inv N nm B L (forget k s)"
proof -
  have "card (credited N nm B s i t) \<le> card (credited N nm B (forget k s) i t)" for i t
    by (rule credited_mono [OF assms(1)]) (auto split: if_splits)
  then have "count_inv N nm B (forget k s)"
    using assms(2) unfolding election_inv_def count_inv_def by (fastforce elim: order_trans)
  moreover have "task_inv N nm (forget k s)"
    using assms(2) unfolding election_inv_def task_inv_def forget_simps by (auto split: if_splits)
  moreover have "channel_inv N nm B (forget k s)"
    using assms(2) by (auto simp: election_inv_def channel_inv_def)
  ultimately show ?thesis
    using assms(2) by (simp add: election_inv_def cluster_shape_def ballot_inv_def leader_inv_def)
qed

text \<open>A vote that comes back is the one its task was for, and that peer was not credited before.\<close>

lemma forget_credits:
  assumes "finite N" "election_inv N nm B L s" "tasks s k = Some (i, CallVote p req)" "(p, rv_term req, nm i) \<in> B"
  shows "Suc (card (credited N nm B s i (rv_term req))) \<le> card (credited N nm B (forget k s) i (rv_term req))"
proof -
  let ?t = "rv_term req"
  have i: "p \<in> N - {i}" and u: "\<And>k' req'. tasks s k' = Some (i, CallVote p req') \<Longrightarrow> rv_term req' = ?t \<Longrightarrow> k' = k"
    using assms(2,3) by (auto simp: election_inv_def task_inv_def)
  have "credited N nm B s i ?t \<subseteq> credited N nm B (forget k s) i ?t" unfolding credited_def forget_simps by auto
  moreover have "p \<in> credited N nm B (forget k s) i ?t"
    using i u assms(4) unfolding credited_def forget_simps by (simp split: if_splits) blast
  ultimately have "insert p (credited N nm B s i ?t) \<subseteq> credited N nm B (forget k s) i ?t" by simp
  moreover have "p \<notin> credited N nm B s i ?t" using assms(3) by (auto simp: credited_def)
  moreover have "finite (credited N nm B (forget k s) i ?t)" "finite (credited N nm B s i ?t)"
    using assms(1) by (simp_all add: credited_def)
  ultimately show ?thesis by (metis card_insert_disjoint card_mono)
qed

lemma deliver_vote:
  assumes fin: "finite N" and inv: "election_inv N nm B L s" and k: "tasks s k = Some (i, CallVote p req)"
    and a: "AnswerVote k (Inr r) \<in> set (answers (nodes s p))" "rvr_voted r"
  shows "election_inv N nm B L (deliver i (VoteResult (rvr_term r) True) (forget k s))"
proof -
  let ?s = "forget k s" and ?t = "rv_term req"
  have p: "p \<in> N" "?t \<le> current_term (nodes s i)" using inv k by (auto simp: election_inv_def task_inv_def)
  then have r: "rvr_term r = ?t" "(p, ?t, nm i) \<in> B"
    using inv k a by (auto simp: election_inv_def channel_inv_def)
  have f: "election_inv N nm B L ?s" by (rule forget_inv [OF fin inv])
  have "channel_inv N nm B (deliver i (VoteResult (rvr_term r) True) ?s)"
    using f p r by (auto simp: election_inv_def channel_inv_def)
  moreover have "count_inv N nm B (deliver i (VoteResult (rvr_term r) True) ?s)"
    using forget_credits [OF fin inv k r(2)] inv f r(1)
    by (auto simp: election_inv_def count_inv_def)
  ultimately show ?thesis using f by (simp add: election_inv_def)
qed

section \<open>Steps of a node\<close>

lemma spawn_simps [simp]:
  "nodes (spawn i c s) j = (if j = i then c\<lparr>calls := []\<rparr> else nodes s j)"
  "next_task (spawn i c s) = next_task s + length (calls c)"
  "k < next_task s \<Longrightarrow> tasks (spawn i c s) k = tasks s k"
  by (simp_all add: spawn_def)

lemma spawn_tasks:
  "tasks (spawn i c s) k = Some (j, cl) \<Longrightarrow> tasks s k = Some (j, cl) \<or>
     j = i \<and> next_task s \<le> k \<and> k < next_task s + length (calls c) \<and> cl = calls c ! (k - next_task s)"
  by (auto simp: spawn_def split: if_splits)

text \<open>Which calls for votes a message can cause.\<close>

lemma move_calls:
  assumes "election_move m c c'" "calls c = []" "current_term c < usize_max"
  obtains (none) "\<And>p req. CallVote p req \<notin> set (calls c')"
  | (stand) req where "calls c' = map (\<lambda>p. CallVote p req) (peers c)" "rv_candidate_id req = node_id c"
      "rv_term req = current_term c'" "current_term c' = Suc (current_term c)" "state c' = Candidate"
      "vote_count c' = 1" "voted_for c' = Some (node_id c)"
  using assms(1)
proof cases
  case stay
  then show ?thesis using assms(2) that(1) by auto
next
  case (stand req)
  then show ?thesis using assms(2,3) by (intro that(2) [of req]) (simp_all add: usize_add_def usize_max_def)
qed (use assms(2) that(1) in auto)

lemma task_step:
  assumes inv: "task_inv N nm s" and shape: "cluster_shape N nm s" and i: "i \<in> N" "in_bounds (nodes s i)"
    and mv: "election_move m ((nodes s i)\<lparr>inbox := ms\<rparr>) c" and up: "current_term (nodes s i) \<le> current_term c"
  shows "task_inv N nm (spawn i c s)"
proof -
  let ?s = "spawn i c s" and ?n = "next_task s"
  have c1: "calls ((nodes s i)\<lparr>inbox := ms\<rparr>) = []" "current_term ((nodes s i)\<lparr>inbox := ms\<rparr>) < usize_max"
    using shape i by (simp_all add: cluster_shape_def in_bounds_def)
  have lt: "k < next_task ?s" if "tasks ?s k = Some t" for k t
    using that inv spawn_tasks [of i c s k "fst t" "snd t"] by (cases t) (auto simp: task_inv_def intro: trans_less_add1)
  have old: "j \<in> N \<and> p \<in> N \<and> p \<noteq> j \<and> rv_candidate_id req = nm j \<and> rv_term req \<le> current_term (nodes s j)"
    if "tasks s k = Some (j, CallVote p req)" for k j p req
    using that inv by (auto simp: task_inv_def)
  have uniq: "k = k'" if "tasks s k = Some (j, CallVote p req)" "tasks s k' = Some (j, CallVote p req')" "rv_term req = rv_term req'" for k k' j p req req'
    using that inv unfolding task_inv_def by blast
  from mv c1 show ?thesis
  proof (cases rule: move_calls)
    case none
    have keep: "tasks s k = Some (j, CallVote p req)" if "tasks ?s k = Some (j, CallVote p req)" for k j p req
      using spawn_tasks [OF that] none by (metis add_less_imp_less_left le_add_diff_inverse nth_mem)
    show ?thesis
      unfolding task_inv_def using lt old keep uniq up by (fastforce intro: order_trans)
  next
    case (stand rq)
    have sp: "tasks s k = Some (j, CallVote p req) \<or> j = i \<and> req = rq \<and> ?n \<le> k \<and> k < ?n + length (peers (nodes s i)) \<and> p = peers (nodes s i) ! (k - ?n)"
      if "tasks ?s k = Some (j, CallVote p req)" for k j p req
      using spawn_tasks [OF that] stand(1) by (auto simp: nth_map)
    have ps: "distinct (peers (nodes s i))" "set (peers (nodes s i)) = N - {i}" "node_id (nodes s i) = nm i"
      using shape i by (auto simp: cluster_shape_def)
    have pk: "peers (nodes s i) ! (k - ?n) \<in> N - {i}" if "?n \<le> k" "k < ?n + length (peers (nodes s i))" for k
      unfolding ps(2) [symmetric] using that by (intro nth_mem) simp
    have "j \<in> N \<and> p \<in> N \<and> p \<noteq> j \<and> rv_candidate_id req = nm j \<and> rv_term req \<le> current_term (nodes ?s j)"
      if "tasks ?s k = Some (j, CallVote p req)" for k j p req
      using sp [OF that] old [of k j p req] pk [of k] i(1) ps(3) stand(2,3) up by auto
    moreover have fresh: "rv_term req \<noteq> rv_term rq" if "tasks s k = Some (i, CallVote p req)" for k p req
      using old [OF that] stand(3,4) by simp
    have "k = k'" if a: "tasks ?s k = Some (j, CallVote p req)" and b: "tasks ?s k' = Some (j, CallVote p req')"
        and e: "rv_term req = rv_term req'" for k k' j p req req'
      using sp [OF a] sp [OF b]
    proof (elim disjE conjE)
      assume "p = peers (nodes s i) ! (k - ?n)" "p = peers (nodes s i) ! (k' - ?n)" "?n \<le> k" "?n \<le> k'"
        "k < ?n + length (peers (nodes s i))" "k' < ?n + length (peers (nodes s i))"
      then have "k - ?n = k' - ?n" using ps(1) by (metis add_less_imp_less_left le_add_diff_inverse nth_eq_iff_index_eq)
      then show ?thesis using \<open>?n \<le> k\<close> \<open>?n \<le> k'\<close> by linarith
    next
      assume "tasks s k = Some (j, CallVote p req)" "tasks s k' = Some (j, CallVote p req')"
      then show ?thesis using e by (rule uniq)
    qed (use e fresh in auto)
    ultimately show ?thesis unfolding task_inv_def using lt by blast
  qed
qed

lemma channel_step:
  assumes inv: "channel_inv N nm B s" and tsk: "task_inv N nm s" and i: "i \<in> N"
    and inb: "inbox (nodes s i) = m # ms" and h: "handle_msg so w m ((nodes s i)\<lparr>inbox := ms\<rparr>) = Done c"
    and up: "current_term (nodes s i) \<le> current_term c"
  shows "channel_inv N nm (B \<union> ballots N (spawn i c s)) (spawn i c s)"
proof -
  let ?s = "spawn i c s" and ?B = "B \<union> ballots N (spawn i c s)"
  obtain xs where xs: "inbox c = ms @ xs" "set xs \<subseteq> {SendAES, SendCommit}"
    using handle_msg_move(1) [OF h] by (auto simp: same_node_def)
  have msgs: "x \<in> set (inbox (nodes s p))" if "x \<in> set (inbox (nodes ?s p))" "x \<noteq> SendAES" "x \<noteq> SendCommit" for x p
    using that xs inb by (auto split: if_splits)
  have req: "k < next_task ?s \<and> (\<forall>t. tasks ?s k = Some t \<longrightarrow> (\<exists>j. t = (j, CallVote p rq)))"
    if "p \<in> N" "RequestVoteMsg rq k \<in> set (inbox (nodes ?s p))" for p rq k
    using inv msgs [OF that(2)] that(1) by (fastforce simp: channel_inv_def)
  have ans: "k < next_task ?s \<and> (\<forall>j rq. tasks ?s k = Some (j, CallVote p rq) \<longrightarrow> rvr_term r = rv_term rq \<and> (p, rv_term rq, nm j) \<in> ?B)"
    if "p \<in> N" "AnswerVote k (Inr r) \<in> set (answers (nodes ?s p))" and yes: "rvr_voted r" for p k r
  proof (cases "AnswerVote k (Inr r) \<in> set (answers (nodes s p))")
    case True
    then show ?thesis using inv that(1) yes by (fastforce simp: channel_inv_def)
  next
    case False
    then have p: "p = i" and "AnswerVote k (Inr r) \<in> set (answers c)" using that(2) by (auto split: if_splits)
    then obtain rq where m: "m = RequestVoteMsg rq k" and r: "rvr_term r = rv_term rq" "current_term c = rv_term rq"
        "voted_for c = Some (rv_candidate_id rq)"
      using handle_msg_answers [OF h _ yes] False p by auto
    then have k: "k < next_task s" "\<And>t. tasks s k = Some t \<Longrightarrow> \<exists>j. t = (j, CallVote i rq)"
      using inv i inb by (auto simp: channel_inv_def)
    have "(i, rv_term rq, rv_candidate_id rq) \<in> ballots N ?s" using r i by (simp add: ballots_def)
    then show ?thesis using k r(1) p tsk by (fastforce simp: task_inv_def)
  qed
  have vote: "t \<le> current_term (nodes ?s p)" if "p \<in> N" "VoteResult t True \<in> set (inbox (nodes ?s p))" for p t
    using inv msgs [OF that(2)] that(1) up by (fastforce simp: channel_inv_def)
  show ?thesis unfolding channel_inv_def using req ans vote by blast
qed

lemma count_step:
  assumes fin: "finite N" and inv: "count_inv N nm B s" and chn: "channel_inv N nm B s" and shape: "cluster_shape N nm s"
    and i: "i \<in> N" "in_bounds (nodes s i)" and inb: "inbox (nodes s i) = m # ms"
    and h: "handle_msg so w m ((nodes s i)\<lparr>inbox := ms\<rparr>) = Done c" and B: "B \<subseteq> B'"
  shows "count_inv N nm B' (spawn i c s)"
proof -
  let ?s = "spawn i c s" and ?c1 = "(nodes s i)\<lparr>inbox := ms\<rparr>" and ?t = "current_term (nodes s i)"
  obtain xs where xs: "inbox c = ms @ xs" "set xs \<subseteq> {SendAES, SendCommit}"
    using handle_msg_move(1) [OF h] by (auto simp: same_node_def)
  have mv: "election_move m ?c1 c" by (rule handle_msg_move(2) [OF h])
  have c1: "calls ?c1 = []" "current_term ?c1 < usize_max" "node_id ?c1 = nm i"
    using shape i by (simp_all add: cluster_shape_def in_bounds_def)
  have le: "term_vote_le ?c1 c" by (rule handle_msg_term [OF h c1(2)])
  have cl: "count_list (inbox c) (VoteResult t True) = count_list ms (VoteResult t True)" for t
    using xs by (auto simp: count_list_0_iff)
  have others: "card (credited N nm B s j t) \<le> card (credited N nm B' ?s j t)" if "j \<noteq> i" for j t
    by (rule credited_mono [OF fin B]) (use that spawn_tasks [of i c s] in blast)
  have mine: "card (credited N nm B s i ?t) \<le> card (credited N nm B' ?s i ?t)" if "current_term c = ?t"
    using mv c1(1,2)
  proof (cases rule: move_calls)
    case none
    then show ?thesis
      by (intro credited_mono [OF fin B]) (metis spawn_tasks add_less_imp_less_left le_add_diff_inverse nth_mem)
  qed (use that in simp)
  have vi: "state (nodes s i) = Candidate \<Longrightarrow> vote_count (nodes s i) + count_list (m # ms) (VoteResult ?t True) \<le> Suc (card (credited N nm B s i ?t))"
    and vf: "state (nodes s i) = Candidate \<or> state (nodes s i) = Leader \<Longrightarrow> voted_for (nodes s i) = Some (nm i)"
    using inv i(1) inb by (auto simp: count_inv_def)
  have no: "VoteResult t True \<notin> set ms" if "?t < t" for t
    using chn i(1) inb that by (force simp: channel_inv_def)
  have "(state c = Candidate \<longrightarrow> vote_count c + count_list (inbox c) (VoteResult (current_term c) True)
        \<le> Suc (card (credited N nm B' ?s i (current_term c))))
    \<and> (state c = Candidate \<or> state c = Leader \<longrightarrow> voted_for c = Some (nm i))"
    using mv
  proof cases
    case stay
    then show ?thesis using vi vf mine le by (auto simp: cl term_vote_le_def split: if_splits)
  next
    case (stand req)
    then have "?t < current_term c" using c1(2) by (simp add: usize_add_def usize_max_def)
    then have "count_list (inbox c) (VoteResult (current_term c) True) = 0" using no by (simp add: cl count_list_0_iff)
    then show ?thesis using stand c1(3) by simp
  next
    case count
    then show ?thesis using vi vf mine le by (auto simp: cl term_vote_le_def)
  qed simp
  then show ?thesis
    using inv others unfolding count_inv_def by (fastforce elim: order_trans)
qed

lemma cluster_peers: "cluster_shape N nm s \<Longrightarrow> finite N \<Longrightarrow> i \<in> N \<Longrightarrow> length (peers (nodes s i)) + 1 = card N"
  unfolding cluster_shape_def by (metis Suc_eq_plus1 card_Suc_Diff1 distinct_card)

lemma leader_step:
  assumes fin: "finite N" and inv: "leader_inv N nm B L s" and bal: "ballots N s \<subseteq> B" and cnt: "count_inv N nm B s"
    and shape: "cluster_shape N nm s" and i: "i \<in> N" and inb: "inbox (nodes s i) = m # ms"
    and mv: "election_move m ((nodes s i)\<lparr>inbox := ms\<rparr>) c" and B: "B \<subseteq> B'"
  shows "leader_inv N nm B' (L \<union> leaders N (spawn i c s)) (spawn i c s)"
proof -
  let ?t = "current_term (nodes s i)"
  have old: "j \<in> N \<and> card N div 2 + 1 \<le> card (voters N nm B' j t)" if "(j, t) \<in> L" for j t
    using inv that voters_mono [OF fin B, of nm j t] by (fastforce simp: leader_inv_def)
  have own: "i \<in> N \<and> card N div 2 + 1 \<le> card (voters N nm B' i (current_term c))" if "state c = Leader"
    using mv
  proof cases
    case stay
    then have "(i, current_term c) \<in> leaders N s" using that i by (simp add: leaders_def)
    then show ?thesis using old inv by (auto simp: leader_inv_def)
  next
    case count
    have q: "(length (peers (nodes s i)) + 1) div 2 + 1 \<le> Suc (card (credited N nm B s i ?t))"
      using cnt i inb count that unfolding count_inv_def by fastforce
    have "voted_for (nodes s i) = Some (nm i)" using cnt i count by (simp add: count_inv_def)
    then have "insert i (credited N nm B s i ?t) \<subseteq> voters N nm B i ?t"
      using bal i by (auto simp: credited_def voters_def ballots_def)
    then have "Suc (card (credited N nm B s i ?t)) \<le> card (voters N nm B i ?t)"
      using fin card_mono [of "voters N nm B i ?t" "insert i (credited N nm B s i ?t)"] by (simp add: credited_def voters_def)
    moreover have "length (peers (nodes s i)) + 1 = card N"
      by (rule cluster_peers [OF shape fin i])
    ultimately show ?thesis using q i count voters_mono [OF fin B, of nm i ?t] by simp
  qed (use that in auto)
  have "j \<in> N \<and> card N div 2 + 1 \<le> card (voters N nm B' j t)" if l: "(j, t) \<in> leaders N (spawn i c s)" for j t
  proof (cases "j = i")
    case True
    then show ?thesis using own l by (simp add: leaders_def)
  next
    case False
    then have "(j, t) \<in> leaders N s" using l by (simp add: leaders_def)
    then show ?thesis using inv old by (auto simp: leader_inv_def)
  qed
  then show ?thesis unfolding leader_inv_def using old by blast
qed

lemma handle_inv:
  assumes fin: "finite N" and inv: "election_inv N nm B L s" and i: "i \<in> N" "in_bounds (nodes s i)"
    and inb: "inbox (nodes s i) = m # ms" and h: "handle_msg so w m ((nodes s i)\<lparr>inbox := ms\<rparr>) = Done c"
  shows "election_inv N nm (B \<union> ballots N (spawn i c s)) (L \<union> leaders N (spawn i c s)) (spawn i c s)"
proof -
  note parts = inv [unfolded election_inv_def]
  have le: "term_vote_le (nodes s i) c"
    using handle_msg_term [OF h] i(2) by (simp add: in_bounds_def term_vote_le_def)
  then have up: "current_term (nodes s i) \<le> current_term c" by (auto simp: term_vote_le_def)
  have mv: "election_move m ((nodes s i)\<lparr>inbox := ms\<rparr>) c" by (rule handle_msg_move(2) [OF h])
  have "cluster_shape N nm (spawn i c s)"
    using parts i handle_msg_move(1) [OF h] by (auto simp: cluster_shape_def same_node_def)
  moreover have "ballot_inv N (B \<union> ballots N (spawn i c s)) (spawn i c s)"
    using parts le by (intro ballot_step [of N B s]) (auto simp: term_vote_le_def)
  moreover have "task_inv N nm (spawn i c s)" using parts i mv up by (intro task_step) auto
  moreover have "channel_inv N nm (B \<union> ballots N (spawn i c s)) (spawn i c s)"
    using parts i inb h up by (intro channel_step) auto
  moreover have "count_inv N nm (B \<union> ballots N (spawn i c s)) (spawn i c s)"
    using parts by (intro count_step [OF fin _ _ _ i inb h]) auto
  moreover have "leader_inv N nm (B \<union> ballots N (spawn i c s)) (L \<union> leaders N (spawn i c s)) (spawn i c s)"
    using parts by (intro leader_step [OF fin _ _ _ _ i(1) inb mv]) (auto simp: ballot_inv_def)
  ultimately show ?thesis by (simp add: election_inv_def)
qed

section \<open>Restarts and runs\<close>

lemma restarted_fields:
  assumes "start_node w urls (consensus_new so i d) = Done c"
  shows "node_id c = i" "state c = Follower" "inbox c = []" "calls c = []" "disk c = disk (consensus_new so i d)"
    "current_term c = current_term (consensus_new so i d)" "voted_for c = voted_for (consensus_new so i d)"
  using assms
  by (auto simp: start_node_def run_simps spawn_election_timer_def)
    (simp_all add: consensus_new_def restore_state_def Let_def split: prod.split sum.split)

text \<open>A node that comes back with its term and vote, as a follower with an empty inbox, keeps the invariant.\<close>

lemma restart_inv:
  fixes s :: "'s cluster" and c :: "'s Consensus" and i :: nat
  defines "s' \<equiv> s\<lparr>nodes := (nodes s)(i := c\<lparr>answers := answers (nodes s i)\<rparr>)\<rparr>"
  assumes inv: "election_inv N nm B L s" and i: "i \<in> N"
    and c: "node_id c = node_id (nodes s i)" "peers c = peers (nodes s i)" "state c = Follower" "inbox c = []" "calls c = []"
      "current_term c = current_term (nodes s i)" "voted_for c = voted_for (nodes s i)"
  shows "election_inv N nm B L s' \<and> ballots N s' = ballots N s \<and> leaders N s' \<subseteq> leaders N s"
proof -
  have f: "node_id (nodes s' j) = node_id (nodes s j)" "peers (nodes s' j) = peers (nodes s j)"
      "answers (nodes s' j) = answers (nodes s j)" "current_term (nodes s' j) = current_term (nodes s j)"
      "voted_for (nodes s' j) = voted_for (nodes s j)" "inbox (nodes s' j) = (if j = i then [] else inbox (nodes s j))"
      "state (nodes s' j) = (if j = i then Follower else state (nodes s j))"
      "vote_count (nodes s' j) = (if j = i then vote_count c else vote_count (nodes s j))"
      "calls (nodes s' j) = (if j = i then [] else calls (nodes s j))" for j
    using c by (simp_all add: s'_def)
  have t: "tasks s' = tasks s" "next_task s' = next_task s" by (simp_all add: s'_def)
  have b: "ballots N s' = ballots N s" and l: "leaders N s' \<subseteq> leaders N s"
    by (auto simp: ballots_def leaders_def f split: if_splits)
  note parts = inv [unfolded election_inv_def]
  have "credited N nm B s' = credited N nm B s" by (intro ext) (simp add: credited_def t)
  then have "count_inv N nm B s'" using parts by (simp add: count_inv_def f)
  moreover have "channel_inv N nm B s'" using parts by (simp add: channel_inv_def f t)
  moreover have "task_inv N nm s'" using parts by (simp add: task_inv_def f t)
  moreover have "ballot_inv N B s'" using parts by (simp add: ballot_inv_def f b)
  moreover have "leader_inv N nm B L s'" using parts l by (auto simp: leader_inv_def)
  moreover have "cluster_shape N nm s'" using parts by (simp add: cluster_shape_def f)
  ultimately show ?thesis using b l by (simp add: election_inv_def)
qed

lemma started_inv: "started N nm s \<Longrightarrow> election_inv N nm (ballots N s) (leaders N s) s"
  by (auto simp: started_def election_inv_def ballot_inv_def task_inv_def channel_inv_def count_inv_def leader_inv_def
      ballots_def leaders_def)

lemma election_inv_unique:
  assumes "finite N" "inj_on nm N" "election_inv N nm B L s" "(i, t) \<in> L" "(j, t) \<in> L"
  shows "i = j"
proof (rule quorums_meet [OF assms(1,2)])
  show "i \<in> N" "j \<in> N" "card N div 2 + 1 \<le> card (voters N nm B i t)" "card N div 2 + 1 \<le> card (voters N nm B j t)"
    using assms(3-5) by (auto simp: election_inv_def leader_inv_def)
  show "\<And>p v v'. (p, t, v) \<in> B \<Longrightarrow> (p, t, v') \<in> B \<Longrightarrow> v = v'"
    using assms(3) unfolding election_inv_def ballot_inv_def by blast
qed

text \<open>Every step keeps the invariant, provided a restarted node comes back with its term and vote.\<close>

lemma cluster_step_inv:
  assumes step: "cluster_step so reboot N s s'" and fin: "finite N" and inv: "election_inv N nm B L s"
    and keeps: "\<And>i d. i \<in> N \<Longrightarrow> reboot (disk (nodes s i)) d \<Longrightarrow>
      current_term (consensus_new so (node_id (nodes s i)) d) = current_term (nodes s i)
      \<and> voted_for (consensus_new so (node_id (nodes s i)) d) = voted_for (nodes s i)"
  shows "election_inv N nm (B \<union> ballots N s') (L \<union> leaders N s') s'"
proof -
  have sub: "ballots N s \<subseteq> B" "leaders N s \<subseteq> L" using inv by (auto simp: election_inv_def ballot_inv_def leader_inv_def)
  have same: "election_inv N nm (B \<union> ballots N s') (L \<union> leaders N s') s'"
    if "election_inv N nm B L s'" "ballots N s' = ballots N s" "leaders N s' \<subseteq> leaders N s"
    using that sub by (metis sup.absorb1 sup.coboundedI1 order_trans)
  from step show ?thesis
  proof cases
    case (handle i m ms w c)
    then show ?thesis using handle_inv [OF fin inv] by simp
  next
    case (tick i m)
    then have "election_inv N nm B L s'" using inv by (auto intro!: deliver_quiet)
    then show ?thesis using tick by (intro same) simp_all
  next
    case (request k i cl)
    have "k < next_task s" using request(2) inv by (auto simp: election_inv_def task_inv_def)
    then have "election_inv N nm B L s'"
      using request(2) unfolding request(1) by (intro deliver_quiet [OF inv]) (cases cl; auto)+
    then show ?thesis using request by (intro same) simp_all
  next
    case (reply k i cl a m)
    have "election_inv N nm B L s'"
    proof (cases "\<exists>t. m = VoteResult t True")
      case True
      then obtain p rq r where "cl = CallVote p rq" "a = AnswerVote k (Inr r)" "rvr_voted r" "m = VoteResult (rvr_term r) True"
        using reply(4,5) by (elim reply_msg.elims) auto
      then show ?thesis using deliver_vote [OF fin inv] reply by auto
    next
      case False
      moreover have "\<And>rq k. m \<noteq> RequestVoteMsg rq k" using reply(5) by (elim reply_msg.elims) auto
      ultimately show ?thesis using forget_inv [OF fin inv] unfolding reply(1) by (intro deliver_quiet) auto
    qed
    then show ?thesis using reply by (intro same) simp_all
  next
    case (lose k)
    then show ?thesis using forget_inv [OF fin inv] by (intro same) simp_all
  next
    case (restart i d w urls c)
    have "current_term c = current_term (nodes s i)" "voted_for c = voted_for (nodes s i)"
      using keeps [OF restart(2,3)] restarted_fields(6,7) [OF restart(4)] by simp_all
    then show ?thesis
      using restart_inv [OF inv restart(2), of c] restarted_fields(1-4) [OF restart(4)] restart(1,5) same by simp
  qed
qed

context rebooting_storage
begin

lemma cluster_step_durable:
  assumes "cluster_step so reboot N s s'" "\<forall>i \<in> N. durable ok saved (nodes s i)"
  shows "\<forall>i \<in> N. durable ok saved (nodes s' i)"
  using assms(1)
proof cases
  case (handle i m ms w c)
  have "durable ok saved ((nodes s i)\<lparr>inbox := ms\<rparr>)" using assms(2) handle(2) by (simp add: durable_def)
  then have "durable ok saved c" using handle_msg_durable handle(5) by blast
  then show ?thesis using assms(2) handle(1) by (simp add: durable_def)
next
  case (restart i d w urls c)
  have "durable ok saved (consensus_new so (node_id (nodes s i)) d)"
    using assms(2) restart(2,3) by (intro consensus_new_durable) (auto simp: durable_def)
  then have "durable ok saved c" using restarted_fields [OF restart(4)] by (simp add: durable_def)
  then show ?thesis using assms(2) restart(1) by (simp add: durable_def)
qed (use assms(2) in \<open>simp_all add: durable_def\<close>)

lemma reboot_keeps:
  assumes "durable ok saved c" "reboot (disk c) d"
  shows "current_term (consensus_new so i d) = current_term c \<and> voted_for (consensus_new so i d) = voted_for c"
  using consensus_new_durable(2) [of "disk c" d i] assms by (simp add: durable_def)

lemma cluster_run_inv:
  assumes "cluster_run so reboot N s0 s B L" "started N nm s0" "\<forall>i \<in> N. durable ok saved (nodes s0 i)"
  shows "election_inv N nm B L s \<and> (\<forall>i \<in> N. durable ok saved (nodes s i))"
  using assms
proof (induction rule: cluster_run.induct)
  case init
  then show ?case using started_inv by blast
next
  case (step s B L s')
  then show ?case
    using cluster_step_inv [OF step.hyps(2), of nm B L] cluster_step_durable [OF step.hyps(2)] reboot_keeps
    by (simp add: started_def)
qed

lemma one_leader_per_term:
  assumes "cluster_run so reboot N s0 s B L" "started N nm s0" "\<forall>i \<in> N. durable ok saved (nodes s0 i)"
    and "(i, t) \<in> L" "(j, t) \<in> L"
  shows "i = j"
  using cluster_run_inv [OF assms(1-3)] assms(2) by (intro election_inv_unique [OF _ _ _ assms(4,5)]) (auto simp: started_def)

end

section \<open>A cluster of three\<close>

text \<open>Three nodes on empty files, and a run in which the first is elected with the vote of the second.\<close>

definition demo_name :: "nat \<Rightarrow> string" where
  "demo_name i = replicate i (CHR ''n'')"

definition demo_cluster :: "ConFileStorage cluster" where
  "demo_cluster = \<lparr>nodes = (\<lambda>i. (fresh_node (demo_name i))\<lparr>peers := filter (\<lambda>p. p \<noteq> i) [4, 5, 6],
     election_reset_event := Some 0\<rparr>), tasks = Map.empty, next_task = 0\<rparr>"

lemma demo_started: "started {4, 5, 6} demo_name demo_cluster"
  unfolding started_def
proof (intro conjI)
  show "inj_on demo_name {4, 5, 6}" by (simp add: demo_name_def eval_nat_numeral)
  show "cluster_shape {4, 5, 6} demo_name demo_cluster"
    by (auto simp: cluster_shape_def demo_cluster_def)
qed (simp_all add: demo_cluster_def)

lemma demo_durable: "\<forall>i \<in> {4, 5, 6}. durable (meta_ok demo_codec) (saved_meta demo_codec) (nodes demo_cluster i)"
  using fresh_node_durable by (simp add: demo_cluster_def durable_def)

definition demo_request :: RequestVote where
  "demo_request = \<lparr>rv_term = 1, rv_candidate_id = demo_name 4, rv_last_log_index = 0, rv_last_log_term = 0\<rparr>"

text \<open>The candidate's and the voter's messages, each for any storage.\<close>

lemma demo_stand:
  assumes "state c = Follower" "current_term c = 0" "election_reset_event c = Some 0" "logs c = []" "calls c = []"
    "node_id c = demo_name 4" "peers c = [5, 6]"
  shows "\<exists>c'. handle_msg so demo_world (StartElection 0) c = Done c' \<and> state c' = Candidate \<and> current_term c' = 1 \<and> vote_count c' = 1
    \<and> calls c' = [CallVote 5 demo_request, CallVote 6 demo_request] \<and> inbox c' = inbox c \<and> peers c' = [5, 6] \<and> logs c' = []
    \<and> rx_closed c' = rx_closed c"
  using assms by (simp add: start_election_def Let_def demo_request_def last_log_def usize_add_def)

lemma demo_grant:
  assumes "state c = Follower" "current_term c = 0" "logs c = []" "calls c = []"
  shows "\<exists>c'. handle_msg so demo_world (RequestVoteMsg demo_request 0) c = Done c' \<and> calls c' = []
    \<and> answers c' = answers c @ [AnswerVote 0 (Inr \<lparr>rvr_term = 1, rvr_voted = True\<rparr>)]"
  using assms by (simp add: request_vote_def demo_request_def last_log_def Let_def)

lemma demo_win:
  assumes "state c = Candidate" "current_term c = 1" "vote_count c = 1" "peers c = [5, 6]" "inbox c = []"
    "logs c = []" "\<not> rx_closed c"
  shows "\<exists>c'. handle_msg so demo_world (VoteResult 1 True) c = Done c' \<and> state c' = Leader \<and> current_term c' = 1
    \<and> peers c' = [5, 6] \<and> inbox c' = [SendAES] \<and> logs c' = [] \<and> next_index c' 6 = Some 0 \<and> \<not> rx_closed c'"
  using assms by (simp add: vote_result_def start_leader_def Let_def send_self_def INBOX_CAP_def)

definition reached :: "'s storage_ops \<Rightarrow> ('s \<Rightarrow> 's \<Rightarrow> bool) \<Rightarrow> nat set \<Rightarrow> 's cluster \<Rightarrow> 's cluster \<Rightarrow> bool" where
  "reached so reboot N s0 s \<longleftrightarrow> (\<exists>B L. cluster_run so reboot N s0 s B L)"

lemma reached_step: "reached so reboot N s0 s \<Longrightarrow> cluster_step so reboot N s s' \<Longrightarrow> reached so reboot N s0 s'"
  unfolding reached_def by (blast intro: cluster_run.step)

lemma reached_handle:
  assumes "reached so reboot N s0 s" "handle_msg so w m ((nodes s i)\<lparr>inbox := []\<rparr>) = Done c"
    "i \<in> N" "in_bounds (nodes s i)" "inbox (nodes s i) = [m]"
  shows "reached so reboot N s0 (spawn i c s)"
  by (rule reached_step [OF assms(1) cluster_step.handle [OF assms(3,4,5,2)]])

text \<open>The candidacy, the vote, and the victory.\<close>

lemma demo_candidate:
  obtains c s where "reached so reboot {4, 5, 6} demo_cluster s" "nodes s 4 = c\<lparr>calls := []\<rparr>" "nodes s 5 = nodes demo_cluster 5"
    "tasks s 0 = Some (4, CallVote 5 demo_request)" "next_task s = 2" "state c = Candidate" "current_term c = 1" "vote_count c = 1"
    "inbox c = []" "peers c = [5, 6]" "logs c = []" "\<not> rx_closed c" "nodes s 6 = nodes demo_cluster 6"
proof -
  let ?s = "deliver 4 (StartElection 0) demo_cluster"
  have n: "nodes ?s 4 = (fresh_node (demo_name 4))\<lparr>peers := [5, 6], election_reset_event := Some 0, inbox := [StartElection 0]\<rparr>"
    by (simp add: deliver_def demo_cluster_def)
  have "reached so reboot {4, 5, 6} demo_cluster demo_cluster"
    unfolding reached_def by (blast intro: cluster_run.init)
  then have r: "reached so reboot {4, 5, 6} demo_cluster ?s"
    by (rule reached_step) (simp add: cluster_step.tick)
  obtain c where c: "handle_msg so demo_world (StartElection 0) ((nodes ?s 4)\<lparr>inbox := []\<rparr>) = Done c"
      "state c = Candidate" "current_term c = 1" "vote_count c = 1" "calls c = [CallVote 5 demo_request, CallVote 6 demo_request]"
      "inbox c = []" "peers c = [5, 6]" "logs c = []" "\<not> rx_closed c"
    using demo_stand [of "(nodes ?s 4)\<lparr>inbox := []\<rparr>" so] by (simp del: handle_msg.simps add: n) blast
  have "reached so reboot {4, 5, 6} demo_cluster (spawn 4 c ?s)"
    by (rule reached_handle [OF r c(1)]) (simp_all add: n in_bounds_def usize_max_def)
  then show ?thesis
    using c by (intro that [of "spawn 4 c ?s" c]) (simp_all add: spawn_def deliver_def demo_cluster_def)
qed

lemma demo_vote_returned:
  obtains c s where "reached so reboot {4, 5, 6} demo_cluster s" "nodes s 4 = c\<lparr>calls := [], inbox := [VoteResult 1 True]\<rparr>"
    "state c = Candidate" "current_term c = 1" "vote_count c = 1" "peers c = [5, 6]" "logs c = []" "\<not> rx_closed c"
    "nodes s 6 = nodes demo_cluster 6"
proof -
  obtain c s where s: "reached so reboot {4, 5, 6} demo_cluster s" "nodes s 4 = c\<lparr>calls := []\<rparr>" "nodes s 5 = nodes demo_cluster 5"
      "tasks s 0 = Some (4, CallVote 5 demo_request)" "next_task s = 2"
    and c: "state c = Candidate" "current_term c = 1" "vote_count c = 1" "inbox c = []" "peers c = [5, 6]" "logs c = []"
      "\<not> rx_closed c" "nodes s 6 = nodes demo_cluster 6"
    by (rule demo_candidate)
  let ?s = "deliver 5 (RequestVoteMsg demo_request 0) s"
  have n: "nodes ?s 5 = (fresh_node (demo_name 5))\<lparr>peers := [4, 6], election_reset_event := Some 0, inbox := [RequestVoteMsg demo_request 0]\<rparr>"
    by (simp add: deliver_def s(3)) (simp add: demo_cluster_def)
  have r: "reached so reboot {4, 5, 6} demo_cluster ?s"
    using reached_step [OF s(1) cluster_step.request [OF s(4)]] by simp
  obtain v where v: "handle_msg so demo_world (RequestVoteMsg demo_request 0) ((nodes ?s 5)\<lparr>inbox := []\<rparr>) = Done v" "calls v = []"
      "answers v = [AnswerVote 0 (Inr \<lparr>rvr_term = 1, rvr_voted = True\<rparr>)]"
    using demo_grant [of "(nodes ?s 5)\<lparr>inbox := []\<rparr>" so] by (simp del: handle_msg.simps add: n) blast
  let ?s' = "spawn 5 v ?s"
  have r': "reached so reboot {4, 5, 6} demo_cluster ?s'"
    by (rule reached_handle [OF r v(1)]) (simp_all add: n in_bounds_def usize_max_def)
  have "tasks ?s' 0 = Some (4, CallVote 5 demo_request)" using s(4,5) by simp
  from cluster_step.reply [OF this, of "AnswerVote 0 (Inr \<lparr>rvr_term = 1, rvr_voted = True\<rparr>)" "VoteResult 1 True"]
  have "reached so reboot {4, 5, 6} demo_cluster (deliver 4 (VoteResult 1 True) (forget 0 ?s'))"
    by (intro reached_step [OF r']) (simp add: v)
  moreover have "nodes (deliver 4 (VoteResult 1 True) (forget 0 ?s')) 4 = c\<lparr>calls := [], inbox := [VoteResult 1 True]\<rparr>"
    by (simp add: deliver_def s(2) c)
  moreover have "nodes (deliver 4 (VoteResult 1 True) (forget 0 ?s')) 6 = nodes demo_cluster 6"
    using c(8) by (simp add: deliver_def)
  ultimately show ?thesis using c(1-3,5-7) that by blast
qed

text \<open>The first node leads term 1 with an empty log; the third has heard nothing yet.\<close>

definition demo_leads :: "LogEntry list \<Rightarrow> ConsensusMsg list \<Rightarrow> 's Consensus \<Rightarrow> bool" where
  "demo_leads ls ms c \<longleftrightarrow> state c = Leader \<and> current_term c = 1 \<and> peers c = [5, 6] \<and> next_index c 6 = Some 0 \<and> logs c = ls
     \<and> inbox c = ms \<and> \<not> rx_closed c"

lemma demo_leader:
  obtains s where "reached so reboot {4, 5, 6} demo_cluster s" "demo_leads [] [SendAES] (nodes s 4)" "calls (nodes s 4) = []"
    "nodes s 6 = nodes demo_cluster 6"
proof -
  obtain c s where s: "reached so reboot {4, 5, 6} demo_cluster s" "nodes s 4 = c\<lparr>calls := [], inbox := [VoteResult 1 True]\<rparr>"
      "state c = Candidate" "current_term c = 1" "vote_count c = 1" "peers c = [5, 6]" "logs c = []" "\<not> rx_closed c"
      "nodes s 6 = nodes demo_cluster 6"
    by (rule demo_vote_returned)
  obtain c' where c': "handle_msg so demo_world (VoteResult 1 True) ((nodes s 4)\<lparr>inbox := []\<rparr>) = Done c'"
      "demo_leads [] [SendAES] c'"
    using demo_win [of "(nodes s 4)\<lparr>inbox := []\<rparr>" so] s unfolding demo_leads_def by (simp del: handle_msg.simps) blast
  have "reached so reboot {4, 5, 6} demo_cluster (spawn 4 c' s)"
    by (rule reached_handle [OF s(1) c'(1)]) (simp_all add: s in_bounds_def usize_max_def)
  then show ?thesis using c'(2) s(9) by (intro that [of "spawn 4 c' s"]) (simp_all add: demo_leads_def)
qed

lemma run_leaders: "cluster_run so reboot N s0 s B L \<Longrightarrow> leaders N s \<subseteq> L"
  by (erule cluster_run.cases) auto

lemma demo_elected: "\<exists>s B L. cluster_run so reboot {4, 5, 6} demo_cluster s B L \<and> (4, 1) \<in> L"
proof -
  obtain s where "reached so reboot {4, 5, 6} demo_cluster s" "demo_leads [] [SendAES] (nodes s 4)"
    by (rule demo_leader)
  moreover from this(2) have "(4, 1) \<in> leaders {4, 5, 6} s" by (simp add: leaders_def demo_leads_def)
  ultimately show ?thesis using run_leaders unfolding reached_def by blast
qed

section \<open>Properties\<close>



end
