(* ===== verification/Log_Agreement.thy ===== *)
theory Log_Agreement
  imports Consensus_Cluster
begin

text \<open>
  The logs of the nodes of a cluster (\<^verbatim>\<open>efis/src/consensus.rs\<close>) in runs without restarts: wherever two logs have an
  entry of the same term at the same index, they agree up to that index. The invariant is over
  all logs that some node ever held. An accepted \<^verbatim>\<open>append_entries\<close> leaves a log that was held before, so
  only a leader's submission adds one, and election safety makes its new entry the only one of its
  term at its index. Restarts are left out because the storage does not bring back the log in its
  order (\<open>Log_Storage\<close>).
\<close>

section \<open>What one message does to the log\<close>

text \<open>A request that carries what follows a position of a log.\<close>

definition ae_from :: "LogEntry list \<Rightarrow> AppendEntries \<Rightarrow> bool" where
  "ae_from l req \<longleftrightarrow> insert_at req \<le> length l \<and> prev_ok req l \<and> ae_entries req = drop (insert_at req) l"

lemma ae_from_splice:
  assumes "ae_from l req" "prev_ok req f" "log_matching f l"
  shows "splice_entries (insert_at req) (ae_entries req) f \<in> {f, l}"
proof -
  have "take (insert_at req) f = take (insert_at req) l \<and> insert_at req \<le> length f"
  proof (cases "ae_prev_log_index req")
    case (Some i)
    then have "i < length f" "i < length l" "le_term (f ! i) = le_term (l ! i)"
      using assms(1,2) by (auto simp: ae_from_def prev_ok_def split: option.splits)
    then show ?thesis using assms(3) Some by (simp add: log_matching_def insert_at_def)
  qed (simp add: insert_at_def)
  then show ?thesis
    using splice_replicates [OF assms(3)] assms(1) by (auto simp: ae_from_def)
qed

lemma send_leader_aes_log [simp]:
  "logs (send_leader_aes c) = logs c" "state (send_leader_aes c) = state c" "current_term (send_leader_aes c) = current_term c"
proof -
  have "logs (fold send_ae_to ps c) = logs c \<and> state (fold send_ae_to ps c) = state c
      \<and> current_term (fold send_ae_to ps c) = current_term c" for ps
    by (induction ps arbitrary: c) (simp_all add: send_ae_to_def Let_def)
  then show "logs (send_leader_aes c) = logs c" "state (send_leader_aes c) = state c"
    "current_term (send_leader_aes c) = current_term c"
    by (simp_all add: send_leader_aes_def)
qed

text \<open>The requests a leader sends are cut from its own log.\<close>

definition own_call :: "'s Consensus \<Rightarrow> call \<Rightarrow> bool" where
  "own_call c cl \<longleftrightarrow> (case cl of CallVote _ _ \<Rightarrow> True
     | CallAppend p _ req \<Rightarrow> p \<in> set (peers c) \<and> ae_term req = current_term c \<and> ae_from (logs c) req)"

lemma send_ae_to_own:
  "p \<in> set (peers c) \<Longrightarrow> \<exists>cl. calls (send_ae_to p c) = calls c @ [cl] \<and> own_call c cl"
  using send_ae_to_call [of p c] by (auto simp: own_call_def ae_from_def prev_ok_def split: if_splits)

lemma fold_own_calls:
  assumes "set ps \<subseteq> set (peers c)"
  shows "\<exists>cls. calls (fold send_ae_to ps c) = calls c @ cls \<and> list_all (own_call c) cls"
  using assms
proof (induction ps arbitrary: c)
  case (Cons p ps)
  obtain cl where cl: "calls (send_ae_to p c) = calls c @ [cl]" "own_call c cl"
    using send_ae_to_own [of p c] Cons.prems by auto
  have same: "own_call (send_ae_to p c) = own_call c" "peers (send_ae_to p c) = peers c"
    by (auto simp: own_call_def send_ae_to_def Let_def fun_eq_iff split: call.splits)
  obtain cls where "calls (fold send_ae_to ps (send_ae_to p c)) = calls (send_ae_to p c) @ cls" "list_all (own_call c) cls"
    using Cons.IH [of "send_ae_to p c"] Cons.prems same by auto
  then show ?case using cl by auto
qed simp

text \<open>The three ways in which a message can leave a node's log.\<close>

inductive log_move :: "ConsensusMsg \<Rightarrow> 's Consensus \<Rightarrow> 's Consensus \<Rightarrow> bool" where
  same: "logs c' = logs c \<Longrightarrow> log_move m c c'"
| submit: "state c = Leader \<Longrightarrow> logs c' = logs c @ [\<lparr>le_command = cmd, le_term = current_term c\<rparr>] \<Longrightarrow> state c' = Leader
    \<Longrightarrow> current_term c' = current_term c \<Longrightarrow> log_move m c c'"
| merge: "m = AppendEntryMsg req k \<Longrightarrow> current_term c \<le> ae_term req \<Longrightarrow> current_term c' = ae_term req \<Longrightarrow> prev_ok req (logs c)
    \<Longrightarrow> logs c' = splice_entries (insert_at req) (ae_entries req) (logs c) \<Longrightarrow> log_move m c c'"

lemma append_entries_log:
  assumes "append_entries so w req c = Done (r, c')"
  shows "log_move (AppendEntryMsg req k) c c'"
proof (cases "state c = Dead \<or> ae_term req < current_term c \<or> \<not> prev_ok req (logs c)")
  case True
  then show ?thesis
    using assms by (intro log_move.same) (auto simp: append_entries_def ae_follow_def Let_def run_simps split: if_splits)
next
  case False
  then show ?thesis
    using assms ae_commit_keeps
    by (intro log_move.merge) (fastforce simp: append_entries_def ae_follow_def Let_def run_simps split: if_splits)+
qed

lemma handle_msg_log:
  assumes "handle_msg so w m c = Done c'"
  shows "log_move m c c'"
proof (cases m)
  case (AppendEntryMsg req k)
  then obtain r c1 where r: "append_entries so w req c = Done (r, c1)" and c': "c' = c1\<lparr>answers := answers c1 @ [AnswerAppend k r]\<rparr>"
    using assms by (auto simp: run_simps)
  show ?thesis
    using append_entries_log [OF r, of k] unfolding AppendEntryMsg c'
    by (auto elim!: log_move.cases intro: log_move.intros)
next
  case (Submit cmd)
  then show ?thesis
    using assms
    by (auto simp: submit_entry_def Let_def run_simps split: if_splits dest!: send_self_Done intro: log_move.intros)
next
  case (RequestVoteMsg req k)
  then show ?thesis
    using assms by (intro log_move.same) (auto simp: request_vote_def Let_def split: if_splits)
next
  case (StartElection d)
  then show ?thesis
    using assms by (intro log_move.same) (auto simp: start_election_def Let_def split: if_splits option.splits)
next
  case SendCommit
  then show ?thesis
    using assms by (intro log_move.same) (auto simp: send_commits_def Let_def run_simps split: if_splits option.splits)
next
  case (AppendEntryResult p ni reply)
  then show ?thesis
    using assms by (intro log_move.same) (auto simp: handle_ae_res_def Let_def run_simps split: if_splits dest!: send_self_Done)
next
  case (VoteResult t v)
  then show ?thesis
    using assms by (intro log_move.same)
      (auto simp: vote_result_def start_leader_def Let_def run_simps split: if_splits dest!: send_self_Done)
qed (use assms in \<open>auto intro: log_move.same\<close>)

text \<open>A leader leads until it moves to a later term.\<close>

lemma handle_msg_leads:
  assumes "handle_msg so w m c = Done c'" "state c = Leader"
  shows "current_term c < current_term c' \<or> current_term c' = current_term c \<and> state c' = Leader"
proof (cases m)
  case (AppendEntryMsg req k)
  then obtain r c1 where r: "append_entries so w req c = Done (r, c1)" and c': "c' = c1\<lparr>answers := answers c1 @ [AnswerAppend k r]\<rparr>"
    using assms(1) by (auto simp: run_simps)
  have "current_term c1 = current_term (ae_follow so w req c) \<and> state c1 = state (ae_follow so w req c)"
    using append_entries_aside [OF r] assms(2) by (simp add: aside_def)
  then show ?thesis using assms(2) by (simp add: c' ae_follow_def Let_def)
next
  case (RequestVoteMsg req k)
  then show ?thesis
    using assms by (auto simp: request_vote_def Let_def split: if_splits)
next
  case (AppendEntryResult p ni reply)
  then show ?thesis
    using assms by (auto simp: handle_ae_res_def Let_def run_simps split: if_splits dest!: send_self_Done)
next
  case (Submit cmd)
  then show ?thesis using assms submit_entry_aside [of so cmd c c'] by (simp add: aside_def)
next
  case SendCommit
  then show ?thesis using assms send_commits_aside [of c c'] by (simp add: aside_def)
qed (use assms in \<open>auto simp: vote_result_def\<close>)

text \<open>The calls to append that a message causes are made by a leader, from its log and in its term.\<close>

lemma handle_msg_append_calls:
  assumes "handle_msg so w m c = Done c'" "CallAppend p ni req \<in> set (calls c')"
  shows "CallAppend p ni req \<in> set (calls c) \<or> state c = Leader \<and> own_call c (CallAppend p ni req)"
proof (cases m)
  case SendAES
  then show ?thesis
    using assms fold_own_calls [of "peers c" c] by (auto simp: send_leader_aes_def list_all_iff split: if_splits)
next
  case (AppendEntryMsg rq k)
  then obtain r c1 where r: "append_entries so w rq c = Done (r, c1)" and c': "c' = c1\<lparr>answers := answers c1 @ [AnswerAppend k r]\<rparr>"
    using assms(1) by (auto simp: run_simps)
  have "calls c1 = calls c"
  proof (cases "state c = Dead")
    case True
    then show ?thesis using r by (simp add: append_entries_def)
  next
    case False
    then show ?thesis
      using append_entries_aside [OF r] ae_follow_aside [of c rq so w] by (auto simp: aside_def split: if_splits)
  qed
  then show ?thesis using assms(2) c' by simp
next
  case (RequestVoteMsg rq k)
  then show ?thesis using assms by (auto simp: request_vote_def Let_def split: if_splits)
next
  case (StartElection d)
  then show ?thesis using assms by (auto simp: start_election_def Let_def split: if_splits option.splits)
next
  case (Submit cmd)
  then show ?thesis using assms submit_entry_aside [of so cmd c c'] by (auto simp: aside_def split: if_splits)
next
  case SendCommit
  then show ?thesis using assms send_commits_aside [of c c'] by (simp add: aside_def)
next
  case (AppendEntryResult q n reply)
  then show ?thesis
    using assms by (auto simp: handle_ae_res_def Let_def run_simps split: if_splits dest!: send_self_Done)
next
  case (VoteResult t v)
  then show ?thesis
    using assms by (auto simp: vote_result_def start_leader_def Let_def run_simps split: if_splits dest!: send_self_Done)
qed

section \<open>The invariant of logs\<close>

text \<open>
  \<open>G\<close> are the logs held so far, \<open>L\<close> the terms led. Every entry belongs to a term that was led, and the
  leader of a term still holds all entries of that term while it leads. The entries of one term form
  a block: a log with a later one has all earlier ones.
\<close>

definition term_block :: "LogEntry list \<Rightarrow> LogEntry list \<Rightarrow> bool" where
  "term_block f l \<longleftrightarrow> (\<forall>b < length l. \<forall>a \<le> b. a < length f \<and> le_term (f ! a) = le_term (l ! b) \<longrightarrow> le_term (l ! a) = le_term (l ! b))"

definition matching_logs :: "LogEntry list set \<Rightarrow> bool" where
  "matching_logs G \<longleftrightarrow> (\<forall>f \<in> G. \<forall>l \<in> G. log_matching f l \<and> term_block f l)"

definition entry_terms :: "LogEntry list set \<Rightarrow> (nat \<times> nat) set \<Rightarrow> bool" where
  "entry_terms G L \<longleftrightarrow> (\<forall>l \<in> G. \<forall>e \<in> set l. \<exists>j. (j, le_term e) \<in> L)"

definition holds_term :: "LogEntry list set \<Rightarrow> LogEntry list \<Rightarrow> nat \<Rightarrow> bool" where
  "holds_term G ls t \<longleftrightarrow> (\<forall>l \<in> G. \<forall>k < length l. le_term (l ! k) = t \<longrightarrow> k < length ls \<and> le_term (ls ! k) = t)"

definition request_ok :: "LogEntry list set \<Rightarrow> (nat \<times> nat) set \<Rightarrow> nat \<Rightarrow> AppendEntries \<Rightarrow> bool" where
  "request_ok G L p req \<longleftrightarrow> (\<exists>l \<in> G. ae_from l req) \<and> (\<exists>i. i \<noteq> p \<and> (i, ae_term req) \<in> L)"

definition log_held :: "nat set \<Rightarrow> LogEntry list set \<Rightarrow> 's cluster \<Rightarrow> bool" where
  "log_held N G s \<longleftrightarrow> (\<forall>i \<in> N. logs (nodes s i) \<in> G
     \<and> (state (nodes s i) = Leader \<longrightarrow> holds_term G (logs (nodes s i)) (current_term (nodes s i))))"

definition lead_inv :: "(nat \<times> nat) set \<Rightarrow> 's cluster \<Rightarrow> bool" where
  "lead_inv L s \<longleftrightarrow> (\<forall>i t. (i, t) \<in> L \<longrightarrow> t < current_term (nodes s i) \<or> t = current_term (nodes s i) \<and> state (nodes s i) = Leader)"

definition request_inv :: "nat set \<Rightarrow> LogEntry list set \<Rightarrow> (nat \<times> nat) set \<Rightarrow> 's cluster \<Rightarrow> bool" where
  "request_inv N G L s \<longleftrightarrow>
     (\<forall>p \<in> N. \<forall>req k. AppendEntryMsg req k \<in> set (inbox (nodes s p)) \<longrightarrow> request_ok G L p req)
     \<and> (\<forall>k i p ni req. tasks s k = Some (i, CallAppend p ni req) \<longrightarrow> request_ok G L p req)"

definition log_inv :: "nat set \<Rightarrow> LogEntry list set \<Rightarrow> (nat \<times> nat) set \<Rightarrow> 's cluster \<Rightarrow> bool" where
  "log_inv N G L s \<longleftrightarrow> matching_logs G \<and> entry_terms G L \<and> log_held N G s \<and> lead_inv L s \<and> request_inv N G L s"

lemma request_ok_mono: "request_ok G L p req \<Longrightarrow> G \<subseteq> G' \<Longrightarrow> L \<subseteq> L' \<Longrightarrow> request_ok G' L' p req"
  unfolding request_ok_def by blast

lemma request_received:
  "request_inv N G L s \<Longrightarrow> p \<in> N \<Longrightarrow> AppendEntryMsg req k \<in> set (inbox (nodes s p)) \<Longrightarrow> request_ok G L p req"
  unfolding request_inv_def by blast

lemma log_matching_sym: "log_matching f l \<Longrightarrow> log_matching l f"
  by (simp add: log_matching_def)

lemma log_matching_refl: "log_matching l l"
  by (simp add: log_matching_def)

text \<open>An entry put behind a log, where no other log has an entry of its term, keeps the logs matching.\<close>

lemma snoc_block:
  assumes "holds_term G ls (le_term e)" "f \<in> G"
  shows "term_block f ls \<Longrightarrow> term_block f (ls @ [e])" "term_block ls f \<Longrightarrow> term_block (ls @ [e]) f"
proof -
  have h: "k < length ls \<and> le_term (ls ! k) = le_term e" if "k < length f" "le_term (f ! k) = le_term e" for k
    using assms that by (auto simp: holds_term_def)
  show "term_block f (ls @ [e])" if "term_block f ls"
    unfolding term_block_def
  proof (intro allI impI)
    fix b a assume b: "b < length (ls @ [e])" and a: "a \<le> b" "a < length f \<and> le_term (f ! a) = le_term ((ls @ [e]) ! b)"
    show "le_term ((ls @ [e]) ! a) = le_term ((ls @ [e]) ! b)"
    proof (cases "b < length ls")
      case True
      then show ?thesis using that a by (simp add: term_block_def nth_append)
    next
      case False
      then have "(ls @ [e]) ! b = e" using b by (simp add: nth_append)
      then show ?thesis using h [of a] a by (simp add: nth_append)
    qed
  qed
  show "term_block (ls @ [e]) f" if "term_block ls f"
    unfolding term_block_def
  proof (intro allI impI)
    fix b a assume b: "b < length f" and a: "a \<le> b" "a < length (ls @ [e]) \<and> le_term ((ls @ [e]) ! a) = le_term (f ! b)"
    have "a < length ls"
    proof (rule ccontr)
      assume "\<not> a < length ls"
      then have "a = length ls" using a(2) by simp
      moreover from this have "le_term (f ! b) = le_term e" using a(2) by simp
      ultimately show False using h [OF b] a(1) by simp
    qed
    then show "le_term (f ! a) = le_term (f ! b)" using that a b by (simp add: term_block_def nth_append)
  qed
qed

lemma matching_snoc:
  assumes "matching_logs G" "ls \<in> G" "holds_term G ls (le_term e)"
  shows "matching_logs (insert (ls @ [e]) G)"
proof -
  have "log_matching (ls @ [e]) l" if l: "l \<in> G" for l
    unfolding log_matching_def
  proof (intro allI impI)
    fix i assume i: "i < min (length (ls @ [e])) (length l)" and t: "le_term ((ls @ [e]) ! i) = le_term (l ! i)"
    have "i < length ls"
    proof (rule ccontr)
      assume "\<not> i < length ls"
      then have "le_term (l ! i) = le_term e" "i = length ls" using i t by (simp_all add: nth_append)
      then show False using assms(3) l i by (auto simp: holds_term_def)
    qed
    moreover have "log_matching ls l" using assms(1,2) l by (simp add: matching_logs_def)
    ultimately show "take (Suc i) (ls @ [e]) = take (Suc i) l"
      using i t by (simp add: log_matching_def nth_append)
  qed
  moreover have "term_block f (ls @ [e])" "term_block (ls @ [e]) f" if "f \<in> G" for f
    using snoc_block [OF assms(3) that] assms(1,2) that by (auto simp: matching_logs_def)
  moreover have "term_block (ls @ [e]) (ls @ [e])" using assms(1,2) by (auto simp: term_block_def matching_logs_def nth_append)
  ultimately show ?thesis
    using assms(1) log_matching_refl log_matching_sym unfolding matching_logs_def by blast
qed

lemma holds_snoc:
  assumes "holds_term G ls t" "ls' \<in> G" "le_term e \<noteq> t"
  shows "holds_term (insert (ls' @ [e]) G) ls t"
  using assms by (auto simp: holds_term_def nth_append less_Suc_eq)

lemma holds_own_snoc: "holds_term G ls t \<Longrightarrow> holds_term (insert (ls @ [e]) G) (ls @ [e]) t"
  by (force simp: holds_term_def nth_append)

text \<open>A term nobody has entries of is held by any log.\<close>

lemma holds_fresh:
  assumes "entry_terms G L" "\<And>j. (j, t) \<notin> L"
  shows "holds_term G ls t"
  using assms unfolding entry_terms_def holds_term_def by (metis nth_mem)

lemma deliver_logs [simp]: "logs (nodes (deliver i m s) j) = logs (nodes s j)"
  by (simp add: deliver_def)

lemma deliver_log_inv:
  assumes "log_inv N G L s" "\<And>req k. m = AppendEntryMsg req k \<Longrightarrow> request_ok G L i req"
  shows "log_inv N G L (deliver i m s)"
proof -
  have "request_inv N G L (deliver i m s)"
    unfolding request_inv_def
  proof (intro conjI ballI allI impI)
    fix p req k assume "p \<in> N" "AppendEntryMsg req k \<in> set (inbox (nodes (deliver i m s) p))"
    then show "request_ok G L p req"
      using assms request_received [of N G L s p req k] by (auto simp: log_inv_def split: if_splits)
  qed (use assms(1) in \<open>auto simp: log_inv_def request_inv_def\<close>)
  then show ?thesis using assms(1) by (auto simp: log_inv_def log_held_def lead_inv_def)
qed

lemma forget_log_inv: "log_inv N G L s \<Longrightarrow> log_inv N G L (forget k s)"
  by (auto simp: log_inv_def log_held_def lead_inv_def request_inv_def split: if_splits)

section \<open>Steps of the cluster\<close>

lemma lead_step:
  assumes "lead_inv L s" "i \<in> N" "current_term (nodes s i) \<le> current_term c"
    and "state (nodes s i) = Leader \<Longrightarrow> current_term (nodes s i) < current_term c \<or> current_term c = current_term (nodes s i) \<and> state c = Leader"
  shows "lead_inv (L \<union> leaders N (spawn i c s)) (spawn i c s)"
  unfolding lead_inv_def
proof (intro allI impI)
  fix j t assume "(j, t) \<in> L \<union> leaders N (spawn i c s)"
  then show "t < current_term (nodes (spawn i c s) j) \<or> t = current_term (nodes (spawn i c s) j) \<and> state (nodes (spawn i c s) j) = Leader"
  proof
    assume "(j, t) \<in> L"
    then have "t < current_term (nodes s j) \<or> t = current_term (nodes s j) \<and> state (nodes s j) = Leader"
      using assms(1) by (simp add: lead_inv_def)
    then show ?thesis using assms(3,4) by auto
  qed (simp add: leaders_def)
qed

lemma request_step:
  assumes inv: "request_inv N G L s" and shape: "cluster_shape N nm s" and i: "i \<in> N" "inbox (nodes s i) = m # ms"
    and h: "handle_msg so w m ((nodes s i)\<lparr>inbox := ms\<rparr>) = Done c"
    and held: "logs (nodes s i) \<in> G" "leaders N s \<subseteq> L" and up: "G \<subseteq> G'" "L \<subseteq> L'"
  shows "request_inv N G' L' (spawn i c s)"
  unfolding request_inv_def
proof (intro conjI ballI allI impI)
  fix p req k assume p: "p \<in> N" and m: "AppendEntryMsg req k \<in> set (inbox (nodes (spawn i c s) p))"
  have "AppendEntryMsg req k \<in> set (inbox (nodes s p))"
    using m handle_msg_move(1) [OF h] i(2) by (auto simp: same_node_def split: if_splits)
  then show "request_ok G' L' p req" using request_received [OF inv p] request_ok_mono [OF _ up] by blast
next
  fix k j p ni req assume t: "tasks (spawn i c s) k = Some (j, CallAppend p ni req)"
  have "request_ok G L p req"
  proof (cases "tasks s k = Some (j, CallAppend p ni req)")
    case True
    then show ?thesis using inv by (auto simp: request_inv_def)
  next
    case False
    then have "CallAppend p ni req \<in> set (calls c)" using spawn_tasks [OF t] by auto
    then have own: "state (nodes s i) = Leader" "own_call ((nodes s i)\<lparr>inbox := ms\<rparr>) (CallAppend p ni req)"
      using handle_msg_append_calls [OF h] shape i(1) by (auto simp: cluster_shape_def)
    then have "(i, ae_term req) \<in> L" using held(2) i(1) by (auto simp: leaders_def own_call_def)
    moreover have "p \<noteq> i" using own(2) shape i(1) by (auto simp: own_call_def cluster_shape_def)
    ultimately show ?thesis using own(2) held(1) by (auto simp: request_ok_def own_call_def)
  qed
  then show "request_ok G' L' p req" using request_ok_mono [OF _ up] by blast
qed

text \<open>A term a node comes to lead was led by nobody before.\<close>

lemma term_unused:
  assumes "lead_inv L s" "current_term (nodes s i) \<le> t" "\<not> (state (nodes s i) = Leader \<and> current_term (nodes s i) = t)"
    and "(j, t) \<in> L \<Longrightarrow> j = i"
  shows "(j, t) \<notin> L"
proof
  assume j: "(j, t) \<in> L"
  then have "t < current_term (nodes s i) \<or> t = current_term (nodes s i) \<and> state (nodes s i) = Leader"
    using assms(1,4) by (simp add: lead_inv_def)
  then show False using assms(2,3) by auto
qed

text \<open>A leader's submission adds one log to those held.\<close>

lemma submit_step:
  assumes G: "matching_logs G" "entry_terms G L" "log_held N G s" and i: "i \<in> N" "state (nodes s i) = Leader"
    and c: "logs c = logs (nodes s i) @ [\<lparr>le_command = cmd, le_term = current_term (nodes s i)\<rparr>]"
      "current_term c = current_term (nodes s i)"
    and led: "(i, current_term (nodes s i)) \<in> L"
    and other: "\<And>j. j \<in> N \<Longrightarrow> state (nodes s j) = Leader \<Longrightarrow> current_term (nodes s j) = current_term (nodes s i) \<Longrightarrow> j = i"
  shows "matching_logs (insert (logs c) G)" "entry_terms (insert (logs c) G) L" "log_held N (insert (logs c) G) (spawn i c s)"
proof -
  let ?e = "\<lparr>le_command = cmd, le_term = current_term (nodes s i)\<rparr>"
  have held: "logs (nodes s j) \<in> G" "state (nodes s j) = Leader \<Longrightarrow> holds_term G (logs (nodes s j)) (current_term (nodes s j))"
    if "j \<in> N" for j
    using G(3) that by (auto simp: log_held_def)
  have own: "holds_term G (logs (nodes s i)) (le_term ?e)" using held(2) i by simp
  show "matching_logs (insert (logs c) G)" unfolding c(1) by (rule matching_snoc [OF G(1) held(1) [OF i(1)] own])
  show "entry_terms (insert (logs c) G) L" using G(2) held(1) [OF i(1)] led by (auto simp: entry_terms_def c(1))
  have "holds_term (insert (logs c) G) (logs (nodes s j)) (current_term (nodes s j))"
    if j: "j \<in> N" "j \<noteq> i" "state (nodes s j) = Leader" for j
    unfolding c(1) using other [of j] held(1) [OF i(1)] held(2) j by (intro holds_snoc) auto
  then show "log_held N (insert (logs c) G) (spawn i c s)"
    using held(1) holds_own_snoc [OF own, of ?e] c by (simp add: log_held_def)
qed

text \<open>Where a message leaves the log of the node that handles it, and all logs held.\<close>

lemma log_step:
  assumes elect: "election_inv N nm B' L' (spawn i c s)" and fin: "finite N" "inj_on nm N"
    and inv: "log_inv N G L s" and i: "i \<in> N" "inbox (nodes s i) = m # ms" and sub: "leaders N s \<subseteq> L" "L \<union> leaders N (spawn i c s) \<subseteq> L'"
    and up: "current_term (nodes s i) \<le> current_term c" and mv: "log_move m ((nodes s i)\<lparr>inbox := ms\<rparr>) c"
  shows "\<exists>G'. G \<subseteq> G' \<and> matching_logs G' \<and> entry_terms G' L' \<and> log_held N G' (spawn i c s)"
proof -
  note parts = inv [unfolded log_inv_def]
  have uniq: "j = j'" if "(j, t) \<in> L'" "(j', t) \<in> L'" for j j' t
    using election_inv_unique [OF fin elect that] .
  have leader: "(j, current_term (nodes s j)) \<in> L'" if "j \<in> N" "state (nodes s j) = Leader" for j
    using sub that by (auto simp: leaders_def)
  have new: "(i, current_term c) \<in> L'" if "state c = Leader"
    using sub(2) i(1) that by (auto simp: leaders_def)
  have ent: "entry_terms G L'" using parts sub(2) unfolding entry_terms_def by blast
  have held: "logs (nodes s j) \<in> G" "state (nodes s j) = Leader \<Longrightarrow> holds_term G (logs (nodes s j)) (current_term (nodes s j))"
    if "j \<in> N" for j
    using parts that by (auto simp: log_held_def)
  have rest: "log_held N G (spawn i c s)" if "logs c \<in> G" "state c = Leader \<Longrightarrow> holds_term G (logs c) (current_term c)"
    using held that by (simp add: log_held_def)
  from mv show ?thesis
  proof cases
    case same
    have "holds_term G (logs c) (current_term c)" if l: "state c = Leader"
    proof (cases "state (nodes s i) = Leader \<and> current_term (nodes s i) = current_term c")
      case True
      then show ?thesis using held(2) [OF i(1)] same by simp
    next
      case False
      then have "(j, current_term c) \<notin> L" for j
        using term_unused [of L s i "current_term c" j] parts up uniq new [OF l] sub(2) by blast
      then show ?thesis using parts by (intro holds_fresh) auto
    qed
    then show ?thesis using same held(1) [OF i(1)] rest parts ent by (intro exI [of _ G]) simp
  next
    case (submit cmd)
    have other: "j = i" if "j \<in> N" "state (nodes s j) = Leader" "current_term (nodes s j) = current_term (nodes s i)" for j
      using leader [OF that(1,2)] leader [OF i(1)] that(3) submit uniq by simp
    have "matching_logs G" "log_held N G s" "(i, current_term (nodes s i)) \<in> L'"
      using parts leader [OF i(1)] submit by simp_all
    then show ?thesis
      using submit submit_step [OF _ ent _ i(1) _ _ _ _ other, where c = c and cmd = cmd] by (intro exI [of _ "insert (logs c) G"]) auto
  next
    case (merge req k)
    have "AppendEntryMsg req k \<in> set (inbox (nodes s i))" using i(2) merge by simp
    then have "request_ok G L i req" using parts i(1) request_received by blast
    then obtain l j where l: "l \<in> G" "ae_from l req" and j: "j \<noteq> i" "(j, ae_term req) \<in> L"
      by (auto simp: request_ok_def)
    have "log_matching (logs (nodes s i)) l" using parts held(1) [OF i(1)] l(1) by (simp add: matching_logs_def)
    then have "logs c \<in> {logs (nodes s i), l}" using ae_from_splice [OF l(2)] merge by simp
    then have "logs c \<in> G" using l(1) held(1) [OF i(1)] by auto
    moreover have "state c \<noteq> Leader" using uniq new j sub(2) merge by auto
    ultimately show ?thesis using rest parts ent by (intro exI [of _ G]) simp
  qed
qed

lemma cluster_step_log_inv:
  assumes step: "cluster_step so (\<lambda>_ _. False) N s s'" and fin: "finite N" "inj_on nm N"
    and elect: "election_inv N nm B L s" "election_inv N nm (B \<union> ballots N s') (L \<union> leaders N s') s'" and inv: "log_inv N G L s"
  shows "\<exists>G'. log_inv N G' (L \<union> leaders N s') s'"
proof -
  have sub: "leaders N s \<subseteq> L" using elect(1) by (simp add: election_inv_def leader_inv_def)
  have quiet: ?thesis if "log_inv N G L s'" "leaders N s' = leaders N s"
    using that sub by (metis sup.absorb1)
  from step show ?thesis
  proof cases
    case (handle i m ms w c)
    have up: "current_term (nodes s i) \<le> current_term c"
      using handle_msg_term [OF handle(5)] handle(3) by (auto simp: in_bounds_def term_vote_le_def)
    obtain G' where G': "G \<subseteq> G'" "matching_logs G'" "entry_terms G' (L \<union> leaders N s')" "log_held N G' s'"
      using log_step [OF elect(2) [unfolded handle(1)] fin inv handle(2,4) sub _ up handle_msg_log [OF handle(5)]]
      unfolding handle(1) by blast
    moreover have "lead_inv (L \<union> leaders N s') s'"
      unfolding handle(1) using inv handle(2) up handle_msg_leads [OF handle(5)] by (intro lead_step) (auto simp: log_inv_def)
    moreover have "request_inv N G' (L \<union> leaders N s') s'"
      unfolding handle(1) using inv elect(1) sub G'(1) handle(2,4,5)
      by (intro request_step [of N G L s nm]) (auto simp: log_inv_def log_held_def election_inv_def)
    ultimately show ?thesis by (auto simp: log_inv_def)
  next
    case (tick i m)
    then show ?thesis using inv by (intro quiet) (auto intro!: deliver_log_inv)
  next
    case (request k i cl)
    have "log_inv N G L s'"
      unfolding request(1) using inv request(2)
      by (intro deliver_log_inv) (cases cl; auto simp: log_inv_def request_inv_def)+
    then show ?thesis using request(1) by (intro quiet) simp_all
  next
    case (reply k i cl a m)
    have "log_inv N G L s'"
      unfolding reply(1) using reply(5) by (intro deliver_log_inv forget_log_inv [OF inv]) (auto elim!: reply_msg.elims)
    then show ?thesis using reply(1) by (intro quiet) simp_all
  next
    case (lose k)
    then show ?thesis using forget_log_inv [OF inv] by (intro quiet) simp_all
  qed simp
qed

lemma cluster_run_log_inv:
  assumes "cluster_run so (\<lambda>_ _. False) N s0 s B L" "started N nm s0" "\<forall>i \<in> N. logs (nodes s0 i) = []"
  shows "election_inv N nm B L s \<and> (\<exists>G. log_inv N G L s)"
  using assms
proof (induction rule: cluster_run.induct)
  case init
  have "leaders N s0 = {}" using init(1) by (auto simp: started_def leaders_def)
  then have "log_inv N {[]} (leaders N s0) s0"
    using init by (simp add: log_inv_def matching_logs_def log_matching_refl term_block_def entry_terms_def log_held_def holds_term_def
        lead_inv_def request_inv_def started_def)
  then show ?case using started_inv [OF init(1)] by blast
next
  case (step s B L s')
  then have "election_inv N nm (B \<union> ballots N s') (L \<union> leaders N s') s'"
    using cluster_step_inv [OF step.hyps(2), of nm B L] by (simp add: started_def)
  then show ?case using cluster_step_log_inv [OF step.hyps(2)] step by (auto simp: started_def)
qed

section \<open>An entry replicated in the cluster of three\<close>

lemma demo_aes:
  assumes "demo_leads ls ms c" "calls c = []"
  shows "\<exists>c' cl req. handle_msg so w SendAES c = Done c' \<and> calls c' = [cl, CallAppend 6 0 req] \<and> ae_term req = 1
    \<and> ae_prev_log_index req = None \<and> ae_entries req = ls \<and> demo_leads ls ms c'"
  using assms by (simp add: demo_leads_def send_leader_aes_def send_ae_to_def Let_def)

definition demo_delete :: LogEntry where
  "demo_delete = \<lparr>le_command = Delete \<lparr>get_key = ''a''\<rparr>, le_term = 1\<rparr>"

lemma demo_submit:
  assumes "demo_leads [] [] c"
  shows "\<exists>c'. handle_msg so w (Submit (Delete \<lparr>get_key = ''a''\<rparr>)) c = Done c' \<and> calls c' = calls c
    \<and> demo_leads [demo_delete] [SendAES] c'"
  using assms by (simp add: demo_leads_def submit_entry_def Let_def send_self_def INBOX_CAP_def demo_delete_def)

lemma demo_append:
  assumes "state c = Follower" "current_term c = 0" "logs c = []" "inbox c = []" "ae_term req = 1" "ae_prev_log_index req = None"
    "ae_entries req = [e]"
  shows "\<exists>c'. handle_msg so w (AppendEntryMsg req k) c = Done c' \<and> logs c' = [e]"
  using assms
  by (simp add: append_entries_def ae_follow_def prev_ok_def splice_entries_def insert_at_def ae_commit_def send_self_def
      INBOX_CAP_def Let_def split: option.split)

text \<open>One more message of the leader.\<close>

definition demo_state :: "LogEntry list \<Rightarrow> ConsensusMsg list \<Rightarrow> ConFileStorage cluster \<Rightarrow> bool" where
  "demo_state ls ms s \<longleftrightarrow> demo_leads ls ms (nodes s 4) \<and> calls (nodes s 4) = [] \<and> nodes s 6 = nodes demo_cluster 6"

lemma demo_next:
  assumes "reached so reboot {4, 5, 6} demo_cluster s" "demo_state ls [m] s" "length ls \<le> 1"
    "handle_msg so demo_world m ((nodes s 4)\<lparr>inbox := []\<rparr>) = Done c" "demo_leads ls' ms c"
  shows "reached so reboot {4, 5, 6} demo_cluster (spawn 4 c s)" "demo_state ls' ms (spawn 4 c s)"
proof -
  show "reached so reboot {4, 5, 6} demo_cluster (spawn 4 c s)"
    using assms(2,3) by (intro reached_handle [OF assms(1,4)]) (simp_all add: demo_state_def demo_leads_def in_bounds_def usize_max_def)
qed (use assms(2,5) in \<open>simp add: demo_state_def demo_leads_def\<close>)

lemma demo_broadcast:
  assumes "reached so reboot {4, 5, 6} demo_cluster s" "demo_state ls [SendAES] s" "length ls \<le> 1"
  obtains s' k req where "reached so reboot {4, 5, 6} demo_cluster s'" "demo_state ls [] s'" "tasks s' k = Some (4, CallAppend 6 0 req)"
    "ae_term req = 1" "ae_prev_log_index req = None" "ae_entries req = ls"
proof -
  obtain c cl req where c: "handle_msg so demo_world SendAES ((nodes s 4)\<lparr>inbox := []\<rparr>) = Done c" "demo_leads ls [] c"
      and calls: "calls c = [cl, CallAppend 6 0 req]" and req: "ae_term req = 1" "ae_prev_log_index req = None" "ae_entries req = ls"
    using demo_aes [of ls "[]" "(nodes s 4)\<lparr>inbox := []\<rparr>" so demo_world] assms(2)
    by (auto simp: demo_state_def demo_leads_def simp del: handle_msg.simps)
  have "tasks (spawn 4 c s) (next_task s + 1) = Some (4, CallAppend 6 0 req)" using calls by (simp add: spawn_def)
  then show ?thesis using that demo_next [OF assms c] req by blast
qed

lemma demo_take:
  assumes "reached so reboot {4, 5, 6} demo_cluster s" "demo_state [] [] s"
  obtains s' where "reached so reboot {4, 5, 6} demo_cluster s'" "demo_state [demo_delete] [SendAES] s'"
proof -
  let ?m = "Submit (Delete \<lparr>get_key = ''a''\<rparr>)"
  have r: "reached so reboot {4, 5, 6} demo_cluster (deliver 4 ?m s)"
    by (rule reached_step [OF assms(1)]) (simp add: cluster_step.tick)
  have d: "demo_state [] [?m] (deliver 4 ?m s)"
    using assms(2) by (simp add: demo_state_def demo_leads_def deliver_def)
  obtain c where "handle_msg so demo_world ?m ((nodes (deliver 4 ?m s) 4)\<lparr>inbox := []\<rparr>) = Done c" "demo_leads [demo_delete] [SendAES] c"
    using demo_submit [of "(nodes (deliver 4 ?m s) 4)\<lparr>inbox := []\<rparr>" so demo_world] d
    by (auto simp: demo_state_def demo_leads_def simp del: handle_msg.simps)
  then show ?thesis using that demo_next [OF r d] by (metis list.size(3) zero_le_one)
qed

lemma demo_appended:
  obtains s where "reached so reboot {4, 5, 6} demo_cluster s" "demo_state [demo_delete] [SendAES] s"
proof -
  obtain s1 where "reached so reboot {4, 5, 6} demo_cluster s1" "demo_state [] [SendAES] s1"
    using demo_leader [of so reboot] unfolding demo_state_def by blast
  from demo_broadcast [OF this] obtain s2 where "reached so reboot {4, 5, 6} demo_cluster s2" "demo_state [] [] s2" by auto
  from demo_take [OF this] obtain s3 where "reached so reboot {4, 5, 6} demo_cluster s3" "demo_state [demo_delete] [SendAES] s3" by blast
  then show ?thesis by (rule that)
qed

lemma demo_replicated:
  "\<exists>s B L. cluster_run so reboot {4, 5, 6} demo_cluster s B L \<and> logs (nodes s 4) = [demo_delete] \<and> logs (nodes s 6) = [demo_delete]"
proof -
  obtain s3 where "reached so reboot {4, 5, 6} demo_cluster s3" "demo_state [demo_delete] [SendAES] s3" by (rule demo_appended)
  from demo_broadcast [OF this] obtain s k req where s: "reached so reboot {4, 5, 6} demo_cluster s" "demo_state [demo_delete] [] s"
      "tasks s k = Some (4, CallAppend 6 0 req)" and req: "ae_term req = 1" "ae_prev_log_index req = None" "ae_entries req = [demo_delete]"
    by auto
  let ?s = "deliver 6 (AppendEntryMsg req k) s"
  have r: "reached so reboot {4, 5, 6} demo_cluster ?s" using reached_step [OF s(1) cluster_step.request [OF s(3)]] by simp
  have n: "nodes ?s 6 = (nodes demo_cluster 6)\<lparr>inbox := [AppendEntryMsg req k]\<rparr>"
    using s(2) by (simp add: deliver_def demo_state_def) (simp add: demo_cluster_def)
  obtain c where c: "handle_msg so demo_world (AppendEntryMsg req k) ((nodes ?s 6)\<lparr>inbox := []\<rparr>) = Done c" "logs c = [demo_delete]"
    using demo_append [OF _ _ _ _ req, of "(nodes ?s 6)\<lparr>inbox := []\<rparr>" so demo_world k] unfolding n
    by (auto simp: demo_cluster_def simp del: handle_msg.simps)
  have "reached so reboot {4, 5, 6} demo_cluster (spawn 6 c ?s)"
    using c(1) by (rule reached_handle [OF r]) (simp_all add: n, simp_all add: demo_cluster_def in_bounds_def usize_max_def)
  moreover have "logs (nodes (spawn 6 c ?s) 4) = [demo_delete]" "logs (nodes (spawn 6 c ?s) 6) = [demo_delete]"
    using s(2) c(2) by (simp_all add: demo_state_def demo_leads_def)
  ultimately show ?thesis unfolding reached_def by blast
qed

section \<open>Properties\<close>



end
