(* ===== verification/Commit_Relay.thy ===== *)
theory Commit_Relay
  imports Service Consensus_Node "HOL-Library.Sublist"
begin

text \<open>
  How committed entries travel from the consensus actor to the service: the actor's broadcast channel
  of 1024 entries, the task of \<^verbatim>\<open>ConsensusHandle::subscribe\<close> (\<^verbatim>\<open>efis/src/consensus.rs\<close>) that forwards them
  into a channel of 16, and the loop of \<^verbatim>\<open>process_cmd\<close> (\<^verbatim>\<open>efis/src/efis.rs\<close>) that takes them from there.

  Both loops skip the error that reports lagging, so a channel is the entries its one receiver has
  still to take, of which sending keeps the newest as many as the capacity.

  The lemmas show what the service can rely on, the order of the log without repetitions, and
  when it is not enough: a service that falls behind by more than 16 entries skips commands.
\<close>

section \<open>The two channels\<close>

record relay =
  upstream :: "CommitEntry list"
  downstream :: "CommitEntry list"

definition COMMIT_CAP :: nat where
  "COMMIT_CAP = 1024"

definition RELAY_CAP :: nat where
  "RELAY_CAP = 16"

definition relay_new :: relay where
  "relay_new = \<lparr>upstream = [], downstream = []\<rparr>"

text \<open>The actor sends, the task forwards, the service receives.\<close>

definition relay_commit :: "CommitEntry \<Rightarrow> relay \<Rightarrow> relay" where
  "relay_commit e r = r\<lparr>upstream := lastn COMMIT_CAP (upstream r @ [e])\<rparr>"

definition relay_forward :: "relay \<Rightarrow> relay" where
  "relay_forward r =
     (case upstream r of [] \<Rightarrow> r | e # es \<Rightarrow> r\<lparr>upstream := es, downstream := lastn RELAY_CAP (downstream r @ [e])\<rparr>)"

definition relay_receive :: "relay \<Rightarrow> CommitEntry list \<times> relay" where
  "relay_receive r = (case downstream r of [] \<Rightarrow> ([], r) | e # es \<Rightarrow> ([e], r\<lparr>downstream := es\<rparr>))"

datatype relay_op = CommitOp CommitEntry | ForwardOp | ReceiveOp

text \<open>Any schedule of the three tasks: what the service received.\<close>

fun relay_run :: "relay_op list \<Rightarrow> relay \<Rightarrow> CommitEntry list \<times> relay" where
  "relay_run [] r = ([], r)"
| "relay_run (CommitOp e # ops) r = relay_run ops (relay_commit e r)"
| "relay_run (ForwardOp # ops) r = relay_run ops (relay_forward r)"
| "relay_run (ReceiveOp # ops) r = (let (es, r) = relay_receive r in map_prod ((@) es) id (relay_run ops r))"

fun committed :: "relay_op list \<Rightarrow> CommitEntry list" where
  "committed [] = []"
| "committed (CommitOp e # ops) = e # committed ops"
| "committed (_ # ops) = committed ops"

section \<open>Lemmas\<close>

definition in_relay :: "relay \<Rightarrow> CommitEntry list" where
  "in_relay r = downstream r @ upstream r"

lemma subseq_lastn: "subseq (lastn n xs) xs"
  unfolding lastn_def by (intro sublist_imp_subseq suffix_imp_sublist suffix_drop)

lemma relay_commit_subseq: "subseq (in_relay (relay_commit e r)) (in_relay r @ [e])"
  by (simp add: relay_commit_def in_relay_def list_emb_append_mono subseq_lastn)

lemma relay_forward_subseq: "subseq (in_relay (relay_forward r)) (in_relay r)"
proof (cases "upstream r")
  case (Cons e es)
  have "subseq (lastn RELAY_CAP (downstream r @ [e]) @ es) ((downstream r @ [e]) @ es)"
    by (intro list_emb_append_mono subseq_lastn) simp
  then show ?thesis by (simp add: relay_forward_def in_relay_def Cons)
qed (simp add: relay_forward_def)

lemma relay_receive_keeps: "relay_receive r = (es, r') \<Longrightarrow> es @ in_relay r' = in_relay r"
  by (auto simp: relay_receive_def in_relay_def split: list.splits)

lemma relay_run_receiveE:
  assumes "relay_run (ReceiveOp # ops) r = (es, r')"
  obtains x r1 fs where "relay_receive r = (x, r1)" "relay_run ops r1 = (fs, r')" "es = x @ fs"
  using assms by (cases "relay_receive r"; cases "relay_run ops (snd (relay_receive r))") auto

lemma relay_run_subseq:
  "relay_run ops r = (es, r') \<Longrightarrow> subseq (es @ in_relay r') (in_relay r @ committed ops)"
proof (induction ops r arbitrary: es rule: relay_run.induct)
  case (2 e ops r)
  then have "subseq (es @ in_relay r') (in_relay (relay_commit e r) @ committed ops)" by simp
  then show ?case
    using list_emb_append_mono [OF relay_commit_subseq [of e r] subseq_order.order_refl, of "committed ops"]
    by (auto intro: subseq_order.order_trans)
next
  case (3 ops r)
  then have "subseq (es @ in_relay r') (in_relay (relay_forward r) @ committed ops)" by simp
  then show ?case
    using list_emb_append_mono [OF relay_forward_subseq [of r] subseq_order.order_refl, of "committed ops"]
    by (auto intro: subseq_order.order_trans)
next
  case (4 ops r)
  obtain x r1 fs where x: "relay_receive r = (x, r1)" and f: "relay_run ops r1 = (fs, r')" and e: "es = x @ fs"
    using relay_run_receiveE [OF 4(2)] .
  have "subseq (fs @ in_relay r') (in_relay r1 @ committed ops)" using 4(1) [OF x [symmetric] refl f] .
  then have "subseq (x @ fs @ in_relay r') (x @ in_relay r1 @ committed ops)"
    by (rule list_emb_append_mono [OF subseq_order.order_refl])
  then show ?case using relay_receive_keeps [OF x, symmetric] e by simp
qed simp

text \<open>A schedule in which no channel is full when it is sent to.\<close>

fun keeps_up :: "relay_op list \<Rightarrow> relay \<Rightarrow> bool" where
  "keeps_up [] r = True"
| "keeps_up (CommitOp e # ops) r = (length (upstream r) < COMMIT_CAP \<and> keeps_up ops (relay_commit e r))"
| "keeps_up (ForwardOp # ops) r = (length (downstream r) < RELAY_CAP \<and> keeps_up ops (relay_forward r))"
| "keeps_up (ReceiveOp # ops) r = keeps_up ops (snd (relay_receive r))"

lemma relay_run_complete:
  "relay_run ops r = (es, r') \<Longrightarrow> keeps_up ops r \<Longrightarrow> es @ in_relay r' = in_relay r @ committed ops"
proof (induction ops r arbitrary: es rule: relay_run.induct)
  case (2 e ops r)
  then have "in_relay (relay_commit e r) = in_relay r @ [e]"
    by (simp add: relay_commit_def in_relay_def lastn_all)
  then show ?case using 2 by simp
next
  case (3 ops r)
  then have "in_relay (relay_forward r) = in_relay r"
    by (simp add: relay_forward_def in_relay_def lastn_all split: list.split)
  then show ?case using 3 by simp
next
  case (4 ops r)
  obtain x r1 fs where x: "relay_receive r = (x, r1)" and f: "relay_run ops r1 = (fs, r')" and e: "es = x @ fs"
    using relay_run_receiveE [OF 4(2)] .
  have "fs @ in_relay r' = in_relay r1 @ committed ops" using 4(1) [OF x [symmetric] refl f] 4(3) x by simp
  then show ?case using relay_receive_keeps [OF x, symmetric] e by simp
qed simp

lemma relay_run_commits:
  "length (upstream r) + length es \<le> COMMIT_CAP \<Longrightarrow>
     relay_run (map CommitOp es @ ops) r = relay_run ops (r\<lparr>upstream := upstream r @ es\<rparr>)"
proof (induction es arbitrary: r)
  case (Cons e es)
  then have "relay_commit e r = r\<lparr>upstream := upstream r @ [e]\<rparr>" by (simp add: relay_commit_def lastn_all)
  then show ?case using Cons by simp
qed simp

lemma relay_run_forwards:
  assumes "upstream r = es @ fs" "length (downstream r) \<le> RELAY_CAP"
  shows "relay_run (replicate (length es) ForwardOp @ ops) r
    = relay_run ops (r\<lparr>upstream := fs, downstream := lastn RELAY_CAP (downstream r @ es)\<rparr>)"
  using assms
proof (induction es arbitrary: r)
  case Nil
  then show ?case by (cases r) (simp add: lastn_all)
next
  case (Cons e es)
  let ?r = "r\<lparr>upstream := es @ fs, downstream := lastn RELAY_CAP (downstream r @ [e])\<rparr>"
  have "relay_run (replicate (length es) ForwardOp @ ops) ?r
      = relay_run ops (?r\<lparr>upstream := fs, downstream := lastn RELAY_CAP (downstream ?r @ es)\<rparr>)"
    by (rule Cons.IH) (simp_all add: lastn_def)
  then show ?case
    using Cons.prems lastn_snoc [of RELAY_CAP "downstream r @ [e]" es] by (simp add: relay_forward_def RELAY_CAP_def)
qed

lemma relay_run_receives:
  "relay_run (replicate n ReceiveOp) r = (take n (downstream r), r\<lparr>downstream := drop n (downstream r)\<rparr>)"
proof (induction n arbitrary: r)
  case (Suc n)
  then show ?case by (cases "downstream r") (simp_all add: relay_receive_def)
qed simp

section \<open>Properties\<close>

text \<open>
  C26. The order of commands. Whatever the schedule of the actor, the forwarding task and the service,
  the entries the service receives are committed entries in the order of the log and none twice;
  and if no channel is ever full when it is sent to, nothing is lost on the way.
\<close>

theorem relay_in_log_order:
  assumes "relay_run ops relay_new = (es, r)"
  shows "subseq (es @ downstream r @ upstream r) (committed ops)
    \<and> (keeps_up ops relay_new \<longrightarrow> es @ downstream r @ upstream r = committed ops)"
  using relay_run_subseq [OF assms] relay_run_complete [OF assms] by (simp add: in_relay_def relay_new_def)

theorem relay_in_log_order_witness:
  "committed [CommitOp (demo_commits ! 0), ForwardOp, CommitOp (demo_commits ! 1), ReceiveOp, ForwardOp, ReceiveOp] = demo_commits
   \<and> fst (relay_run [CommitOp (demo_commits ! 0), ForwardOp, CommitOp (demo_commits ! 1), ReceiveOp, ForwardOp, ReceiveOp] relay_new) = demo_commits"
proof -
  let ?ops = "[CommitOp (demo_commits ! 0), ForwardOp, CommitOp (demo_commits ! 1), ReceiveOp, ForwardOp, ReceiveOp]"
  have "\<exists>es r. relay_run ?ops relay_new = (es, r) \<and> keeps_up ?ops relay_new \<and> downstream r = [] \<and> upstream r = []"
    by (simp add: relay_new_def relay_commit_def relay_forward_def relay_receive_def lastn_def COMMIT_CAP_def RELAY_CAP_def)
  then obtain es r where r: "relay_run ?ops relay_new = (es, r)" "keeps_up ?ops relay_new" "downstream r = []" "upstream r = []"
    by blast
  then show ?thesis using relay_in_log_order [OF r(1)] by (simp add: demo_commits_def)
qed

text \<open>
  C36. A service that falls behind skips commands. When more than 16 entries are committed and
  forwarded before the service takes the first, it goes on with the last 16 of them: the others,
  although committed, are never applied on this node, and nobody is told.
\<close>

theorem slow_service_skips_commands:
  assumes "16 < length es" "length es \<le> 1024"
  shows "fst (relay_run (map CommitOp es @ replicate (length es) ForwardOp @ replicate n ReceiveOp) relay_new)
    = take n (drop (length es - 16) es)"
proof -
  have "relay_run (map CommitOp es @ replicate (length es) ForwardOp @ replicate n ReceiveOp) relay_new
      = relay_run (replicate (length es) ForwardOp @ replicate n ReceiveOp) \<lparr>upstream = es, downstream = []\<rparr>"
    using relay_run_commits [of relay_new es] assms(2) by (simp add: relay_new_def COMMIT_CAP_def)
  also have "\<dots> = relay_run (replicate n ReceiveOp) \<lparr>upstream = [], downstream = lastn RELAY_CAP es\<rparr>"
    using relay_run_forwards [of "\<lparr>upstream = es, downstream = []\<rparr>" es "[]"] assms(1) by auto
  finally show ?thesis by (simp add: relay_run_receives lastn_def RELAY_CAP_def)
qed

theorem slow_service_skips_commands_witness:
  "fst (relay_run (map CommitOp (replicate 20 (demo_commits ! 0)) @ replicate 20 ForwardOp @ replicate 20 ReceiveOp) relay_new)
   = replicate 16 (demo_commits ! 0)"
  using slow_service_skips_commands [of "replicate 20 (demo_commits ! 0)" 20] by simp

end
