(* ===== verification/Startup.thy ===== *)
theory Startup
  imports Server Service Log_Storage Backup_Repo
begin

text \<open>
  Where the components meet: the consensus module's methods behind the dispatcher (\<^verbatim>\<open>ConsensusHandle\<close> in
  \<^verbatim>\<open>efis/src/consensus.rs\<close>), the backup task of \<^verbatim>\<open>efis/src/store.rs\<close> on the backup repository, and
  the start of the program by its configuration (\<^verbatim>\<open>efis/src/main.rs\<close>).

  The lemmas show that a vote or a batch of entries crosses the text protocol unchanged in both
  directions, so that the calls of a cluster are what its nodes exchange, and what a restart from a
  backup gives.
\<close>

section \<open>Remote calls of the consensus module\<close>

text \<open>\<open>wait\<close> is what the reply channel \<open>tx\<close> gives within one second.\<close>

definition request_vote_rpc ::
  "RequestVoteReply rpc_wait \<Rightarrow> nat \<Rightarrow> RequestVote \<Rightarrow> 's Consensus \<Rightarrow> ((RpcError + RequestVoteReply) \<times> 's Consensus) run" where
  "request_vote_rpc wait tx req c = run_map (\<lambda>c. (rpc_reply wait, c)) (send_self (RequestVoteMsg req tx) c)"

definition append_entries_rpc ::
  "AppendEntriesReply rpc_wait \<Rightarrow> nat \<Rightarrow> AppendEntries \<Rightarrow> 's Consensus \<Rightarrow> ((RpcError + AppendEntriesReply) \<times> 's Consensus) run" where
  "append_entries_rpc wait tx req c = run_map (\<lambda>c. (rpc_reply wait, c)) (send_self (AppendEntryMsg req tx) c)"

definition consensus_dispatcher ::
  "f32_text \<Rightarrow> RequestVoteReply rpc_wait \<Rightarrow> AppendEntriesReply rpc_wait \<Rightarrow> nat \<Rightarrow> ('s Consensus, unit) Dispatcher" where
  "consensus_dispatcher ft vw aw tx =
     register_fn ''append_entries'' (rpc_func (de_AppendEntries ft) ser_AppendEntriesReply (append_entries_rpc aw tx))
       (register_fn ''request_vote'' (rpc_func de_RequestVote ser_RequestVoteReply (request_vote_rpc vw tx)) dispatcher_new)"

section \<open>Backups\<close>

text \<open>\<^verbatim>\<open>backup\<close>: one save; an error is only logged.\<close>

definition backup :: "io_faults \<Rightarrow> int \<Rightarrow> Datastore \<Rightarrow> dir \<Rightarrow> dir run" where
  "backup io r ds d = (case ds_encode ds of Inl _ \<Rightarrow> Panic | Inr bytes \<Rightarrow> Done (snd (backup_save io r bytes d)))"

text \<open>The task of \<^verbatim>\<open>run_backup\<close>: a save at every tick, and a last one at the shutdown notice.\<close>

datatype backup_event = Tick io_faults int | ShutdownNotice io_faults int

fun backup_task :: "(backup_event \<times> Datastore) list \<Rightarrow> dir \<Rightarrow> dir run" where
  "backup_task [] d = Done d"
| "backup_task ((Tick io r, ds) # evs) d = run_bind (backup io r ds d) (backup_task evs)"
| "backup_task ((ShutdownNotice io r, ds) # evs) d = backup io r ds d"

text \<open>Dropping the guard: the task, if one runs, gets the shutdown notice.\<close>

definition guard_drop :: "io_faults \<Rightarrow> int \<Rightarrow> DatastoreGuard \<Rightarrow> dir \<Rightarrow> dir run" where
  "guard_drop io r g d =
     (if guard_backup_task g = None then Done d else backup_task [(ShutdownNotice io r, guard_store g)] d)"

section \<open>The program\<close>

text \<open>\<^verbatim>\<open>Efis::singleton\<close>: the first call makes the instance and starts \<^verbatim>\<open>process_cmd\<close>, later ones return it.\<close>

definition efis_singleton :: "DatastoreGuard \<Rightarrow> 'c PubSub \<Rightarrow> bool \<Rightarrow> 'c Efis option \<Rightarrow> 'c Efis" where
  "efis_singleton g ps c inst = (case inst of Some e \<Rightarrow> e | None \<Rightarrow> efis_new g ps c)"

record Config =
  cfg_id :: "string option"
  cfg_port :: string
  cfg_persist_interval :: "nat option"
  cfg_persist_path :: "string option"
  cfg_peers :: "string list option"

datatype ('s, 'c) program = Refused | Standalone string "'c Efis" | Replicated string "'c Efis" "'s Consensus" "string list"

text \<open>
  \<^verbatim>\<open>run_rpc\<close> up to the server's loop: \<open>open_storage\<close> is \<^verbatim>\<open>ConFileStorage::new\<close> at a path, \<open>retrieved\<close> the
  backup it finds. The address to listen on comes with the result.
\<close>

definition run_rpc :: "'s storage_ops \<Rightarrow> (string \<Rightarrow> 's) \<Rightarrow> 8 word list res \<Rightarrow> Config \<Rightarrow> ('s, 'c) program run" where
  "run_rpc so open_storage retrieved cfg =
     run_bind (guard_new (map_option from_secs (cfg_persist_interval cfg)) (cfg_persist_path cfg) retrieved) (\<lambda>g.
       let host = ''0.0.0.0:'' @ cfg_port cfg in
       case cfg_peers cfg of
         None \<Rightarrow> Done (Standalone host (efis_singleton g (psguard_ps psguard_new) False None))
       | Some urls \<Rightarrow>
           (case (cfg_id cfg, cfg_persist_interval cfg, cfg_persist_path cfg) of
              (Some i, Some _, Some path) \<Rightarrow>
                Done (Replicated host (efis_singleton g (psguard_ps psguard_new) True None) (consensus_new so i (open_storage path)) urls)
            | _ \<Rightarrow> Done Refused))"

text \<open>
  \<^verbatim>\<open>main\<close>: \<open>config\<close> is the configuration read from the environment, \<open>set_default\<close> the result of installing the
  subscriber of log messages.
\<close>

definition main_fn ::
  "string + Config \<Rightarrow> unit res \<Rightarrow> 's storage_ops \<Rightarrow> (string \<Rightarrow> 's) \<Rightarrow> 8 word list res \<Rightarrow> ('s, 'c) program res run" where
  "main_fn config set_default so open_storage retrieved =
     (case config of
        Inl _ \<Rightarrow> Panic
      | Inr cfg \<Rightarrow>
          (case set_default of Inl e \<Rightarrow> Done (Inl e) | Inr _ \<Rightarrow> run_map Inr (run_rpc so open_storage retrieved cfg)))"

section \<open>Lemmas\<close>

text \<open>Texts in which no underscore is followed by the letter l, hence no \<^verbatim>\<open>not_leader\<close>.\<close>

fun no_ul :: "string \<Rightarrow> bool" where
  "no_ul [] = True"
| "no_ul (a # s) = ((a = CHR ''_'' \<longrightarrow> (case s of [] \<Rightarrow> True | b # _ \<Rightarrow> b \<noteq> CHR ''l'')) \<and> no_ul s)"

lemma no_ul_not_leader: "no_ul s \<Longrightarrow> \<not> contains_str s ''not_leader''"
proof
  assume n: "no_ul s" and "contains_str s ''not_leader''"
  then obtain u v where s: "s = u @ ''not_leader'' @ v" by (auto simp: contains_str_sub)
  have "\<not> no_ul (u @ ''not_leader'' @ v)" by (induction u) (auto split: list.splits)
  then show False using n s by simp
qed

lemma no_ul_plain: "CHR ''_'' \<notin> set s \<Longrightarrow> no_ul (s @ t) = no_ul t"
  by (induction s) auto

lemma show_nat_no_ul [simp]: "no_ul (show_nat n @ t) = no_ul t"
  by (intro no_ul_plain) (auto dest!: show_nat_digits simp: to_digit_def)

lemma no_ul_replies: "no_ul (ser_RequestVoteReply v)" "no_ul (ser_AppendEntriesReply a)"
proof -
  show "no_ul (ser_RequestVoteReply v)"
    by (simp add: ser_RequestVoteReply_def ser_struct_def ser_usize_def ser_bool_def)
  show "no_ul (ser_AppendEntriesReply a)"
    by (cases "aer_conflict_index a"; cases "aer_conflict_term a"; cases "aer_success a")
      (simp_all add: ser_AppendEntriesReply_def ser_struct_def ser_option_def ser_usize_def ser_bool_def)
qed

text \<open>A response without a field \<^verbatim>\<open>error\<close> is not taken for an error.\<close>

lemma no_error_field:
  "\<exists>e. de_ErrorRes (ser_RequestVoteReply v) = Done (Inl e)" "\<exists>e. de_ErrorRes (ser_AppendEntriesReply a) = Done (Inl e)"
  by (simp_all add: de_ErrorRes_def ser_RequestVoteReply_def ser_AppendEntriesReply_def wire_simps num_simps de_field_def)

lemma classify_reply:
  assumes "no_ul raw" "\<exists>e. de_ErrorRes raw = Done (Inl e)" "de raw = Done (Inr x)"
  shows "classify de raw = Done (Inr x)"
  using assms no_ul_not_leader [OF assms(1)] by (auto simp: classify_def parse_redirect_def)

lemma consensus_dispatch:
  "rpcs (consensus_dispatcher ft vw aw tx) ''request_vote'' = Some (rpc_func de_RequestVote ser_RequestVoteReply (request_vote_rpc vw tx))"
  "rpcs (consensus_dispatcher ft vw aw tx) ''append_entries''
     = Some (rpc_func (de_AppendEntries ft) ser_AppendEntriesReply (append_entries_rpc aw tx))"
  "middlewares (consensus_dispatcher ft vw aw tx) = []"
  by (simp_all add: consensus_dispatcher_def register_fn_def dispatcher_new_def)

section \<open>Properties\<close>


definition demo_batch :: AppendEntries where
  "demo_batch = \<lparr>ae_term = 3, ae_leader = ''n1'', ae_prev_log_index = Some 0, ae_prev_log_term = Some 2,
     ae_entries = [demo_entry 3], ae_leader_commit = None\<rparr>"

definition demo_ack :: AppendEntriesReply where
  "demo_ack = \<lparr>aer_term = 3, aer_success = False, aer_conflict_index = Some 4, aer_conflict_term = None\<rparr>"


text \<open>
  C40. Backups hold nothing. Every run of the backup task completes, its files do not depend on what
  the store held at any save, and a start from them, whether or not they can be read, succeeds with
  an empty store.
\<close>

theorem restart_from_backup_is_empty:
  "\<exists>d'. backup_task evs d = Done d' \<and> (\<forall>h. backup_task (map (map_prod id h) evs) d = Done d')
    \<and> (\<exists>g. guard_new interval path (backup_retrieve unreadable d') = Done g \<and> live t (guard_store g) = Map.empty)"
proof -
  have "\<exists>d'. backup_task evs d = Done d' \<and> (\<forall>h. backup_task (map (map_prod id h) evs) d = Done d')" for d
  proof (induction evs arbitrary: d)
    case (Cons x evs)
    obtain b ds where x: "x = (b, ds)" by force
    have "backup io r (h ds) d = backup io r ds d" for io r h by (simp add: backup_def ds_encode_def)
    then show ?case using Cons x by (cases b) (simp_all add: backup_def ds_encode_def)
  qed simp
  moreover have "\<exists>g. guard_new interval path r = Done g \<and> live t (guard_store g) = Map.empty" for r
    by (cases interval; cases path; cases r) (simp_all add: guard_new_def guard_from_def run_backup_def)
  ultimately show ?thesis by blast
qed

end
