(* ===== verification/Derive_Macro.thy ===== *)
theory Derive_Macro
  imports Raft_Types
begin

text \<open>
  The derive macro \<^verbatim>\<open>SerDe\<close> of \<^verbatim>\<open>macros/src/lib.rs\<close> for an arbitrary structure: from the declared fields it
  makes a type of the wire, whose values are printed by \<open>ser_val\<close> and read by \<open>de_val\<close>. Types whose
  \<^verbatim>\<open>Serialize\<close> is written by hand (\<^verbatim>\<open>Command\<close>) and the text of floating-point numbers are parameters.

  The lemmas show for all types that a reader returns only values of its type, which readers
  cannot panic, and which values are read back as they were printed; and that the printers and
  readers of the program's structures are the expansions of the macro for their declarations.
\<close>

section \<open>Types and values of the wire\<close>

text \<open>A field's type as the macro sees it: a path with its segments, or something else.\<close>

datatype syn_type = TypePath "string list" | TypeOther

fun is_optional :: "syn_type \<Rightarrow> bool" where
  "is_optional (TypePath (seg # segs)) = (seg = ''Option'')"
| "is_optional _ = False"

text \<open>The types that implement \<^verbatim>\<open>Serialize\<close> and \<^verbatim>\<open>Deserialize\<close>. A field has a name, its written and its actual type.\<close>

datatype ty =
    TI32 | TI64 | TF64 | TF32 | TUsize | TU64 | TBool | TString
  | TOption ty | TVec ty | TCustom | TStruct "(string \<times> syn_type \<times> ty) list"

datatype 'c val =
    VI32 int | VI64 int | VF64 "64 word" | VF32 f32 | VUsize nat | VU64 nat | VBool bool | VString string
  | VOption "'c val option" | VVec "'c val list" | VCustom 'c | VStruct "(string \<times> 'c val) list"

text \<open>What the macro is applied to; it accepts structures with named fields only.\<close>

datatype derive_input = NamedStruct "(string \<times> syn_type \<times> ty) list" | TupleStruct | NotAStruct

fun derive_SerDe :: "derive_input \<Rightarrow> ty res" where
  "derive_SerDe (NamedStruct fs) = Inr (TStruct fs)"
| "derive_SerDe TupleStruct = Inl ''SerDe can only be derived for structs with named fields''"
| "derive_SerDe NotAStruct = Inl ''SerDe can only be derived for structs''"

section \<open>The generated code\<close>

record 'c wire_env =
  env_f32 :: f32_text
  show_f64 :: "64 word \<Rightarrow> string"
  parse_f64 :: "string \<Rightarrow> (64 word) res"
  ser_custom :: "'c \<Rightarrow> string"
  de_custom :: "'c reader"

definition de_f64 :: "'c wire_env \<Rightarrow> (64 word) reader" where
  "de_f64 e s = de_map_err (\<lambda>m. ''Failed to parse f64: '' @ m) (parse_f64 e s)"

primrec ser_val :: "'c wire_env \<Rightarrow> 'c val \<Rightarrow> string" where
  "ser_val e (VI32 i) = ser_i32 i"
| "ser_val e (VI64 i) = ser_i64 i"
| "ser_val e (VF64 x) = show_f64 e x"
| "ser_val e (VF32 x) = show_f32 (env_f32 e) x"
| "ser_val e (VUsize n) = ser_usize n"
| "ser_val e (VU64 n) = ser_u64 n"
| "ser_val e (VBool b) = ser_bool b"
| "ser_val e (VString s) = ser_string s"
| "ser_val e (VOption x) = ser_option id (map_option (ser_val e) x)"
| "ser_val e (VVec xs) = ser_vec id (map (ser_val e) xs)"
| "ser_val e (VCustom c) = ser_custom e c"
| "ser_val e (VStruct fs) = ser_struct (map (map_prod id (ser_val e)) fs)"

definition lift_val :: "('a \<Rightarrow> 'b) \<Rightarrow> 'a res run \<Rightarrow> 'b res run" where
  "lift_val f r = run_map (map_sum id f) r"

text \<open>\<^verbatim>\<open>deserialize_fields\<close>: in the order of the declaration; a missing optional field is \<^verbatim>\<open>None\<close>.\<close>

fun de_fields :: "(string \<rightharpoonup> string) \<Rightarrow> (string \<times> bool \<times> 'c val reader) list \<Rightarrow> (string \<times> 'c val) list res run" where
  "de_fields m [] = Done (Inr [])"
| "de_fields m ((k, opt, de) # fs) =
     and_then (if opt then (case m k of None \<Rightarrow> Done (Inr (VOption None)) | Some t \<Rightarrow> de t) else de_field de m k)
       (\<lambda>v. lift_val ((#) (k, v)) (de_fields m fs))"

primrec de_val :: "'c wire_env \<Rightarrow> ty \<Rightarrow> 'c val reader" where
  "de_val e TI32 = (\<lambda>s. lift_val VI32 (de_i32 s))"
| "de_val e TI64 = (\<lambda>s. lift_val VI64 (de_i64 s))"
| "de_val e TF64 = (\<lambda>s. lift_val VF64 (de_f64 e s))"
| "de_val e TF32 = (\<lambda>s. lift_val VF32 (de_f32 (env_f32 e) s))"
| "de_val e TUsize = (\<lambda>s. lift_val VUsize (de_usize s))"
| "de_val e TU64 = (\<lambda>s. lift_val VU64 (de_u64 s))"
| "de_val e TBool = (\<lambda>s. lift_val VBool (de_bool s))"
| "de_val e TString = (\<lambda>s. lift_val VString (de_string s))"
| "de_val e (TOption t) = (\<lambda>s. lift_val VOption (de_option (de_val e t) s))"
| "de_val e (TVec t) = (\<lambda>s. lift_val VVec (de_vec (de_val e t) s))"
| "de_val e TCustom = (\<lambda>s. lift_val VCustom (de_custom e s))"
| "de_val e (TStruct fs) = (\<lambda>s. lift_val VStruct
     (de_fields (de_struct s) (map (map_prod id (map_prod is_optional (de_val e))) fs)))"

text \<open>The field readers the macro writes out.\<close>

definition field_readers :: "'c wire_env \<Rightarrow> (string \<times> syn_type \<times> ty) list \<Rightarrow> (string \<times> bool \<times> 'c val reader) list" where
  "field_readers e fs = map (\<lambda>(k, p, t). (k, is_optional p, de_val e t)) fs"

lemma field_readers_simps [simp]:
  "field_readers e [] = []" "field_readers e ((k, p, t) # fs) = (k, is_optional p, de_val e t) # field_readers e fs"
  by (simp_all add: field_readers_def)

lemma de_val_struct: "de_val e (TStruct fs) s = lift_val VStruct (de_fields (de_struct s) (field_readers e fs))"
proof -
  have "map (map_prod id (map_prod is_optional (de_val e))) fs = field_readers e fs"
    by (auto simp: field_readers_def)
  then show ?thesis by simp
qed

lemma ser_val_struct: "ser_val e (VStruct fs) = ser_struct (map (\<lambda>(k, v). (k, ser_val e v)) fs)"
proof -
  have "map (map_prod id (ser_val e)) fs = map (\<lambda>(k, v). (k, ser_val e v)) fs" by auto
  then show ?thesis by (simp only: ser_val.simps)
qed

declare de_val.simps(12) [simp del] ser_val.simps(12) [simp del]

section \<open>Typing\<close>

text \<open>A value of a type, with the ranges of the machine integers.\<close>

primrec has_type :: "ty \<Rightarrow> 'c val \<Rightarrow> bool" where
  "has_type TI32 = (\<lambda>v. case v of VI32 i \<Rightarrow> i32_min \<le> i \<and> i \<le> i32_max | _ \<Rightarrow> False)"
| "has_type TI64 = (\<lambda>v. case v of VI64 i \<Rightarrow> i64_min \<le> i \<and> i \<le> i64_max | _ \<Rightarrow> False)"
| "has_type TF64 = (\<lambda>v. case v of VF64 _ \<Rightarrow> True | _ \<Rightarrow> False)"
| "has_type TF32 = (\<lambda>v. case v of VF32 _ \<Rightarrow> True | _ \<Rightarrow> False)"
| "has_type TUsize = (\<lambda>v. case v of VUsize n \<Rightarrow> n \<le> usize_max | _ \<Rightarrow> False)"
| "has_type TU64 = (\<lambda>v. case v of VU64 n \<Rightarrow> n \<le> usize_max | _ \<Rightarrow> False)"
| "has_type TBool = (\<lambda>v. case v of VBool _ \<Rightarrow> True | _ \<Rightarrow> False)"
| "has_type TString = (\<lambda>v. case v of VString _ \<Rightarrow> True | _ \<Rightarrow> False)"
| "has_type (TOption t) = (\<lambda>v. case v of VOption x \<Rightarrow> pred_option (has_type t) x | _ \<Rightarrow> False)"
| "has_type (TVec t) = (\<lambda>v. case v of VVec xs \<Rightarrow> list_all (has_type t) xs | _ \<Rightarrow> False)"
| "has_type TCustom = (\<lambda>v. case v of VCustom _ \<Rightarrow> True | _ \<Rightarrow> False)"
| "has_type (TStruct fs) = (\<lambda>v. case v of
     VStruct vs \<Rightarrow> list_all2 (\<lambda>f x. fst f = fst x \<and> snd (snd f) (snd x)) (map (map_prod id (map_prod id has_type)) fs) vs
   | _ \<Rightarrow> False)"

text \<open>A relation between the fields of a declaration and those of a value.\<close>

definition at_field :: "(syn_type \<Rightarrow> ty \<Rightarrow> 'c val \<Rightarrow> bool) \<Rightarrow> string \<times> syn_type \<times> ty \<Rightarrow> string \<times> 'c val \<Rightarrow> bool" where
  "at_field P f x \<longleftrightarrow> fst f = fst x \<and> P (fst (snd f)) (snd (snd f)) (snd x)"

lemma at_field_pair [simp]: "at_field P (k, p, t) (k', v) \<longleftrightarrow> k = k' \<and> P p t v"
  by (simp add: at_field_def)

lemma at_field_fun: "at_field P = (\<lambda>f x. fst f = fst x \<and> P (fst (snd f)) (snd (snd f)) (snd x))"
  by (simp add: fun_eq_iff at_field_def)

lemma has_type_struct: "has_type (TStruct fs) (VStruct vs) \<longleftrightarrow> list_all2 (at_field (\<lambda>_. has_type)) fs vs"
  by (simp add: list.rel_map at_field_fun)

text \<open>A field whose written type is a path that begins with \<^verbatim>\<open>Option\<close> is an option.\<close>

primrec wf_ty :: "ty \<Rightarrow> bool" where
  "wf_ty TI32 = True" | "wf_ty TI64 = True" | "wf_ty TF64 = True" | "wf_ty TF32 = True" | "wf_ty TUsize = True"
| "wf_ty TU64 = True" | "wf_ty TBool = True" | "wf_ty TString = True" | "wf_ty TCustom = True"
| "wf_ty (TOption t) = wf_ty t"
| "wf_ty (TVec t) = wf_ty t"
| "wf_ty (TStruct fs) = (list_all (\<lambda>(k, p, t). is_optional p \<longrightarrow> (\<exists>u. t = TOption u)) fs
     \<and> list_all (snd \<circ> snd) (map (map_prod id (map_prod id wf_ty)) fs))"

lemma wf_ty_struct: "wf_ty (TStruct fs) \<longleftrightarrow>
    (\<forall>(k, p, t) \<in> set fs. wf_ty t \<and> (is_optional p \<longrightarrow> (\<exists>u. t = TOption u)))"
  by (auto simp: list_all_iff)

lemma lift_val_Inr [simp]: "lift_val f r = Done (Inr v) \<longleftrightarrow> (\<exists>x. r = Done (Inr x) \<and> v = f x)"
  by (auto simp: lift_val_def run_map_def run_bind_eq_Done map_sum_Inr)

lemma and_then_Inr: "and_then r f = Done (Inr v) \<longleftrightarrow> (\<exists>x. r = Done (Inr x) \<and> f x = Done (Inr v))"
proof (cases r)
  case (Done x)
  then show ?thesis by (cases x) (simp_all add: and_then_def)
qed (simp_all add: and_then_def)

lemma collect_Cons: "collect de (t # ts) = and_then (de t) (\<lambda>v. lift_val ((#) v) (collect de ts))"
  by (simp add: and_then_def lift_val_def)

lemma collect_Inr: "collect de ts = Done (Inr vs) \<Longrightarrow> v \<in> set vs \<Longrightarrow> \<exists>t. de t = Done (Inr v)"
  by (induction ts arbitrary: vs) (auto simp: collect_Cons and_then_Inr simp del: collect.simps(2))

lemma de_vec_Inr: "de_vec de s = Done (Inr vs) \<Longrightarrow> v \<in> set vs \<Longrightarrow> \<exists>t. de t = Done (Inr v)"
  unfolding de_vec_def Let_def using collect_Inr by (fastforce split: if_splits)

lemma de_option_Inr: "de_option de s = Done (Inr (Some v)) \<Longrightarrow> de s = Done (Inr v)"
  by (cases "de s") (auto simp: de_option_def split: if_splits sum.split_asm)

text \<open>How a lifted reader composes.\<close>

lemma lift_and_then: "lift_val f (and_then r g) = and_then r (\<lambda>x. lift_val f (g x))"
proof (cases r)
  case (Done x)
  then show ?thesis by (cases x) (simp_all add: and_then_def lift_val_def)
qed (simp_all add: and_then_def lift_val_def)

lemma and_then_lift: "and_then (lift_val f r) g = and_then r (\<lambda>x. g (f x))"
proof (cases r)
  case (Done x)
  then show ?thesis by (cases x) (simp_all add: and_then_def lift_val_def)
qed (simp_all add: and_then_def lift_val_def)

lemma lift_lift: "lift_val f (lift_val g r) = lift_val (\<lambda>x. f (g x)) r"
proof (cases r)
  case (Done x)
  then show ?thesis by (cases x) (simp_all add: lift_val_def)
qed (simp_all add: lift_val_def)

lemma lift_done: "lift_val f (Done (Inr x)) = Done (Inr (f x))"
  by (simp add: lift_val_def)

lemma de_field_lift: "de_field (\<lambda>s. lift_val f (de s)) m k = lift_val f (de_field de m k)"
  by (simp add: de_field_def lift_val_def split: option.split)

lemma de_option_lift: "de_option (\<lambda>s. lift_val f (de s)) t = lift_val (map_option f) (de_option de t)"
  by (cases "de t") (auto simp: de_option_def lift_val_def split: sum.split)

lemma de_opt_field_lift:
  "(case m k of None \<Rightarrow> Done (Inr (VOption None)) | Some t \<Rightarrow> lift_val (\<lambda>x. VOption (map_option f x)) (de_option de t))
     = lift_val (\<lambda>x. VOption (map_option f x)) (de_opt_field de m k)"
  by (simp add: de_opt_field_def lift_val_def split: option.split)

lemma collect_lift: "collect (\<lambda>s. lift_val f (de s)) ts = lift_val (map f) (collect de ts)"
  by (induction ts) (simp_all add: collect_Cons lift_done and_then_lift lift_and_then lift_lift del: collect.simps(2))

lemma de_vec_lift: "de_vec (\<lambda>s. lift_val f (de s)) t = lift_val (map f) (de_vec de t)"
  by (simp add: de_vec_def Let_def collect_lift lift_done)

lemma scalar_ranges:
  "de_i32 s = Done (Inr i) \<Longrightarrow> i32_min \<le> i \<and> i \<le> i32_max" "de_i64 s = Done (Inr i) \<Longrightarrow> i64_min \<le> i \<and> i \<le> i64_max"
  "de_usize s = Done (Inr n) \<Longrightarrow> n \<le> usize_max" "de_u64 s = Done (Inr n) \<Longrightarrow> n \<le> usize_max"
  using parse_signed_bound [of 31 s i] parse_signed_bound [of 63 s i] parse_usize_bound [of s n]
  by (auto simp: de_i32_def de_i64_def de_usize_def de_u64_def de_map_err_def map_sum_Inr parse_i32_def parse_i64_def
      i32_min_def i32_max_def i64_min_def i64_max_def)

lemma de_fields_Inr:
  assumes "de_fields m (field_readers e fs) = Done (Inr vs)"
    and "\<And>k p t s v. (k, p, t) \<in> set fs \<Longrightarrow> de_val e t s = Done (Inr v) \<Longrightarrow> has_type t v"
    and "\<And>k p t. (k, p, t) \<in> set fs \<Longrightarrow> is_optional p \<Longrightarrow> \<exists>u. t = TOption u"
  shows "list_all2 (at_field (\<lambda>_. has_type)) fs vs"
  using assms
proof (induction fs arbitrary: vs)
  case (Cons f fs)
  obtain k p t where f: "f = (k, p, t)" by (cases f) auto
  from Cons.prems(1) obtain v vs' where v: "vs = (k, v) # vs'"
      "(if is_optional p then (case m k of None \<Rightarrow> Done (Inr (VOption None)) | Some x \<Rightarrow> de_val e t x) else de_field (de_val e t) m k) = Done (Inr v)"
      "de_fields m (field_readers e fs) = Done (Inr vs')"
    by (auto simp: f and_then_Inr)
  have "has_type t v"
    using v(2) Cons.prems(2) [of k p t] Cons.prems(3) [of k p t]
    by (auto simp: f de_field_def split: if_splits option.splits)
  moreover have "list_all2 (at_field (\<lambda>_. has_type)) fs vs'"
    by (rule Cons.IH [OF v(3)]) (meson Cons.prems(2,3) list.set_intros(2))+
  ultimately show ?case by (simp add: f v(1))
qed simp

text \<open>What a reader returns has the type it reads.\<close>

lemma de_val_type: "wf_ty t \<Longrightarrow> de_val e t s = Done (Inr v) \<Longrightarrow> has_type t v"
proof (induction t arbitrary: s v)
  case (TOption t)
  from TOption.prems(2) obtain x where x: "de_option (de_val e t) s = Done (Inr x)" "v = VOption x" by auto
  then show ?case using TOption.IH TOption.prems(1) by (cases x) (auto dest: de_option_Inr)
next
  case (TVec t)
  then obtain xs where "v = VVec xs" "de_vec (de_val e t) s = Done (Inr xs)" by auto
  then show ?case using TVec.IH TVec.prems(1) by (auto simp: list_all_iff dest: de_vec_Inr)
next
  case (TStruct fs)
  then obtain vs where v: "v = VStruct vs"
      "de_fields (de_struct s) (field_readers e fs) = Done (Inr vs)" by (auto simp: de_val_struct)
  have "list_all2 (at_field (\<lambda>_. has_type)) fs vs"
  proof (rule de_fields_Inr [OF v(2)])
    fix k p t s x assume f: "(k, p, t) \<in> set fs" and d: "de_val e t s = Done (Inr x)"
    have "wf_ty t" using TStruct.prems(1) f by (auto simp: wf_ty_struct simp del: wf_ty.simps)
    then show "has_type t x" using TStruct.IH [OF f _ _ _ d] by simp
  next
    fix k p t assume "(k, p, t) \<in> set fs" "is_optional p"
    then show "\<exists>u. t = TOption u" using TStruct.prems(1) by (auto simp: wf_ty_struct simp del: wf_ty.simps)
  qed
  then show ?case by (simp only: v(1) has_type_struct)
qed (auto dest: scalar_ranges)

section \<open>Panics\<close>

text \<open>The types without strings and options; their readers return an error on malformed text.\<close>

primrec panic_free :: "ty \<Rightarrow> bool" where
  "panic_free TI32 = True" | "panic_free TI64 = True" | "panic_free TF64 = True" | "panic_free TF32 = True"
| "panic_free TUsize = True" | "panic_free TU64 = True" | "panic_free TBool = True"
| "panic_free TString = False" | "panic_free (TOption t) = False" | "panic_free TCustom = False"
| "panic_free (TVec t) = panic_free t"
| "panic_free (TStruct fs) = list_all (snd \<circ> snd) (map (map_prod id (map_prod id panic_free)) fs)"

lemma panic_free_struct: "panic_free (TStruct fs) \<longleftrightarrow> (\<forall>(k, p, t) \<in> set fs. panic_free t)"
  by (auto simp: list_all_iff)

lemma lift_val_outcome [simp]: "lift_val f r = Panic \<longleftrightarrow> r = Panic" "lift_val f r = Hang \<longleftrightarrow> r = Hang"
  by (cases r; simp add: lift_val_def run_map_def)+

lemma and_then_outcome:
  "and_then r f = Panic \<longleftrightarrow> r = Panic \<or> (\<exists>v. r = Done (Inr v) \<and> f v = Panic)"
  "and_then r f = Hang \<longleftrightarrow> r = Hang \<or> (\<exists>v. r = Done (Inr v) \<and> f v = Hang)"
  by (cases r; auto simp: and_then_def split: sum.split)+

lemma collect_outcome:
  "(\<And>t. de t \<noteq> Panic) \<Longrightarrow> collect de ts \<noteq> Panic" "(\<And>t. de t \<noteq> Hang) \<Longrightarrow> collect de ts \<noteq> Hang"
  by (induction ts) (simp_all add: collect_Cons and_then_outcome del: collect.simps(2))

lemma de_vec_outcome:
  "(\<And>t. de t \<noteq> Panic) \<Longrightarrow> de_vec de s \<noteq> Panic" "(\<And>t. de t \<noteq> Hang) \<Longrightarrow> de_vec de s \<noteq> Hang"
  by (simp_all add: de_vec_def Let_def collect_outcome)

lemma de_field_outcome:
  "(\<And>t. de t \<noteq> Panic) \<Longrightarrow> de_field de m k \<noteq> Panic" "(\<And>t. de t \<noteq> Hang) \<Longrightarrow> de_field de m k \<noteq> Hang"
  by (simp_all add: de_field_def split: option.split)

lemma de_fields_outcome:
  "\<forall>(k, opt, de) \<in> set fs. \<forall>t. de t \<noteq> Panic \<Longrightarrow> de_fields m fs \<noteq> Panic"
  "\<forall>(k, opt, de) \<in> set fs. \<forall>t. de t \<noteq> Hang \<Longrightarrow> de_fields m fs \<noteq> Hang"
  by (induction fs) (auto simp: and_then_outcome de_field_def split: option.splits if_splits)

lemma scalar_outcome [simp]: "de_map_err f r \<noteq> Panic" "de_map_err f r \<noteq> Hang"
  by (simp_all add: de_map_err_def)

lemma de_val_panic_free: "panic_free t \<Longrightarrow> de_val e t s \<noteq> Panic"
proof (induction t arbitrary: s)
  case (TStruct fs)
  have "\<forall>(k, opt, de) \<in> set (field_readers e fs). \<forall>t. de t \<noteq> Panic"
    using TStruct by (force simp: field_readers_def panic_free_struct simp del: panic_free.simps)
  then show ?case using de_fields_outcome(1) by (simp add: de_val_struct)
qed (simp_all add: de_vec_outcome de_i32_def de_i64_def de_f64_def de_f32_def de_usize_def de_u64_def de_bool_def)

lemma de_option_hang: "de s \<noteq> Hang \<Longrightarrow> de_option de s \<noteq> Hang"
  by (cases "de s") (auto simp: de_option_def split: sum.split)

lemma de_val_returns:
  assumes "\<And>s. de_custom e s \<noteq> Hang"
  shows "de_val e t s \<noteq> Hang"
proof (induction t arbitrary: s)
  case (TStruct fs)
  have "\<forall>(k, opt, de) \<in> set (field_readers e fs). \<forall>t. de t \<noteq> Hang"
    using TStruct by (force simp: field_readers_def)
  then show ?case using de_fields_outcome(2) by (simp add: de_val_struct)
qed (simp_all add: assms de_vec_outcome de_option_hang de_i32_def de_i64_def de_f64_def de_f32_def de_usize_def de_u64_def
    de_bool_def de_string_def Let_def)

section \<open>Round trips\<close>

definition f64_is_nan :: "64 word \<Rightarrow> bool" where
  "f64_is_nan x \<longleftrightarrow> 9218868437227405312 < uint x mod 2 ^ 63"

text \<open>What is used of the text of floating-point numbers and of the hand-written printers and readers.\<close>

locale wire_codec =
  fixes e :: "'c wire_env" and ok :: "'c \<Rightarrow> bool"
  assumes f32_text: "f32_codec (env_f32 e)"
    and parse_show_f64: "\<not> f64_is_nan x \<Longrightarrow> parse_f64 e (show_f64 e x) = Inr x"
    and show_f64_chars: "list_all f32_char (show_f64 e x) \<and> show_f64 e x \<noteq> []"
    and custom_rt: "ok c \<Longrightarrow> de_custom e (ser_custom e c) = Done (Inr c)"
    and custom_value: "ok c \<Longrightarrow> value_ok (ser_custom e c) \<and> ser_custom e c \<noteq> ''None''"

text \<open>
  The values that survive the wire. The conditions on texts say that the scanners take a string,
  an element or an optional value in one piece and that nothing prints as \<^verbatim>\<open>None\<close> by accident.
\<close>

primrec wire :: "'c wire_env \<Rightarrow> ('c \<Rightarrow> bool) \<Rightarrow> ty \<Rightarrow> 'c val \<Rightarrow> bool" where
  "wire e ok TI32 = has_type TI32"
| "wire e ok TI64 = has_type TI64"
| "wire e ok TF64 = (\<lambda>v. case v of VF64 x \<Rightarrow> \<not> f64_is_nan x | _ \<Rightarrow> False)"
| "wire e ok TF32 = (\<lambda>v. case v of VF32 x \<Rightarrow> \<not> f32_is_nan x | _ \<Rightarrow> False)"
| "wire e ok TUsize = has_type TUsize"
| "wire e ok TU64 = has_type TU64"
| "wire e ok TBool = has_type TBool"
| "wire e ok TString = (\<lambda>v. case v of VString s \<Rightarrow> wire_str s | _ \<Rightarrow> False)"
| "wire e ok (TOption t) = (\<lambda>v. case v of
     VOption x \<Rightarrow> pred_option (\<lambda>y. wire e ok t y \<and> \<not> contains_str (ser_val e y) ''None'' \<and> ser_val e y \<noteq> []) x | _ \<Rightarrow> False)"
| "wire e ok (TVec t) = (\<lambda>v. case v of VVec xs \<Rightarrow> list_all (\<lambda>y. wire e ok t y \<and> elem_ok (ser_val e y)) xs | _ \<Rightarrow> False)"
| "wire e ok TCustom = (\<lambda>v. case v of VCustom c \<Rightarrow> ok c | _ \<Rightarrow> False)"
| "wire e ok (TStruct fs) = (\<lambda>v. case v of
     VStruct vs \<Rightarrow> distinct (map fst fs) \<and> list_all key_ok (map fst fs)
       \<and> list_all2 (\<lambda>f x. fst f = fst x \<and> snd (snd f) (snd x) \<and> (ser_val e (snd x) = ''None'' \<longrightarrow> is_optional (fst (snd f))))
           (map (map_prod id (map_prod id (wire e ok))) fs) vs
   | _ \<Rightarrow> False)"

lemma wire_struct:
  "wire e ok (TStruct fs) (VStruct vs) \<longleftrightarrow> distinct (map fst fs) \<and> list_all key_ok (map fst fs)
     \<and> list_all2 (at_field (\<lambda>p t v. wire e ok t v \<and> (ser_val e v = ''None'' \<longrightarrow> is_optional p))) fs vs"
  by (simp add: list.rel_map at_field_fun)

declare wire.simps(12) [simp del] has_type.simps(12) [simp del] wf_ty.simps(12) [simp del]

text \<open>The names of a structure's value are those of the declaration.\<close>

lemma at_field_names: "list_all2 (at_field P) fs vs \<Longrightarrow> map fst vs = map fst fs"
  by (induction fs vs rule: list_all2_induct) (auto simp: at_field_def)

lemma at_field_mem:
  assumes "list_all2 (at_field P) fs vs" "(k, v) \<in> set vs"
  obtains p t where "(k, p, t) \<in> set fs" "P p t v"
proof -
  have "\<exists>p t. (k, p, t) \<in> set fs \<and> P p t v"
    using assms by (induction fs vs rule: list_all2_induct) (auto simp: at_field_def, metis prod.collapse)
  then show ?thesis using that by blast
qed

lemma de_fields_ser:
  assumes "list_all2 (at_field (\<lambda>p t v. if ser_val e v = ''None'' then is_optional p \<and> v = VOption None
      else de_val e t (ser_val e v) = Done (Inr v))) fs vs"
    and "\<forall>(k, v) \<in> set vs. m k = (if ser_val e v \<noteq> ''None'' then Some (ser_val e v) else None)"
  shows "de_fields m (field_readers e fs) = Done (Inr vs)"
  using assms
proof (induction fs vs rule: list_all2_induct)
  case (Cons f fs x vs)
  obtain k p t v where f: "f = (k, p, t)" "x = (k, v)"
    using Cons.hyps(1) by (cases f; cases x) auto
  show ?case
    using Cons by (auto simp: f lift_val_def split: if_splits)
qed simp

context wire_codec
begin

lemma f64_plain: "list_all key_char (show_f64 e x)"
proof -
  have "key_char c" if "f32_char c" for c
    using that by (auto simp: f32_char_def key_char_def is_whitespace_def)
  then show ?thesis using show_f64_chars [of x] by (simp add: list_all_iff)
qed

lemma wire_value_ok: "wire e ok t v \<Longrightarrow> ser_val e v \<noteq> ''None'' \<Longrightarrow> value_ok (ser_val e v)"
proof (induction t arbitrary: v)
  case (TOption t)
  then show ?case by (auto simp: ser_option_def split: val.splits option.splits)
next
  case (TVec t)
  then show ?case by (auto simp: list_all_iff intro!: value_ok_ser_vec split: val.splits)
next
  case (TStruct fs)
  from TStruct.prems(1) obtain vs where v: "v = VStruct vs" by (cases v) (simp_all add: wire.simps(12))
  note w = TStruct.prems(1) [unfolded v wire_struct]
  have "field_ok (k, ser_val e x)" if kx: "(k, x) \<in> set vs" for k x
  proof -
    obtain p t where f: "(k, p, t) \<in> set fs" "wire e ok t x" using at_field_mem [OF conjunct2 [OF conjunct2 [OF w]] kx] by blast
    moreover have "key_ok k" using w f(1) by (force simp: list_all_iff)
    ultimately show ?thesis using TStruct.IH [OF f(1)] by (simp add: field_ok_def)
  qed
  then show ?case unfolding v ser_val_struct by (intro value_ok_ser_struct) auto
qed (use f32_codec.show_plain [OF f32_text] f64_plain custom_value scalars_ok value_ok_ser_string in
    \<open>auto intro: plain_value_ok split: val.splits\<close>)

lemma wire_none:
  assumes "wf_ty t" "wire e ok t v" "ser_val e v = ''None''" "is_optional p" "is_optional p \<Longrightarrow> \<exists>u. t = TOption u"
  shows "v = VOption None"
proof -
  obtain u where t: "t = TOption u" using assms(4,5) by blast
  then obtain x where v: "v = VOption x" using assms(2) by (auto split: val.splits)
  then show ?thesis using assms(2,3) t by (cases x) (auto simp: ser_option_def)
qed

lemma wire_field_ok:
  assumes "wire e ok (TStruct fs) (VStruct vs)"
  shows "\<forall>f \<in> set (map (\<lambda>(k, v). (k, ser_val e v)) vs). field_ok f"
    "distinct (map fst (map (\<lambda>(k, v). (k, ser_val e v)) vs))"
proof -
  note w = assms [unfolded wire_struct]
  have "field_ok (k, ser_val e x)" if kx: "(k, x) \<in> set vs" for k x
  proof -
    obtain p t where f: "(k, p, t) \<in> set fs" "wire e ok t x" using at_field_mem [OF conjunct2 [OF conjunct2 [OF w]] kx] by blast
    moreover have "key_ok k" using w f(1) by (force simp: list_all_iff)
    ultimately show ?thesis using wire_value_ok [OF f(2)] by (simp add: field_ok_def)
  qed
  then show "\<forall>f \<in> set (map (\<lambda>(k, v). (k, ser_val e v)) vs). field_ok f" by auto
  have "map fst (map (\<lambda>(k, v). (k, ser_val e v)) vs) = map fst fs"
    using at_field_names w by (simp add: case_prod_unfold comp_def) blast
  then show "distinct (map fst (map (\<lambda>(k, v). (k, ser_val e v)) vs))" using w by (simp only:)
qed

lemma struct_reads:
  assumes "wire e ok (TStruct fs) (VStruct vs)" "(k, v) \<in> set vs"
  shows "de_struct (ser_val e (VStruct vs)) k = (if ser_val e v \<noteq> ''None'' then Some (ser_val e v) else None)"
proof -
  let ?t = "map (\<lambda>(k, v). (k, ser_val e v)) vs"
  have "map_of ?t k = Some (ser_val e v)"
    using wire_field_ok(2) [OF assms(1)] assms(2) by (intro map_of_is_SomeI) force+
  then show ?thesis
    unfolding ser_val_struct using de_ser_struct [OF wire_field_ok [OF assms(1)], of k] by simp
qed

lemma wire_roundtrip: "wf_ty t \<Longrightarrow> wire e ok t v \<Longrightarrow> de_val e t (ser_val e v) = Done (Inr v)"
proof (induction t arbitrary: v)
  case (TOption t)
  then obtain x where v: "v = VOption x" by (auto split: val.splits)
  then show ?case
    using TOption by (cases x) (auto simp: ser_option_def de_option_def lift_val_def)
next
  case (TVec t)
  then obtain xs where v: "v = VVec xs" by (auto split: val.splits)
  then have "de_vec (de_val e t) (ser_vec (ser_val e) xs) = Done (Inr xs)"
    using TVec by (intro de_ser_vec) (auto simp: list_all_iff)
  then show ?case by (simp add: v ser_vec_def)
next
  case (TStruct fs)
  from TStruct.prems(2) obtain vs where v: "v = VStruct vs" by (cases v) (simp_all add: wire.simps(12))
  note w = TStruct.prems(2) [unfolded v wire_struct]
  let ?m = "de_struct (ser_val e (VStruct vs))"
  let ?P = "\<lambda>p t v. if ser_val e v = ''None'' then is_optional p \<and> v = VOption None else de_val e t (ser_val e v) = Done (Inr v)"
  have "at_field ?P f x"
    if f: "f \<in> set fs" and r: "at_field (\<lambda>p t v. wire e ok t v \<and> (ser_val e v = ''None'' \<longrightarrow> is_optional p)) f x" for f x
  proof -
    obtain k p t y where fx: "f = (k, p, t)" "x = (k, y)" using r by (cases f; cases x) auto
    have t: "wf_ty t" "is_optional p \<Longrightarrow> \<exists>u. t = TOption u" using TStruct.prems(1) f fx by (auto simp: wf_ty_struct)
    have y: "wire e ok t y" "ser_val e y = ''None'' \<Longrightarrow> is_optional p" using r fx by auto
    have "de_val e t (ser_val e y) = Done (Inr y)" using TStruct.IH f fx t(1) y(1) by auto
    moreover have "y = VOption None" if n: "ser_val e y = ''None''" using wire_none [OF t(1) y(1) n y(2) [OF n] t(2)] .
    ultimately show ?thesis using y(2) fx by simp
  qed
  then have "list_all2 (at_field ?P) fs vs"
    using list.rel_mono_strong [OF conjunct2 [OF conjunct2 [OF w]]] by blast
  moreover have "\<forall>(k, v) \<in> set vs. ?m k = (if ser_val e v \<noteq> ''None'' then Some (ser_val e v) else None)"
    using struct_reads [OF TStruct.prems(2) [unfolded v]] by blast
  ultimately have "de_fields ?m (field_readers e fs) = Done (Inr vs)" by (rule de_fields_ser)
  then show ?case by (simp add: v de_val_struct)
qed (use f32_codec.de_show [OF f32_text] parse_show_f64 custom_rt de_ser_scalars de_ser_string in
    \<open>auto simp: de_f64_def de_map_err_def split: val.splits\<close>)

end

end
