(* ===== verification/Wire_Schemas.thy ===== *)
theory Wire_Schemas
  imports Derive_Macro
begin

text \<open>
  The structures of \<^verbatim>\<open>efis/src/efis.rs\<close> and \<^verbatim>\<open>efis/src/consensus.rs\<close> that derive \<^verbatim>\<open>SerDe\<close>: for each its declaration as a
  type of the wire and its values. The printers and readers of \<open>Wire_Types\<close> and \<open>Raft_Types\<close> are shown
  to be what the macro generates from these declarations, so the general facts about derived code
  hold for them; the readers of responses, which only a client uses, come from the macro alone.
\<close>

section \<open>The declarations\<close>

definition ty_OkRes :: ty where
  "ty_OkRes = TStruct [(''status'', TypePath [''String''], TString)]"

definition val_OkRes :: "OkRes \<Rightarrow> Command val" where
  "val_OkRes r = VStruct [(''status'', VString (status r))]"

definition ty_SetReq :: ty where
  "ty_SetReq = TStruct [(''key'', TypePath [''String''], TString), (''value'', TypePath [''String''], TString),
     (''exp'', TypePath [''Option''], TOption TU64)]"

definition val_SetReq :: "SetReq \<Rightarrow> Command val" where
  "val_SetReq r = VStruct [(''key'', VString (set_key r)), (''value'', VString (set_value r)),
     (''exp'', VOption (map_option VU64 (set_exp r)))]"

definition ty_GetReq :: ty where
  "ty_GetReq = TStruct [(''key'', TypePath [''String''], TString)]"

definition val_GetReq :: "GetReq \<Rightarrow> Command val" where
  "val_GetReq r = VStruct [(''key'', VString (get_key r))]"

definition ty_GetRes :: ty where
  "ty_GetRes = TStruct [(''val'', TypePath [''String''], TString)]"

definition val_GetRes :: "GetRes \<Rightarrow> Command val" where
  "val_GetRes r = VStruct [(''val'', VString (res_val r))]"

definition ty_ExpireReq :: ty where
  "ty_ExpireReq = TStruct [(''key'', TypePath [''String''], TString), (''duration'', TypePath [''u64''], TU64)]"

definition val_ExpireReq :: "ExpireReq \<Rightarrow> Command val" where
  "val_ExpireReq r = VStruct [(''key'', VString (exp_key r)), (''duration'', VU64 (exp_duration r))]"

definition ty_TtlRes :: ty where
  "ty_TtlRes = TStruct [(''ttl'', TypePath [''String''], TString)]"

definition val_TtlRes :: "TtlRes \<Rightarrow> Command val" where
  "val_TtlRes r = VStruct [(''ttl'', VString (res_ttl r))]"

definition ty_ListReq :: ty where
  "ty_ListReq = TStruct [(''key'', TypePath [''String''], TString), (''values'', TypePath [''Vec''], TVec TString)]"

definition val_ListReq :: "ListReq \<Rightarrow> Command val" where
  "val_ListReq r = VStruct [(''key'', VString (list_key r)), (''values'', VVec (map VString (list_values r)))]"

definition ty_MapReq :: ty where
  "ty_MapReq = TStruct [(''key'', TypePath [''String''], TString), (''score'', TypePath [''i64''], TI64),
     (''value'', TypePath [''String''], TString)]"

definition val_MapReq :: "MapReq \<Rightarrow> Command val" where
  "val_MapReq r = VStruct [(''key'', VString (map_key r)), (''score'', VI64 (map_score r)), (''value'', VString (map_value r))]"

definition ty_MapRange :: ty where
  "ty_MapRange = TStruct [(''key'', TypePath [''String''], TString), (''start'', TypePath [''usize''], TUsize),
     (''end'', TypePath [''usize''], TUsize)]"

definition val_MapRange :: "MapRange \<Rightarrow> Command val" where
  "val_MapRange r = VStruct [(''key'', VString (range_key r)), (''start'', VUsize (range_start r)), (''end'', VUsize (range_end r))]"

definition ty_ListRes :: ty where
  "ty_ListRes = TStruct [(''vals'', TypePath [''Vec''], TVec TString)]"

definition val_ListRes :: "ListRes \<Rightarrow> Command val" where
  "val_ListRes r = VStruct [(''vals'', VVec (map VString (res_vals r)))]"

definition ty_PubReq :: ty where
  "ty_PubReq = TStruct [(''chan'', TypePath [''String''], TString), (''value'', TypePath [''String''], TString)]"

definition val_PubReq :: "PubReq \<Rightarrow> Command val" where
  "val_PubReq r = VStruct [(''chan'', VString (pub_chan r)), (''value'', VString (pub_value r))]"

definition ty_SubReq :: ty where
  "ty_SubReq = TStruct [(''chan'', TypePath [''String''], TString)]"

definition val_SubReq :: "SubReq \<Rightarrow> Command val" where
  "val_SubReq r = VStruct [(''chan'', VString (sub_chan r))]"

definition ty_VecReq :: ty where
  "ty_VecReq = TStruct [(''id'', TypePath [''u64''], TU64), (''vec'', TypePath [''Vec''], TVec TF32)]"

definition val_VecReq :: "VecReq \<Rightarrow> Command val" where
  "val_VecReq r = VStruct [(''id'', VU64 (vec_id r)), (''vec'', VVec (map VF32 (vec_vec r)))]"

definition ty_VSetReq :: ty where
  "ty_VSetReq = TStruct [(''key'', TypePath [''String''], TString), (''vecs'', TypePath [''Vec''], TVec ty_VecReq)]"

definition val_VSetReq :: "VSetReq \<Rightarrow> Command val" where
  "val_VSetReq r = VStruct [(''key'', VString (vset_key r)), (''vecs'', VVec (map val_VecReq (vset_vecs r)))]"

definition ty_VSearchReq :: ty where
  "ty_VSearchReq = TStruct [(''key'', TypePath [''String''], TString), (''query'', TypePath [''Vec''], TVec TF32),
     (''k'', TypePath [''usize''], TUsize)]"

definition val_VSearchReq :: "VSearchReq \<Rightarrow> Command val" where
  "val_VSearchReq r = VStruct [(''key'', VString (vsearch_key r)), (''query'', VVec (map VF32 (vsearch_query r))), (''k'', VUsize (vsearch_k r))]"

definition ty_VDelReq :: ty where
  "ty_VDelReq = TStruct [(''key'', TypePath [''String''], TString), (''id'', TypePath [''String''], TString)]"

definition val_VDelReq :: "VDelReq \<Rightarrow> Command val" where
  "val_VDelReq r = VStruct [(''key'', VString (vdel_key r)), (''id'', VString (vdel_id r))]"

definition ty_VSearchRes :: ty where
  "ty_VSearchRes = TStruct [(''ids'', TypePath [''Vec''], TVec TU64)]"

definition val_VSearchRes :: "VSearchRes \<Rightarrow> Command val" where
  "val_VSearchRes r = VStruct [(''ids'', VVec (map VU64 (res_ids r)))]"

definition ty_LogEntry :: ty where
  "ty_LogEntry = TStruct [(''command'', TypePath [''Command''], TCustom), (''term'', TypePath [''usize''], TUsize)]"

definition val_LogEntry :: "LogEntry \<Rightarrow> Command val" where
  "val_LogEntry r = VStruct [(''command'', VCustom (le_command r)), (''term'', VUsize (le_term r))]"

definition ty_RequestVote :: ty where
  "ty_RequestVote = TStruct [(''term'', TypePath [''usize''], TUsize), (''candidate_id'', TypePath [''String''], TString),
     (''last_log_index'', TypePath [''usize''], TUsize), (''last_log_term'', TypePath [''usize''], TUsize)]"

definition val_RequestVote :: "RequestVote \<Rightarrow> Command val" where
  "val_RequestVote r = VStruct [(''term'', VUsize (rv_term r)), (''candidate_id'', VString (rv_candidate_id r)),
     (''last_log_index'', VUsize (rv_last_log_index r)), (''last_log_term'', VUsize (rv_last_log_term r))]"

definition ty_RequestVoteReply :: ty where
  "ty_RequestVoteReply = TStruct [(''term'', TypePath [''usize''], TUsize), (''voted'', TypePath [''bool''], TBool)]"

definition val_RequestVoteReply :: "RequestVoteReply \<Rightarrow> Command val" where
  "val_RequestVoteReply r = VStruct [(''term'', VUsize (rvr_term r)), (''voted'', VBool (rvr_voted r))]"

definition ty_AppendEntries :: ty where
  "ty_AppendEntries = TStruct [(''term'', TypePath [''usize''], TUsize), (''leader'', TypePath [''String''], TString),
     (''prev_log_index'', TypePath [''Option''], TOption TUsize),
     (''prev_log_term'', TypePath [''Option''], TOption TUsize), (''entries'', TypePath [''Vec''], TVec ty_LogEntry),
     (''leader_commit'', TypePath [''Option''], TOption TUsize)]"

definition val_AppendEntries :: "AppendEntries \<Rightarrow> Command val" where
  "val_AppendEntries r = VStruct [(''term'', VUsize (ae_term r)), (''leader'', VString (ae_leader r)),
     (''prev_log_index'', VOption (map_option VUsize (ae_prev_log_index r))),
     (''prev_log_term'', VOption (map_option VUsize (ae_prev_log_term r))),
     (''entries'', VVec (map val_LogEntry (ae_entries r))),
     (''leader_commit'', VOption (map_option VUsize (ae_leader_commit r)))]"

definition ty_AppendEntriesReply :: ty where
  "ty_AppendEntriesReply = TStruct [(''term'', TypePath [''usize''], TUsize), (''success'', TypePath [''bool''], TBool),
     (''conflict_index'', TypePath [''Option''], TOption TUsize),
     (''conflict_term'', TypePath [''Option''], TOption TUsize)]"

definition val_AppendEntriesReply :: "AppendEntriesReply \<Rightarrow> Command val" where
  "val_AppendEntriesReply r = VStruct [(''term'', VUsize (aer_term r)), (''success'', VBool (aer_success r)),
     (''conflict_index'', VOption (map_option VUsize (aer_conflict_index r))),
     (''conflict_term'', VOption (map_option VUsize (aer_conflict_term r)))]"

section \<open>The expansions\<close>

text \<open>The only hand-written type is \<^verbatim>\<open>Command\<close>.\<close>

definition efis_env :: "f32_text \<Rightarrow> (64 word \<Rightarrow> string) \<Rightarrow> (string \<Rightarrow> (64 word) res) \<Rightarrow> Command wire_env" where
  "efis_env ft sf pf = \<lparr>env_f32 = ft, show_f64 = sf, parse_f64 = pf, ser_custom = ser_Command ft, de_custom = de_Command ft\<rparr>"

lemma efis_env_simps [simp]:
  "env_f32 (efis_env ft sf pf) = ft" "show_f64 (efis_env ft sf pf) = sf" "parse_f64 (efis_env ft sf pf) = pf"
  "ser_custom (efis_env ft sf pf) = ser_Command ft" "de_custom (efis_env ft sf pf) = de_Command ft"
  by (simp_all add: efis_env_def)

lemma ser_vec_map: "ser_vec id (map ser xs) = ser_vec ser xs" "ser_option id (map_option ser x) = ser_option ser x"
  by (simp_all add: ser_vec_def ser_option_def split: option.split)

lemmas expand_simps = fun_eq_iff de_val_struct ser_val_struct lift_and_then and_then_lift lift_lift lift_done de_field_lift
  de_option_lift de_opt_field_lift de_vec_lift ser_vec_map Let_def option.map_comp list.map_comp comp_def

lemma expand_OkRes:
  "ser_val (efis_env ft sf pf) (val_OkRes r) = ser_OkRes r"
  by (simp_all add: ty_OkRes_def val_OkRes_def ser_OkRes_def expand_simps)

lemma expand_SetReq:
  "ser_val (efis_env ft sf pf) (val_SetReq r) = ser_SetReq r"
  "de_val (efis_env ft sf pf) ty_SetReq = (\<lambda>s. lift_val val_SetReq (de_SetReq s))"
  by (simp_all add: ty_SetReq_def val_SetReq_def ser_SetReq_def de_SetReq_def expand_simps)

lemma expand_GetReq:
  "ser_val (efis_env ft sf pf) (val_GetReq r) = ser_GetReq r"
  "de_val (efis_env ft sf pf) ty_GetReq = (\<lambda>s. lift_val val_GetReq (de_GetReq s))"
  by (simp_all add: ty_GetReq_def val_GetReq_def ser_GetReq_def de_GetReq_def expand_simps)

lemma expand_GetRes:
  "ser_val (efis_env ft sf pf) (val_GetRes r) = ser_GetRes r"
  by (simp_all add: ty_GetRes_def val_GetRes_def ser_GetRes_def expand_simps)

lemma expand_ExpireReq:
  "ser_val (efis_env ft sf pf) (val_ExpireReq r) = ser_ExpireReq r"
  "de_val (efis_env ft sf pf) ty_ExpireReq = (\<lambda>s. lift_val val_ExpireReq (de_ExpireReq s))"
  by (simp_all add: ty_ExpireReq_def val_ExpireReq_def ser_ExpireReq_def de_ExpireReq_def expand_simps)

lemma expand_TtlRes:
  "ser_val (efis_env ft sf pf) (val_TtlRes r) = ser_TtlRes r"
  by (simp_all add: ty_TtlRes_def val_TtlRes_def ser_TtlRes_def expand_simps)

lemma expand_ListReq:
  "ser_val (efis_env ft sf pf) (val_ListReq r) = ser_ListReq r"
  "de_val (efis_env ft sf pf) ty_ListReq = (\<lambda>s. lift_val val_ListReq (de_ListReq s))"
  by (simp_all add: ty_ListReq_def val_ListReq_def ser_ListReq_def de_ListReq_def expand_simps)

lemma expand_MapReq:
  "ser_val (efis_env ft sf pf) (val_MapReq r) = ser_MapReq r"
  "de_val (efis_env ft sf pf) ty_MapReq = (\<lambda>s. lift_val val_MapReq (de_MapReq s))"
  by (simp_all add: ty_MapReq_def val_MapReq_def ser_MapReq_def de_MapReq_def expand_simps)

lemma expand_MapRange:
  "de_val (efis_env ft sf pf) ty_MapRange = (\<lambda>s. lift_val val_MapRange (de_MapRange s))"
  by (simp_all add: ty_MapRange_def val_MapRange_def de_MapRange_def expand_simps)

lemma expand_ListRes:
  "ser_val (efis_env ft sf pf) (val_ListRes r) = ser_ListRes r"
  by (simp_all add: ty_ListRes_def val_ListRes_def ser_ListRes_def expand_simps)

lemma expand_PubReq:
  "ser_val (efis_env ft sf pf) (val_PubReq r) = ser_PubReq r"
  "de_val (efis_env ft sf pf) ty_PubReq = (\<lambda>s. lift_val val_PubReq (de_PubReq s))"
  by (simp_all add: ty_PubReq_def val_PubReq_def ser_PubReq_def de_PubReq_def expand_simps)

lemma expand_SubReq:
  "de_val (efis_env ft sf pf) ty_SubReq = (\<lambda>s. lift_val val_SubReq (de_SubReq s))"
  by (simp_all add: ty_SubReq_def val_SubReq_def de_SubReq_def expand_simps)

lemma expand_VecReq:
  "ser_val (efis_env ft sf pf) (val_VecReq r) = ser_VecReq ft r"
  "de_val (efis_env ft sf pf) ty_VecReq = (\<lambda>s. lift_val val_VecReq (de_VecReq ft s))"
  by (simp_all add: ty_VecReq_def val_VecReq_def ser_VecReq_def de_VecReq_def expand_simps)

lemma expand_VSetReq:
  "ser_val (efis_env ft sf pf) (val_VSetReq r) = ser_VSetReq ft r"
  "de_val (efis_env ft sf pf) ty_VSetReq = (\<lambda>s. lift_val val_VSetReq (de_VSetReq ft s))"
  by (simp_all add: ty_VSetReq_def val_VSetReq_def ser_VSetReq_def de_VSetReq_def expand_simps expand_VecReq)

lemma expand_VSearchReq:
  "de_val (efis_env ft sf pf) ty_VSearchReq = (\<lambda>s. lift_val val_VSearchReq (de_VSearchReq ft s))"
  by (simp_all add: ty_VSearchReq_def val_VSearchReq_def de_VSearchReq_def expand_simps)

lemma expand_VDelReq:
  "ser_val (efis_env ft sf pf) (val_VDelReq r) = ser_VDelReq r"
  "de_val (efis_env ft sf pf) ty_VDelReq = (\<lambda>s. lift_val val_VDelReq (de_VDelReq s))"
  by (simp_all add: ty_VDelReq_def val_VDelReq_def ser_VDelReq_def de_VDelReq_def expand_simps)

lemma expand_VSearchRes:
  "ser_val (efis_env ft sf pf) (val_VSearchRes r) = ser_VSearchRes r"
  by (simp_all add: ty_VSearchRes_def val_VSearchRes_def ser_VSearchRes_def expand_simps)

lemma expand_LogEntry:
  "ser_val (efis_env ft sf pf) (val_LogEntry r) = ser_LogEntry ft r"
  "de_val (efis_env ft sf pf) ty_LogEntry = (\<lambda>s. lift_val val_LogEntry (de_LogEntry ft s))"
  by (simp_all add: ty_LogEntry_def val_LogEntry_def ser_LogEntry_def de_LogEntry_def expand_simps)

lemma expand_RequestVote:
  "ser_val (efis_env ft sf pf) (val_RequestVote r) = ser_RequestVote r"
  "de_val (efis_env ft sf pf) ty_RequestVote = (\<lambda>s. lift_val val_RequestVote (de_RequestVote s))"
  by (simp_all add: ty_RequestVote_def val_RequestVote_def ser_RequestVote_def de_RequestVote_def expand_simps)

lemma expand_RequestVoteReply:
  "ser_val (efis_env ft sf pf) (val_RequestVoteReply r) = ser_RequestVoteReply r"
  "de_val (efis_env ft sf pf) ty_RequestVoteReply = (\<lambda>s. lift_val val_RequestVoteReply (de_RequestVoteReply s))"
  by (simp_all add: ty_RequestVoteReply_def val_RequestVoteReply_def ser_RequestVoteReply_def de_RequestVoteReply_def expand_simps)

lemma expand_AppendEntries:
  "ser_val (efis_env ft sf pf) (val_AppendEntries r) = ser_AppendEntries ft r"
  "de_val (efis_env ft sf pf) ty_AppendEntries = (\<lambda>s. lift_val val_AppendEntries (de_AppendEntries ft s))"
  by (simp_all add: ty_AppendEntries_def val_AppendEntries_def ser_AppendEntries_def de_AppendEntries_def expand_simps expand_LogEntry)

lemma expand_AppendEntriesReply:
  "ser_val (efis_env ft sf pf) (val_AppendEntriesReply r) = ser_AppendEntriesReply r"
  "de_val (efis_env ft sf pf) ty_AppendEntriesReply = (\<lambda>s. lift_val val_AppendEntriesReply (de_AppendEntriesReply s))"
  by (simp_all add: ty_AppendEntriesReply_def val_AppendEntriesReply_def ser_AppendEntriesReply_def de_AppendEntriesReply_def expand_simps)

section \<open>The program's readers and printers\<close>

lemma wf_schemas [simp]:
  "wf_ty ty_OkRes" "wf_ty ty_SetReq" "wf_ty ty_GetReq" "wf_ty ty_GetRes" "wf_ty ty_ExpireReq" "wf_ty ty_TtlRes"
  "wf_ty ty_ListReq" "wf_ty ty_MapReq" "wf_ty ty_MapRange" "wf_ty ty_ListRes" "wf_ty ty_PubReq" "wf_ty ty_SubReq"
  "wf_ty ty_VecReq" "wf_ty ty_VSetReq" "wf_ty ty_VSearchReq" "wf_ty ty_VDelReq" "wf_ty ty_VSearchRes" "wf_ty ty_LogEntry"
  "wf_ty ty_RequestVote" "wf_ty ty_RequestVoteReply" "wf_ty ty_AppendEntries" "wf_ty ty_AppendEntriesReply"
  by (simp_all add: wf_ty_struct ty_OkRes_def ty_SetReq_def ty_GetReq_def ty_GetRes_def ty_ExpireReq_def ty_TtlRes_def
      ty_ListReq_def ty_MapReq_def ty_MapRange_def ty_ListRes_def ty_PubReq_def ty_SubReq_def ty_VecReq_def ty_VSetReq_def
      ty_VSearchReq_def ty_VDelReq_def ty_VSearchRes_def ty_LogEntry_def ty_RequestVote_def ty_RequestVoteReply_def
      ty_AppendEntries_def ty_AppendEntriesReply_def)

text \<open>The readers of the requests a command carries return, so the reader of commands does.\<close>

lemma readers_return [simp]:
  "de_string s \<noteq> Hang" "de_u64 s \<noteq> Hang" "de_usize s \<noteq> Hang" "de_i64 s \<noteq> Hang" "de_f32 ft s \<noteq> Hang"
  by (simp_all add: de_string_def de_u64_def de_usize_def de_i64_def de_f32_def Let_def)

lemma de_opt_field_hang: "(\<And>t. de t \<noteq> Hang) \<Longrightarrow> de_opt_field de m k \<noteq> Hang"
  by (simp add: de_opt_field_def de_option_hang split: option.split)

lemmas hang_simps = and_then_outcome de_field_outcome de_opt_field_hang de_vec_outcome Let_def

lemma requests_return [simp]:
  "de_SetReq s \<noteq> Hang" "de_GetReq s \<noteq> Hang" "de_ExpireReq s \<noteq> Hang" "de_ListReq s \<noteq> Hang" "de_MapReq s \<noteq> Hang"
  "de_PubReq s \<noteq> Hang" "de_VecReq ft s \<noteq> Hang" "de_VSetReq ft s \<noteq> Hang" "de_VDelReq s \<noteq> Hang"
  by (simp_all add: hang_simps de_SetReq_def de_GetReq_def de_ExpireReq_def de_ListReq_def de_MapReq_def de_PubReq_def
      de_VecReq_def de_VSetReq_def de_VDelReq_def)

lemma de_Command_returns [simp]: "de_Command ft s \<noteq> Hang"
proof -
  have "wrap c r = Hang \<longleftrightarrow> r = Hang" for c :: "'x \<Rightarrow> Command" and r
    by (simp add: wrap_def and_then_outcome)
  then show ?thesis
    by (simp add: de_Command_def de_variant_def Let_def wrap_def and_then_outcome split: option.split)
qed

text \<open>What the program fixes of the parameters satisfies the contract of derived code.\<close>

lemma efis_env_codec:
  assumes "f32_codec ft" "\<And>x. \<not> f64_is_nan x \<Longrightarrow> pf (sf x) = Inr x" "\<And>x. list_all f32_char (sf x) \<and> sf x \<noteq> []"
  shows "wire_codec (efis_env ft sf pf) (wf_Command ft)"
  using assms f32_codec.rt_Command f32_codec.value_ok_ser_Command ser_Command_not_None
  by (intro wire_codec.intro) auto

definition bits_env :: "Command wire_env" where
  "bits_env = efis_env bits_text (\<lambda>x. show_nat (unat x)) (\<lambda>s. map_sum id of_nat (parse_usize s))"

interpretation bits_wire: wire_codec bits_env "wf_Command bits_text"
  unfolding bits_env_def
proof (rule efis_env_codec [OF bits.f32_codec_axioms])
  fix x :: "64 word"
  have "unat x < 2 ^ LENGTH(64)" by (rule unsigned_less)
  then have "unat x \<le> usize_max" by (simp add: usize_max_def)
  then show "map_sum id of_nat (parse_usize (show_nat (unat x))) = Inr x" by (simp add: parse_usize_show_nat)
qed (simp add: show_nat_f32_chars)

section \<open>Properties\<close>


text \<open>
  C19. Reading is type safe. On any text, the reader the macro generates for a type returns a value
  of exactly that type, with integers in the range of their machine type and every declared field
  present, or an error; it never hangs, and it can panic only if the type contains a string, an
  option or a hand-written reader.
\<close>

theorem derived_reader_typed:
  assumes "wf_ty t" "\<forall>s. de_custom e s \<noteq> Hang"
  shows "case de_val e t s of
      Done (Inr v) \<Rightarrow> has_type t v
    | Done (Inl msg) \<Rightarrow> True
    | Panic \<Rightarrow> \<not> panic_free t
    | Hang \<Rightarrow> False"
  using de_val_type [OF assms(1), of e s] de_val_panic_free [of t e s] de_val_returns [of e t s] assms(2)
  by (auto split: run.split sum.split)

theorem derived_reader_typed_witness:
  "case de_val bits_env ty_RequestVote ''{term=7 candidate_id=n1 last_log_index=18446744073709551616 last_log_term=0}'' of
     Done (Inr v) \<Rightarrow> has_type ty_RequestVote v | Done (Inl msg) \<Rightarrow> True | Panic \<Rightarrow> \<not> panic_free ty_RequestVote | Hang \<Rightarrow> False"
  by (rule derived_reader_typed) (simp_all add: bits_env_def)

text \<open>
  C18. Derived code round-trips: for every type whose optional fields are written as \<^verbatim>\<open>Option\<close>, a value
  that is safe on the wire (numbers in range and not NaN, strings the scanner takes in one piece,
  distinct plain field names, nothing that prints as \<^verbatim>\<open>None\<close> but an absent optional field) is read
  back exactly as it was printed, through any nesting of structures, vectors and options.
\<close>

theorem derived_roundtrip:
  assumes "wire_codec e ok" "wf_ty t" "wire e ok t v"
  shows "de_val e t (ser_val e v) = Done (Inr v)"
  using wire_codec.wire_roundtrip [OF assms] .

theorem derived_roundtrip_witness:
  "de_val bits_env ty_ListRes (ser_val bits_env (val_ListRes \<lparr>res_vals = [''a'', ''b c'']\<rparr>))
     = Done (Inr (val_ListRes \<lparr>res_vals = [''a'', ''b c'']\<rparr>))"
proof (rule derived_roundtrip [OF bits_wire.wire_codec_axioms])
  show "wire bits_env (wf_Command bits_text) ty_ListRes (val_ListRes \<lparr>res_vals = [''a'', ''b c'']\<rparr>)"
    by (simp add: ty_ListRes_def val_ListRes_def wire_struct wire_str_def ser_string_def elem_ok_def value_ok_def closed_text_def
        vstep_def estep_def trimmed_def is_whitespace_def key_ok_def key_char_def)
qed simp

end
