(* ===== verification/Rpc_Macros.thy ===== *)
theory Rpc_Macros
  imports Startup
begin

text \<open>
  The attribute macros \<^verbatim>\<open>rpc_func\<close>, \<^verbatim>\<open>rpc_stream\<close> and \<^verbatim>\<open>rpc_impl\<close> of \<^verbatim>\<open>macros/src/lib.rs\<close>, on the items they are applied
  to: which signatures they accept, and which methods of an \<^verbatim>\<open>impl\<close> block \<^verbatim>\<open>register_fns\<close> puts into the
  dispatcher, under which name and behind which check.

  The dispatchers of \<open>Service\<close> and \<open>Startup\<close> are shown to be the expansions for the \<^verbatim>\<open>impl\<close> blocks of
  \<^verbatim>\<open>Efis\<close> and \<^verbatim>\<open>ConsensusHandle\<close>.
\<close>

section \<open>Items\<close>

datatype fn_arg = Receiver | Typed string

record item_fn =
  fn_name :: string
  fn_attrs :: "string list"
  fn_inputs :: "fn_arg list"
  fn_output :: "string option"

text \<open>The signature of a marked function: whether it is a method, its request type and its result type.\<close>

definition rpc_signature :: "string \<Rightarrow> string \<Rightarrow> item_fn \<Rightarrow> (bool \<times> string \<times> string) res" where
  "rpc_signature typed_msg output_msg f =
     (let is_method = (case fn_inputs f of Receiver # _ \<Rightarrow> True | _ \<Rightarrow> False);
          req_arg = (if is_method
            then (case fn_inputs f of _ # a # _ \<Rightarrow> Inr a | _ \<Rightarrow> Inl ''Expected method to have a second argument'')
            else (case fn_inputs f of a # _ \<Rightarrow> Inr a | [] \<Rightarrow> Inl ''Expected function to have one argument''))
      in case req_arg of
           Inl e \<Rightarrow> Inl e
         | Inr Receiver \<Rightarrow> Inl typed_msg
         | Inr (Typed t) \<Rightarrow> (case fn_output f of None \<Rightarrow> Inl output_msg | Some r \<Rightarrow> Inr (is_method, t, r)))"

definition rpc_func_signature :: "item_fn \<Rightarrow> (bool \<times> string \<times> string) res" where
  "rpc_func_signature = rpc_signature ''Expected typed argument'' ''Expected a return type of `Result<Res, RpcError>`''"

definition rpc_stream_signature :: "item_fn \<Rightarrow> (bool \<times> string \<times> string) res" where
  "rpc_stream_signature = rpc_signature ''Expected typed argument for req''
     ''Expected a return type of `Result<mpsc::Receiver<Res>, RpcError>`''"

section \<open>Registration\<close>

definition has_rpc_func_attr :: "string list \<Rightarrow> bool" where
  "has_rpc_func_attr attrs = list_ex (\<lambda>a. a = ''rpc_func'') attrs"

definition has_rpc_stream_attr :: "string list \<Rightarrow> bool" where
  "has_rpc_stream_attr attrs = list_ex (\<lambda>a. a = ''rpc_stream'') attrs"

definition has_requires_leader_attr :: "string list \<Rightarrow> bool" where
  "has_requires_leader_attr attrs = list_ex (\<lambda>a. a = ''requires_leader'') attrs"

datatype registration = RegisterFn string bool | RegisterStreamFn string bool

fun rpc_methods :: "item_fn list \<Rightarrow> registration list" where
  "rpc_methods [] = []"
| "rpc_methods (f # fs) =
     (if has_rpc_func_attr (fn_attrs f) then RegisterFn (fn_name f) (has_requires_leader_attr (fn_attrs f)) # rpc_methods fs
      else if has_rpc_stream_attr (fn_attrs f)
        then RegisterStreamFn (fn_name f) (has_requires_leader_attr (fn_attrs f)) # rpc_methods fs
      else rpc_methods fs)"

text \<open>\<^verbatim>\<open>register_fns\<close>, with the wrapped methods and streams of the structure by name.\<close>

record ('st, 'rx) rpc_struct =
  st_fns :: "string \<Rightarrow> 'st handler"
  st_streams :: "string \<Rightarrow> ('st, 'rx) stream_handler"

fun register_one ::
  "bool \<Rightarrow> string option \<Rightarrow> ('st, 'rx) rpc_struct \<Rightarrow> registration \<Rightarrow> ('st, 'rx) Dispatcher \<Rightarrow> ('st, 'rx) Dispatcher" where
  "register_one led leader st (RegisterFn m chk) d =
     register_fn m (if chk then requires_leader led leader (st_fns st m) else st_fns st m) d"
| "register_one led leader st (RegisterStreamFn m chk) d =
     register_stream_fn m (if chk then requires_leader led leader (st_streams st m) else st_streams st m) d"

definition register_fns ::
  "bool \<Rightarrow> string option \<Rightarrow> ('st, 'rx) rpc_struct \<Rightarrow> item_fn list \<Rightarrow> ('st, 'rx) Dispatcher \<Rightarrow> ('st, 'rx) Dispatcher" where
  "register_fns led leader st items d = fold (register_one led leader st) (rpc_methods items) d"

section \<open>The blocks of the program\<close>

text \<open>The functions of the two blocks in their order, lifetimes left out.\<close>

definition item :: "string \<Rightarrow> string list \<Rightarrow> fn_arg list \<Rightarrow> string option \<Rightarrow> item_fn" where
  "item n attrs ins out = \<lparr>fn_name = n, fn_attrs = attrs, fn_inputs = ins, fn_output = out\<rparr>"

definition efis_items :: "item_fn list" where
  "efis_items =
     [item ''new'' [] [Typed ''DatastoreGuard'', Typed ''PubSubGuard'', Typed ''Option<&ConsensusHandle>''] (Some ''Self''),
      item ''singleton'' [] [Typed ''DatastoreGuard'', Typed ''PubSubGuard'', Typed ''Option<&ConsensusHandle>''] (Some ''&Self''),
      item ''process_cmd'' [] [Receiver] None,
      item ''handle_consensus'' [] [Receiver, Typed ''Command''] (Some ''LateRes''),
      item ''set'' [''rpc_func'', ''requires_leader''] [Receiver, Typed ''types::SetReq''] (Some ''Result<types::OkRes, RpcError>''),
      item ''_set'' [] [Receiver, Typed ''types::SetReq''] (Some ''Result<types::OkRes, RpcError>''),
      item ''get'' [''rpc_func''] [Receiver, Typed ''types::GetReq''] (Some ''Result<types::GetRes<String>, RpcError>''),
      item ''delete'' [''rpc_func'', ''requires_leader''] [Receiver, Typed ''types::GetReq''] (Some ''Result<types::OkRes, RpcError>''),
      item ''_delete'' [] [Receiver, Typed ''types::GetReq''] (Some ''Result<types::OkRes, RpcError>''),
      item ''increment'' [''rpc_func'', ''requires_leader''] [Receiver, Typed ''types::GetReq''] (Some ''Result<types::GetRes<String>, RpcError>''),
      item ''_increment'' [] [Receiver, Typed ''types::GetReq''] (Some ''Result<types::GetRes<String>, RpcError>''),
      item ''decrement'' [''rpc_func'', ''requires_leader''] [Receiver, Typed ''types::GetReq''] (Some ''Result<types::GetRes<String>, RpcError>''),
      item ''_decrement'' [] [Receiver, Typed ''types::GetReq''] (Some ''Result<types::GetRes<String>, RpcError>''),
      item ''expire'' [''rpc_func'', ''requires_leader''] [Receiver, Typed ''types::ExpireReq''] (Some ''Result<OkRes, RpcError>''),
      item ''_expire'' [] [Receiver, Typed ''types::ExpireReq''] (Some ''Result<OkRes, RpcError>''),
      item ''ttl'' [''rpc_func''] [Receiver, Typed ''types::GetReq''] (Some ''Result<types::TtlRes, RpcError>''),
      item ''lpush'' [''rpc_func'', ''requires_leader''] [Receiver, Typed ''types::ListReq''] (Some ''Result<OkRes, RpcError>''),
      item ''_lpush'' [] [Receiver, Typed ''types::ListReq''] (Some ''Result<OkRes, RpcError>''),
      item ''rpush'' [''rpc_func'', ''requires_leader''] [Receiver, Typed ''types::ListReq''] (Some ''Result<types::OkRes, RpcError>''),
      item ''_rpush'' [] [Receiver, Typed ''types::ListReq''] (Some ''Result<types::OkRes, RpcError>''),
      item ''lpop'' [''rpc_func'', ''requires_leader''] [Receiver, Typed ''types::GetReq''] (Some ''Result<types::GetRes<String>, RpcError>''),
      item ''_lpop'' [] [Receiver, Typed ''types::GetReq''] (Some ''Result<types::GetRes<String>, RpcError>''),
      item ''rpop'' [''rpc_func'', ''requires_leader''] [Receiver, Typed ''types::GetReq''] (Some ''Result<types::GetRes<String>, RpcError>''),
      item ''_rpop'' [] [Receiver, Typed ''types::GetReq''] (Some ''Result<types::GetRes<String>, RpcError>''),
      item ''sadd'' [''rpc_func'', ''requires_leader''] [Receiver, Typed ''types::ListReq''] (Some ''Result<OkRes, RpcError>''),
      item ''_sadd'' [] [Receiver, Typed ''types::ListReq''] (Some ''Result<OkRes, RpcError>''),
      item ''smembers'' [''rpc_func''] [Receiver, Typed ''types::GetReq''] (Some ''Result<types::GetRes<String>, RpcError>''),
      item ''zadd'' [''rpc_func'', ''requires_leader''] [Receiver, Typed ''types::MapReq''] (Some ''Result<types::OkRes, RpcError>''),
      item ''_zadd'' [] [Receiver, Typed ''types::MapReq''] (Some ''Result<types::OkRes, RpcError>''),
      item ''zrange'' [''rpc_func''] [Receiver, Typed ''types::MapRange''] (Some ''Result<types::ListRes, RpcError>''),
      item ''publish'' [''rpc_func'', ''requires_leader''] [Receiver, Typed ''types::PubReq''] (Some ''Result<OkRes, RpcError>''),
      item ''_publish'' [] [Receiver, Typed ''types::PubReq''] (Some ''Result<OkRes, RpcError>''),
      item ''subscribe'' [''rpc_stream''] [Receiver, Typed ''types::SubReq''] (Some ''Result<mpsc::Receiver<String>, RpcError>''),
      item ''vset'' [''rpc_func'', ''requires_leader''] [Receiver, Typed ''types::VSetReq''] (Some ''Result<OkRes, RpcError>''),
      item ''_vset'' [] [Receiver, Typed ''types::VSetReq''] (Some ''Result<types::OkRes, RpcError>''),
      item ''vdel'' [''rpc_func'', ''requires_leader''] [Receiver, Typed ''types::VDelReq''] (Some ''Result<types::OkRes, RpcError>''),
      item ''_vdel'' [] [Receiver, Typed ''types::VDelReq''] (Some ''Result<types::OkRes, RpcError>''),
      item ''vsearch'' [''rpc_func''] [Receiver, Typed ''types::VSearchReq''] (Some ''Result<VSearchRes, RpcError>'')]"

definition consensus_items :: "item_fn list" where
  "consensus_items =
     [item ''submit'' [] [Receiver, Typed ''Command''] (Some ''Option<usize>''),
      item ''subscribe'' [] [Receiver] (Some ''broadcast::Receiver<CommitEntry>''),
      item ''request_vote'' [''rpc_func''] [Receiver, Typed ''RequestVote''] (Some ''Result<RequestVoteReply, RpcError>''),
      item ''append_entries'' [''rpc_func''] [Receiver, Typed ''AppendEntries''] (Some ''Result<AppendEntriesReply, RpcError>'')]"

section \<open>The wrapped methods\<close>

definition efis_wrappers ::
  "env \<Rightarrow> ('c, 'r) broadcast_ops \<Rightarrow> (Command \<Rightarrow> submission) \<Rightarrow> (string \<times> 'c Efis handler) list" where
  "efis_wrappers e bc su =
     (let ft = f32_text_of e in
      [(''set'', rpc_func de_SetReq ser_OkRes (set_rpc e su)),
       (''get'', rpc_func de_GetReq ser_GetRes (get e)),
       (''delete'', rpc_func de_GetReq ser_OkRes (delete_rpc su)),
       (''increment'', rpc_func de_GetReq ser_GetRes (increment_rpc e su)),
       (''decrement'', rpc_func de_GetReq ser_GetRes (decrement_rpc e su)),
       (''expire'', rpc_func de_ExpireReq ser_OkRes (expire_rpc e su)),
       (''ttl'', rpc_func de_GetReq ser_TtlRes (ttl e)),
       (''lpush'', rpc_func de_ListReq ser_OkRes (lpush_rpc e su)),
       (''rpush'', rpc_func de_ListReq ser_OkRes (rpush_rpc e su)),
       (''lpop'', rpc_func de_GetReq ser_GetRes (lpop_rpc su)),
       (''rpop'', rpc_func de_GetReq ser_GetRes (rpop_rpc su)),
       (''sadd'', rpc_func de_ListReq ser_OkRes (sadd_rpc e su)),
       (''smembers'', rpc_func de_GetReq ser_GetRes (smembers e)),
       (''zadd'', rpc_func de_MapReq ser_OkRes (zadd_rpc e su)),
       (''zrange'', rpc_func de_MapRange ser_ListRes (zrange e)),
       (''publish'', rpc_func de_PubReq ser_OkRes (publish_rpc bc su)),
       (''vset'', rpc_func (de_VSetReq ft) ser_OkRes (vset_rpc e su)),
       (''vdel'', rpc_func de_VDelReq ser_OkRes (vdel_rpc su)),
       (''vsearch'', rpc_func (de_VSearchReq ft) ser_VSearchRes (vsearch e))])"

definition by_name :: "(string \<times> 'h) list \<Rightarrow> 'h \<Rightarrow> string \<Rightarrow> 'h" where
  "by_name hs d m = (case map_of hs m of None \<Rightarrow> d | Some h \<Rightarrow> h)"

definition efis_struct :: "env \<Rightarrow> ('c, 'r) broadcast_ops \<Rightarrow> (Command \<Rightarrow> submission) \<Rightarrow> ('c Efis, 'r) rpc_struct" where
  "efis_struct e bc su = \<lparr>st_fns = by_name (efis_wrappers e bc su) (\<lambda>_ _. Panic),
     st_streams = by_name [(''subscribe'', \<lambda>req st. run_bind (de_SubReq req) (\<lambda>r. case r of
          Inl err \<Rightarrow> Done (Inl (Deserialize err), st) | Inr q \<Rightarrow> subscribe bc q st))] (\<lambda>_ _. Panic)\<rparr>"

definition consensus_struct ::
  "f32_text \<Rightarrow> RequestVoteReply rpc_wait \<Rightarrow> AppendEntriesReply rpc_wait \<Rightarrow> nat \<Rightarrow> ('s Consensus, unit) rpc_struct" where
  "consensus_struct ft vw aw tx = \<lparr>st_fns = by_name
     [(''request_vote'', rpc_func de_RequestVote ser_RequestVoteReply (request_vote_rpc vw tx)),
      (''append_entries'', rpc_func (de_AppendEntries ft) ser_AppendEntriesReply (append_entries_rpc aw tx))] (\<lambda>_ _. Panic),
     st_streams = (\<lambda>_ _ _. Panic)\<rparr>"

section \<open>Lemmas\<close>

definition marked :: "item_fn \<Rightarrow> bool" where
  "marked f \<longleftrightarrow> has_rpc_func_attr (fn_attrs f)"

text \<open>The methods a block registers are its marked functions, each behind the check it is marked with.\<close>

lemma register_fn_other: "streams (register_fn m f d) = streams d" "middlewares (register_fn m f d) = middlewares d"
  by (simp_all add: register_fn_def)

lemma register_fns_rpcs:
  assumes "distinct (map fn_name items)"
  shows "rpcs (register_fns led leader st items d) m =
    (case List.find (\<lambda>f. fn_name f = m \<and> marked f) items of
       None \<Rightarrow> rpcs d m
     | Some f \<Rightarrow> Some (if has_requires_leader_attr (fn_attrs f) then requires_leader led leader (st_fns st m) else st_fns st m))"
  using assms
proof (induction items arbitrary: d)
  case (Cons f fs)
  have none: "List.find (\<lambda>g. fn_name g = m \<and> marked g) fs = None" if "m = fn_name f"
    using Cons.prems that by (auto simp: find_None_iff) (metis image_eqI)
  let ?d = "if has_rpc_func_attr (fn_attrs f) then register_one led leader st (RegisterFn (fn_name f) (has_requires_leader_attr (fn_attrs f))) d
    else if has_rpc_stream_attr (fn_attrs f) then register_one led leader st (RegisterStreamFn (fn_name f) (has_requires_leader_attr (fn_attrs f))) d
    else d"
  have "register_fns led leader st (f # fs) d = register_fns led leader st fs ?d" by (simp add: register_fns_def)
  moreover have "rpcs ?d m = (if fn_name f = m \<and> marked f
      then Some (if has_requires_leader_attr (fn_attrs f) then requires_leader led leader (st_fns st m) else st_fns st m) else rpcs d m)"
    by (simp add: marked_def register_fn_def register_stream_fn_def)
  ultimately show ?case using Cons none by (auto split: option.split)
qed (simp add: register_fns_def)

lemmas expand_block = register_fns_def item_def has_rpc_func_attr_def has_rpc_stream_attr_def has_requires_leader_attr_def

lemma efis_methods:
  "rpc_methods efis_items =
     [RegisterFn ''set'' True, RegisterFn ''get'' False, RegisterFn ''delete'' True, RegisterFn ''increment'' True,
      RegisterFn ''decrement'' True, RegisterFn ''expire'' True, RegisterFn ''ttl'' False, RegisterFn ''lpush'' True,
      RegisterFn ''rpush'' True, RegisterFn ''lpop'' True, RegisterFn ''rpop'' True, RegisterFn ''sadd'' True,
      RegisterFn ''smembers'' False, RegisterFn ''zadd'' True, RegisterFn ''zrange'' False, RegisterFn ''publish'' True,
      RegisterStreamFn ''subscribe'' False, RegisterFn ''vset'' True, RegisterFn ''vdel'' True, RegisterFn ''vsearch'' False]"
  by (simp add: efis_items_def expand_block)

lemma register_stream_last: "register_fn m f (register_stream_fn n g d) = register_stream_fn n g (register_fn m f d)"
  by (simp add: register_fn_def register_stream_fn_def)

lemma efis_expansion:
  "efis_dispatcher e bc leader node su =
     register_struct (register_fns (is_leader leader node) leader (efis_struct e bc su) efis_items) dispatcher_new"
  by (simp add: register_struct_def register_fns_def efis_methods efis_struct_def by_name_def efis_wrappers_def
      efis_dispatcher_def method_table_def Let_def register_stream_last)

lemma consensus_expansion:
  "consensus_dispatcher ft vw aw tx =
     register_struct (register_fns led leader (consensus_struct ft vw aw tx) consensus_items) dispatcher_new"
  by (simp add: register_struct_def expand_block consensus_items_def consensus_struct_def by_name_def consensus_dispatcher_def)

section \<open>Properties\<close>


end
