(* ===== verification/Replication_Round.thy ===== *)
theory Replication_Round
  imports Log_Agreement
begin

text \<open>
  How a leader brings a lagging peer up to date (\<^verbatim>\<open>send_leader_aes\<close>, \<^verbatim>\<open>_append_entries\<close> and \<^verbatim>\<open>handle_ae_res\<close> of
  \<^verbatim>\<open>efis/src/consensus.rs\<close>): rounds in which the leader sends to its peers, one peer handles its request and
  the leader handles the reply. A rejected round moves the peer's next index strictly back, by the
  conflict the peer reports, so after at most as many rounds as the leader's log is long the
  request is accepted and the peer holds the leader's log.
\<close>

section \<open>A round\<close>

text \<open>The request among the spawned calls that goes to a peer.\<close>

fun call_to :: "nat \<Rightarrow> call list \<Rightarrow> (nat \<times> AppendEntries) option" where
  "call_to p [] = None"
| "call_to p (CallAppend q ni req # cs) = (if q = p then Some (ni, req) else call_to p cs)"
| "call_to p (CallVote q req # cs) = call_to p cs"

text \<open>The clocks of leader and peer are arguments; an error of the peer produces no reply.\<close>

definition replication_round ::
  "'s storage_ops \<Rightarrow> nat \<Rightarrow> world \<times> world \<Rightarrow> 's Consensus \<times> 's Consensus \<Rightarrow> ('s Consensus \<times> 's Consensus) run" where
  "replication_round so p w lf =
     (let l = send_leader_aes ((fst lf)\<lparr>calls := []\<rparr>) in
      case call_to p (calls l) of
        None \<Rightarrow> Done (l, snd lf)
      | Some (ni, req) \<Rightarrow>
          run_bind (append_entries so (snd w) req (snd lf)) (\<lambda>(r, f). case r of
             Inl _ \<Rightarrow> Done (l, f)
           | Inr reply \<Rightarrow> run_map (\<lambda>l. (l, f)) (handle_ae_res so (fst w) p ni reply l)))"

fun catch_up ::
  "'s storage_ops \<Rightarrow> nat \<Rightarrow> (world \<times> world) list \<Rightarrow> 's Consensus \<times> 's Consensus \<Rightarrow> ('s Consensus \<times> 's Consensus) run" where
  "catch_up so p [] lf = Done lf"
| "catch_up so p (w # ws) lf = run_bind (replication_round so p w lf) (catch_up so p ws)"

section \<open>The parts of a round\<close>

text \<open>Where a leader will start for a peer.\<close>

definition start_at :: "nat \<Rightarrow> 's Consensus \<Rightarrow> nat" where
  "start_at p l = min (case next_index l p of None \<Rightarrow> length (logs l) | Some n \<Rightarrow> n) (length (logs l))"

lemma start_at_le [simp]: "start_at p l \<le> length (logs l)"
  by (simp add: start_at_def)

lemma start_at_cong: "next_index c' p = next_index c p \<Longrightarrow> logs c' = logs c \<Longrightarrow> start_at p c' = start_at p c"
  by (simp add: start_at_def split: option.split)

text \<open>What a broadcast leaves alone, and the request it makes for one peer.\<close>

definition same_role :: "'s Consensus \<Rightarrow> 's Consensus \<Rightarrow> bool" where
  "same_role c c' \<longleftrightarrow> state c' = state c \<and> current_term c' = current_term c \<and> logs c' = logs c \<and> inbox c' = inbox c
     \<and> peers c' = peers c \<and> commit_index c' = commit_index c \<and> rx_closed c' = rx_closed c
     \<and> commit_chan c' = commit_chan c \<and> last_applied c' = last_applied c \<and> log_index c' = log_index c"

lemma same_role_refl [simp]: "same_role c c"
  by (simp add: same_role_def)

lemma same_role_trans: "same_role a b \<Longrightarrow> same_role b c \<Longrightarrow> same_role a c"
  by (simp add: same_role_def)

lemma send_ae_to_role: "same_role c (send_ae_to q c)"
  by (simp add: same_role_def send_ae_to_def Let_def)

lemma send_ae_to_index: "next_index (send_ae_to q c) p = (if p = q then Some (start_at q c) else next_index c p)"
  by (simp add: send_ae_to_def start_at_def Let_def)

lemma call_to_append: "call_to p (xs @ ys) = (case call_to p xs of None \<Rightarrow> call_to p ys | Some r \<Rightarrow> Some r)"
  by (induction p xs rule: call_to.induct) auto

text \<open>A request that starts at an index of a log.\<close>

definition req_at :: "LogEntry list \<Rightarrow> nat \<Rightarrow> nat \<Rightarrow> AppendEntries \<Rightarrow> bool" where
  "req_at ls t ni req \<longleftrightarrow> ae_term req = t \<and> insert_at req = ni \<and> ae_entries req = drop ni ls
     \<and> ae_prev_log_index req = (if ni = 0 then None else Some (ni - 1))
     \<and> (0 < ni \<longrightarrow> ae_prev_log_term req = Some (le_term (ls ! (ni - 1))))"

lemma send_ae_to_req:
  "\<exists>req. calls (send_ae_to p c) = calls c @ [CallAppend p (start_at p c) req] \<and> req_at (logs c) (current_term c) (start_at p c) req"
  unfolding send_ae_to_def Let_def start_at_def [symmetric] by (simp add: req_at_def insert_at_def)

lemma fold_send_ae:
  assumes "distinct ps" "p \<in> set ps" "call_to p (calls c) = None"
  shows "\<exists>req. call_to p (calls (fold send_ae_to ps c)) = Some (start_at p c, req)
    \<and> req_at (logs c) (current_term c) (start_at p c) req"
  using assms
proof (induction ps arbitrary: c)
  case (Cons q ps)
  obtain req where c: "calls (send_ae_to q c) = calls c @ [CallAppend q (start_at q c) req]"
      "req_at (logs c) (current_term c) (start_at q c) req"
    using send_ae_to_req [of q c] by blast
  have keep: "call_to p (calls (fold send_ae_to ps d)) = call_to p (calls d)" if "call_to p (calls d) \<noteq> None" for d :: "'a Consensus" and ps
    using that
  proof (induction ps arbitrary: d)
    case (Cons r ps)
    obtain req where "calls (send_ae_to r d) = calls d @ [CallAppend r (start_at r d) req]" using send_ae_to_req [of r d] by blast
    then have "call_to p (calls (send_ae_to r d)) = call_to p (calls d)" using Cons.prems by (auto simp: call_to_append)
    then show ?case using Cons.IH [of "send_ae_to r d"] Cons.prems by simp
  qed simp
  show ?case
  proof (cases "p = q")
    case True
    then have "call_to p (calls (send_ae_to q c)) = Some (start_at p c, req)" using c(1) Cons.prems(3) by (simp add: call_to_append)
    then show ?thesis using keep [of "send_ae_to q c" ps] c(2) True by simp
  next
    case False
    have s: "start_at p (send_ae_to q c) = start_at p c" "logs (send_ae_to q c) = logs c" "current_term (send_ae_to q c) = current_term c"
      using send_ae_to_role [of c q] False by (auto intro!: start_at_cong simp: send_ae_to_index same_role_def)
    have "call_to p (calls (send_ae_to q c)) = None" using c(1) Cons.prems(3) False by (simp add: call_to_append)
    then show ?thesis using Cons.IH [of "send_ae_to q c"] Cons.prems False s by simp
  qed
qed simp

lemma fold_send_role: "same_role c (fold send_ae_to ps c)"
  by (induction ps arbitrary: c) (auto intro: same_role_trans send_ae_to_role)

lemma broadcast:
  assumes "state l = Leader" "distinct (peers l)" "p \<in> set (peers l)"
  obtains l1 req where "send_leader_aes (l\<lparr>calls := []\<rparr>) = l1" "same_role l l1"
    "call_to p (calls l1) = Some (start_at p l, req)" "req_at (logs l) (current_term l) (start_at p l) req"
proof -
  let ?l = "l\<lparr>calls := []\<rparr>"
  have "start_at p ?l = start_at p l" by (rule start_at_cong) simp_all
  then obtain req where "call_to p (calls (fold send_ae_to (peers l) ?l)) = Some (start_at p l, req)"
      "req_at (logs l) (current_term l) (start_at p l) req"
    using fold_send_ae [OF assms(2,3), of ?l] by auto
  moreover have "same_role l (fold send_ae_to (peers l) ?l)"
    using fold_send_role [of ?l "peers l"] by (simp add: same_role_def)
  moreover have "send_leader_aes ?l = fold send_ae_to (peers l) ?l" using assms(1) by (simp add: send_leader_aes_def)
  ultimately show ?thesis using that by blast
qed

lemma ae_commit_done:
  assumes "length (inbox c) < INBOX_CAP"
  obtains c' where "ae_commit req c = Done c'" "logs c' = logs c" "current_term c' = current_term c" "state c' = state c"
proof -
  have "\<exists>c'. ae_commit req c = Done c'"
    using assms by (simp add: ae_commit_def send_self_def Let_def split: option.split)
  then obtain c' where c': "ae_commit req c = Done c'" by blast
  then show ?thesis using that ae_commit_keeps [OF c'] ae_commit_aside [OF c'] by (simp add: aside_def)
qed

text \<open>The peer's part: it follows the leader's term and either merges the entries or reports a conflict.\<close>

lemma peer_part:
  assumes "req_at ls t ni req" "state f \<noteq> Dead" "current_term f \<le> t" "length (inbox f) < INBOX_CAP"
  shows "\<exists>reply f'. append_entries so w req f = Done (Inr reply, f') \<and> aer_term reply = t \<and> current_term f' = t \<and> state f' \<noteq> Dead
    \<and> (if prev_ok req (logs f) then aer_success reply \<and> logs f' = splice_entries ni (drop ni ls) (logs f)
       else reply = conflict_reply t req (logs f) \<and> logs f' = logs f \<and> inbox f' = inbox f)"
proof -
  let ?c = "ae_follow so w req f"
  have c: "current_term ?c = t" "state ?c \<noteq> Dead" "logs ?c = logs f" "inbox ?c = inbox f" and t: "ae_term req = t"
    using assms(1,2,3) by (auto simp: ae_follow_def Let_def req_at_def)
  show ?thesis
  proof (cases "prev_ok req (logs f)")
    case True
    let ?c1 = "?c\<lparr>election_reset_event := Some (now w), logs := splice_entries (insert_at req) (ae_entries req) (logs f)\<rparr>"
    obtain c2 where c2: "ae_commit req ?c1 = Done c2" "logs c2 = logs ?c1" "current_term c2 = current_term ?c1" "state c2 = state ?c1"
      by (rule ae_commit_done [of ?c1 req]) (use c(4) assms(4) in auto)
    then show ?thesis
      using True assms(1,2) c t by (simp add: append_entries_def Let_def req_at_def)
  next
    case False
    then have "\<not> aer_success (conflict_reply t req (logs f))" "aer_term (conflict_reply t req (logs f)) = t"
      by (simp_all add: conflict_reply_def split: option.split)
    then show ?thesis using False assms(2) c t by (simp add: append_entries_def Let_def)
  qed
qed

text \<open>The leader's part after a rejection: the next index it takes from the conflict is lower.\<close>

definition next_after :: "LogEntry list \<Rightarrow> AppendEntriesReply \<Rightarrow> nat" where
  "next_after ls reply = (let conflict = (case aer_conflict_index reply of None \<Rightarrow> 0 | Some i \<Rightarrow> i) in
     case aer_conflict_term reply of None \<Rightarrow> conflict
     | Some ct \<Rightarrow> (case last_of_term ls ct of Some l \<Rightarrow> l + 1 | None \<Rightarrow> conflict))"

lemma first_idx_le: "first_idx ls t i \<le> i"
  by (induction ls t i rule: first_idx.induct) auto

lemma last_of_term_Some: "last_of_term ls t = Some k \<Longrightarrow> k < length ls \<and> le_term (ls ! k) = t"
  by (auto simp: last_of_term_def find_Some_iff rev_nth)

lemma conflict_moves_back:
  assumes "req_at ls t ni req" "ni \<le> length ls" "\<not> prev_ok req fs" "term_block fs ls"
  shows "next_after ls (conflict_reply u req fs) < ni"
proof -
  have ni: "0 < ni" using assms(1,3) by (cases ni) (auto simp: req_at_def prev_ok_def)
  then have prev: "ae_prev_log_index req = Some (ni - 1)" "ae_prev_log_term req = Some (le_term (ls ! (ni - 1)))"
    using assms(1) by (auto simp: req_at_def)
  show ?thesis
  proof (cases "ni - 1 < length fs")
    case True
    let ?ct = "le_term (fs ! (ni - 1))"
    have ct: "?ct \<noteq> le_term (ls ! (ni - 1))" using assms(3) True prev by (simp add: prev_ok_def)
    have "k < ni - 1" if "last_of_term ls ?ct = Some k" for k
    proof (rule ccontr)
      assume "\<not> k < ni - 1"
      then have "le_term (ls ! (ni - 1)) = le_term (ls ! k)"
        using assms(4) True last_of_term_Some [OF that] by (auto simp: term_block_def)
      then show False using ct last_of_term_Some [OF that] by simp
    qed
    then show ?thesis
      using prev True ni first_idx_le [of fs ?ct "ni - 1"]
      by (auto simp: next_after_def conflict_reply_def Let_def split: option.split)
  next
    case False
    then show ?thesis using prev ni by (simp add: next_after_def conflict_reply_def)
  qed
qed

lemma leader_rejected:
  assumes "state l = Leader" "current_term l = t" "ni \<le> length (logs l)" "aer_term reply = t" "\<not> aer_success reply"
  shows "handle_ae_res so w p ni reply l = Done (l\<lparr>next_index := (next_index l)(p \<mapsto> next_after (logs l) reply)\<rparr>)"
  using assms by (simp add: handle_ae_res_def slice_from_def next_after_def Let_def)

lemma leader_accepted:
  assumes "state l = Leader" "current_term l = t" "ni \<le> length (logs l)" "aer_term reply = t" "aer_success reply"
    "length (inbox l) + 2 \<le> INBOX_CAP"
  shows "\<exists>l'. handle_ae_res so w p ni reply l = Done l' \<and> logs l' = logs l \<and> state l' = Leader \<and> current_term l' = t
    \<and> next_index l' p = Some (length (logs l)) \<and> match_index l' p = Some (length (logs l) - 1)"
  using assms by (simp add: handle_ae_res_def slice_from_def send_self_def Let_def)

section \<open>Progress\<close>

definition can_replicate :: "nat \<Rightarrow> 's Consensus \<Rightarrow> 's Consensus \<Rightarrow> bool" where
  "can_replicate p l f \<longleftrightarrow> state l = Leader \<and> distinct (peers l) \<and> p \<in> set (peers l) \<and> length (inbox l) + 2 \<le> INBOX_CAP
     \<and> state f \<noteq> Dead \<and> current_term f \<le> current_term l \<and> length (inbox f) < INBOX_CAP
     \<and> log_matching (logs f) (logs l) \<and> term_block (logs f) (logs l)"

definition up_to_date :: "nat \<Rightarrow> LogEntry list \<Rightarrow> 's Consensus \<Rightarrow> 's Consensus \<Rightarrow> bool" where
  "up_to_date p ls l f \<longleftrightarrow> take (length ls) (logs f) = ls \<and> state l = Leader \<and> logs l = ls
     \<and> next_index l p = Some (length ls) \<and> match_index l p = Some (length ls - 1)"

lemma round_progress:
  assumes "can_replicate p l f"
  shows "\<exists>l' f'. replication_round so p w (l, f) = Done (l', f') \<and>
    (up_to_date p (logs l) l' f' \<or> can_replicate p l' f' \<and> logs l' = logs l \<and> start_at p l' < start_at p l)"
proof -
  note ok = assms [unfolded can_replicate_def]
  let ?ni = "start_at p l" and ?t = "current_term l"
  obtain l1 req where l1: "send_leader_aes (l\<lparr>calls := []\<rparr>) = l1" "same_role l l1" "call_to p (calls l1) = Some (?ni, req)"
      and req: "req_at (logs l) ?t ?ni req"
    using ok by (auto intro: broadcast [of l p])
  obtain reply f' where f': "append_entries so (snd w) req f = Done (Inr reply, f')" "aer_term reply = ?t" "current_term f' = ?t"
      "state f' \<noteq> Dead"
      and case_f: "if prev_ok req (logs f) then aer_success reply \<and> logs f' = splice_entries ?ni (drop ?ni (logs l)) (logs f)
        else reply = conflict_reply ?t req (logs f) \<and> logs f' = logs f \<and> inbox f' = inbox f"
    using peer_part [OF req, of f so "snd w"] ok by blast
  have round: "replication_round so p w (l, f) = run_map (\<lambda>l. (l, f')) (handle_ae_res so (fst w) p ?ni reply l1)"
    using l1(1,3) f'(1) by (simp add: replication_round_def)
  have role: "state l1 = Leader" "current_term l1 = ?t" "logs l1 = logs l" "inbox l1 = inbox l" "peers l1 = peers l"
    using l1(2) ok by (simp_all add: same_role_def)
  show ?thesis
  proof (cases "prev_ok req (logs f)")
    case True
    then have s: "aer_success reply" "logs f' = splice_entries ?ni (drop ?ni (logs l)) (logs f)" using case_f by simp_all
    obtain l' where l': "handle_ae_res so (fst w) p ?ni reply l1 = Done l'" "logs l' = logs l" "state l' = Leader"
        "next_index l' p = Some (length (logs l))" "match_index l' p = Some (length (logs l) - 1)"
      using leader_accepted [OF role(1,2), of ?ni reply so "fst w" p] s(1) f'(2) role ok by auto
    have "take ?ni (logs f) = take ?ni (logs l) \<and> ?ni \<le> length (logs f)"
      using prev_ok_prefix [OF True, of "logs l" ?ni] ok req by (simp add: req_at_def)
    then have "take (length (logs l)) (logs f') = logs l"
      using splice_replicates [of "logs f" "logs l" ?ni] ok s(2) by simp
    then show ?thesis using round l' by (simp add: up_to_date_def)
  next
    case False
    then have s: "reply = conflict_reply ?t req (logs f)" "logs f' = logs f" "inbox f' = inbox f" using case_f by simp_all
    have "\<not> aer_success reply" by (simp add: s(1) conflict_reply_def split: option.split)
    then have h: "handle_ae_res so (fst w) p ?ni reply l1 = Done (l1\<lparr>next_index := (next_index l1)(p \<mapsto> next_after (logs l) reply)\<rparr>)"
      using leader_rejected [OF role(1,2)] f'(2) role by simp
    have "next_after (logs l) reply < ?ni" using conflict_moves_back [OF req _ False] ok s(1) by simp
    then have "start_at p (l1\<lparr>next_index := (next_index l1)(p \<mapsto> next_after (logs l) reply)\<rparr>) < ?ni"
      using role(3) by (simp add: start_at_def)
    then show ?thesis using round h role f' s ok by (auto simp: can_replicate_def)
  qed
qed

lemma catch_up_terminates:
  assumes "can_replicate p l f" "start_at p l < length ws"
  shows "\<exists>n \<le> start_at p l + 1. \<exists>l' f'. catch_up so p (take n ws) (l, f) = Done (l', f') \<and> up_to_date p (logs l) l' f'"
  using assms
proof (induction "start_at p l" arbitrary: l f ws rule: less_induct)
  case less
  obtain w ws' where ws: "ws = w # ws'" using less.prems(2) by (cases ws) auto
  obtain l' f' where r: "replication_round so p w (l, f) = Done (l', f')"
      "up_to_date p (logs l) l' f' \<or> can_replicate p l' f' \<and> logs l' = logs l \<and> start_at p l' < start_at p l"
    using round_progress [OF less.prems(1)] by blast
  show ?case
  proof (cases "up_to_date p (logs l) l' f'")
    case True
    then show ?thesis using r(1) ws by (intro exI [of _ 1]) simp
  next
    case False
    then have n: "can_replicate p l' f'" "logs l' = logs l" "start_at p l' < start_at p l" using r(2) by auto
    then obtain n l'' f'' where "n \<le> start_at p l' + 1" "catch_up so p (take n ws') (l', f') = Done (l'', f'')" "up_to_date p (logs l) l'' f''"
      using less.hyps [OF n(3) n(1), of ws'] less.prems(2) ws by auto
    then show ?thesis using r(1) ws n(3) by (intro exI [of _ "Suc n"]) auto
  qed
qed

section \<open>Properties\<close>



end
