(* ===== verification/Write_Path.thy ===== *)
theory Write_Path
  imports Replication_Round Startup
begin

text \<open>
  The path of a write through a replicated service: \<^verbatim>\<open>ConsensusHandle::submit\<close>, the actor's message loop
  at the leader and at a peer (\<^verbatim>\<open>efis/src/consensus.rs\<close>), the committed entries each of them hands to its
  service, and the clients that wait there (\<^verbatim>\<open>efis/src/efis.rs\<close>).

  Messages are taken from the inboxes in their order. The lemmas follow one write from an idle pair
  of nodes back to an idle pair, and by induction any sequence of writes.
\<close>

section \<open>The path of a write\<close>

definition next_msg :: "'s storage_ops \<Rightarrow> world \<Rightarrow> 's Consensus \<Rightarrow> 's Consensus run" where
  "next_msg so w c = (case inbox c of [] \<Rightarrow> Hang | m # ms \<Rightarrow> handle_msg so w m (c\<lparr>inbox := ms\<rparr>))"

text \<open>
  The leader takes \<^verbatim>\<open>SendAES\<close>, the peer its request, and the leader the reply; requests to other peers
  are lost.
\<close>

definition aes_round ::
  "'s storage_ops \<Rightarrow> nat \<Rightarrow> world \<times> world \<Rightarrow> 's Consensus \<times> 's Consensus \<Rightarrow> ('s Consensus \<times> 's Consensus) run" where
  "aes_round so p w lf =
     run_bind (next_msg so (fst w) ((fst lf)\<lparr>calls := []\<rparr>)) (\<lambda>l.
       case call_to p (calls l) of
         None \<Rightarrow> Done (l, snd lf)
       | Some (ni, req) \<Rightarrow>
           run_bind (next_msg so (snd w) ((snd lf)\<lparr>inbox := inbox (snd lf) @ [AppendEntryMsg req 0], answers := []\<rparr>)) (\<lambda>f.
             case answers f of
               [AnswerAppend _ (Inr reply)] \<Rightarrow>
                 run_map (\<lambda>l. (l, f)) (next_msg so (fst w) (l\<lparr>inbox := inbox l @ [AppendEntryResult p ni reply]\<rparr>))
             | _ \<Rightarrow> Done (l, f)))"

text \<open>The leader takes \<^verbatim>\<open>Submit\<close>, \<^verbatim>\<open>SendAES\<close>, the reply, \<^verbatim>\<open>SendCommit\<close>, \<^verbatim>\<open>SendAES\<close> and the second reply; the peer two requests and \<^verbatim>\<open>SendCommit\<close>.\<close>

definition write_path ::
  "'s storage_ops \<Rightarrow> nat \<Rightarrow> world \<times> world \<Rightarrow> Command \<Rightarrow> 's Consensus \<times> 's Consensus
     \<Rightarrow> (nat option \<times> 's Consensus \<times> 's Consensus) run" where
  "write_path so p w cmd lf =
     run_bind (handle_submit cmd (fst lf)) (\<lambda>(i, l).
     run_bind (next_msg so (fst w) l) (\<lambda>l.
     run_bind (aes_round so p w (l, snd lf)) (\<lambda>(l, f).
     run_bind (next_msg so (fst w) l) (\<lambda>l.
     run_bind (aes_round so p w (l, f)) (\<lambda>(l, f).
     run_map (\<lambda>f. (i, l, f)) (next_msg so (snd w) f))))))"

fun write_all ::
  "'s storage_ops \<Rightarrow> nat \<Rightarrow> (Command \<times> world \<times> world) list \<Rightarrow> 's Consensus \<times> 's Consensus
     \<Rightarrow> (nat option list \<times> 's Consensus \<times> 's Consensus) run" where
  "write_all so p [] lf = Done ([], lf)"
| "write_all so p ((cmd, w) # xs) lf =
     run_bind (write_path so p w cmd lf) (\<lambda>(i, lf). run_map (map_prod ((#) i) id) (write_all so p xs lf))"

section \<open>The parts of a round\<close>

definition replicating :: "nat \<Rightarrow> 's Consensus \<Rightarrow> bool" where
  "replicating p l \<longleftrightarrow> state l = Leader \<and> distinct (peers l) \<and> p \<in> set (peers l) \<and> length (peers l) \<le> 2 \<and> \<not> rx_closed l"

lemma call_to_mem: "call_to p cs = Some (ni, req) \<Longrightarrow> CallAppend p ni req \<in> set cs"
  by (induction p cs rule: call_to.induct) (auto split: if_splits)

lemma fold_send_commit:
  "CallAppend q ni req \<in> set (calls (fold send_ae_to ps c)) \<Longrightarrow>
     CallAppend q ni req \<in> set (calls c) \<or> ae_leader_commit req = commit_index c"
proof (induction ps arbitrary: c)
  case (Cons r ps)
  have "CallAppend q ni req \<in> set (calls (send_ae_to r c)) \<Longrightarrow> CallAppend q ni req \<in> set (calls c) \<or> ae_leader_commit req = commit_index c"
    by (auto simp: send_ae_to_def Let_def)
  then show ?case using Cons.IH [of "send_ae_to r c"] Cons.prems send_ae_to_role [of c r] by (auto simp: same_role_def)
qed simp

text \<open>The leader's request to a peer, with everything the broadcast keeps.\<close>

lemma send_aes_msg:
  assumes "replicating p l" "inbox l = [SendAES]"
  obtains l1 req where "next_msg so w (l\<lparr>calls := []\<rparr>) = Done l1" "same_role (l\<lparr>inbox := []\<rparr>) l1"
    "call_to p (calls l1) = Some (start_at p l, req)" "req_at (logs l) (current_term l) (start_at p l) req"
    "ae_leader_commit req = commit_index l"
proof -
  let ?l = "l\<lparr>inbox := []\<rparr>"
  have s: "start_at p ?l = start_at p l" by (rule start_at_cong) simp_all
  obtain l1 req where l1: "send_leader_aes (?l\<lparr>calls := []\<rparr>) = l1" "same_role ?l l1" "call_to p (calls l1) = Some (start_at p ?l, req)"
      "req_at (logs ?l) (current_term ?l) (start_at p ?l) req"
    by (rule broadcast [of ?l p]) (use assms(1) in \<open>auto simp: replicating_def\<close>)
  have "ae_leader_commit req = commit_index l"
    using fold_send_commit [of p "start_at p ?l" req "peers l" "?l\<lparr>calls := []\<rparr>"] call_to_mem [OF l1(3)] l1(1) assms(1)
    by (auto simp: send_leader_aes_def replicating_def)
  moreover have swap: "l\<lparr>calls := [], inbox := []\<rparr> = ?l\<lparr>calls := []\<rparr>" by simp
  have "next_msg so w (l\<lparr>calls := []\<rparr>) = Done l1"
    using l1(1) [folded swap] assms(2) by (simp add: next_msg_def)
  ultimately show ?thesis using that [of l1 req] l1 s by simp
qed

text \<open>The peer's part when its log is where the request starts: it takes over the log, and the commit index as \<open>ae_commit\<close> does.\<close>

definition idle_peer :: "'s Consensus \<Rightarrow> bool" where
  "idle_peer f \<longleftrightarrow> state f = Follower \<and> inbox f = [] \<and> \<not> rx_closed f"

definition accepted :: "nat \<Rightarrow> AppendEntriesReply" where
  "accepted t = \<lparr>aer_term = t, aer_success = True, aer_conflict_index = None, aer_conflict_term = None\<rparr>"

lemma splice_at_end: "ni \<le> length ls \<Longrightarrow> splice_entries ni (drop ni ls) (take ni ls) = ls"
  by (auto simp: splice_entries_def Let_def)

lemma prev_at_end: "req_at ls t ni req \<Longrightarrow> ni \<le> length ls \<Longrightarrow> prev_ok req (take ni ls)"
  by (auto simp: req_at_def prev_ok_def)

lemma peer_msg:
  fixes f :: "'s Consensus"
  assumes "req_at ls (current_term f) ni req" "ni \<le> length ls" "logs f = take ni ls" "idle_peer f"
    and "\<And>c :: 's Consensus. logs c = ls \<Longrightarrow> commit_index c = commit_index f \<Longrightarrow> idle_peer c \<Longrightarrow>
        ae_commit req c = Done (c\<lparr>commit_index := ci, inbox := ms\<rparr>)"
  shows "\<exists>f'. next_msg so w (f\<lparr>inbox := inbox f @ [AppendEntryMsg req 0], answers := []\<rparr>) = Done f'
    \<and> answers f' = [AnswerAppend 0 (Inr (accepted (current_term f)))] \<and> idle_peer (f'\<lparr>inbox := []\<rparr>) \<and> inbox f' = ms
    \<and> logs f' = ls \<and> commit_index f' = ci \<and> current_term f' = current_term f
    \<and> commit_chan f' = commit_chan f \<and> last_applied f' = last_applied f"
proof -
  let ?f = "f\<lparr>answers := [], inbox := [], leader_id := Some (ae_leader req), election_reset_event := Some (now w), logs := ls\<rparr>"
  have t: "ae_term req = current_term f" "insert_at req = ni" "ae_entries req = drop ni ls" using assms(1) by (simp_all add: req_at_def)
  have "ae_commit req ?f = Done (?f\<lparr>commit_index := ci, inbox := ms\<rparr>)"
    using assms(4) by (intro assms(5)) (simp_all add: idle_peer_def)
  then show ?thesis
    using assms(2-4) t prev_at_end [OF assms(1,2)] splice_at_end [OF assms(2)]
    by (simp add: next_msg_def idle_peer_def append_entries_def ae_follow_def accepted_def Let_def)
qed

lemma ae_commit_known:
  "ae_leader_commit req = commit_index c \<Longrightarrow> (\<And>i. commit_index c = Some i \<Longrightarrow> i < length (logs c)) \<Longrightarrow> inbox c = [] \<Longrightarrow>
     ae_commit req c = Done (c\<lparr>commit_index := commit_index c, inbox := []\<rparr>)"
  by (auto simp: ae_commit_def Let_def split: option.split)

lemma ae_commit_new:
  assumes "ae_leader_commit req = Some (length (logs c) - 1)" "logs c \<noteq> []" "idle_peer c"
    "\<And>i. commit_index c = Some i \<Longrightarrow> i < length (logs c) - 1"
  shows "ae_commit req c = Done (c\<lparr>commit_index := Some (length (logs c) - 1), inbox := [SendCommit]\<rparr>)"
  using assms by (auto simp: ae_commit_def Let_def send_self_def INBOX_CAP_def idle_peer_def split: option.split)

text \<open>The leader's part after a success: the peer's match index is the end of the log, so with at most two peers the log is committed.\<close>

lemma advance_commit_last:
  assumes "le_term (logs c ! i) = current_term c" "length (peers c) + 1 < match_count c i * 2"
  shows "advance_commit c (is @ [i]) ci = Some i"
  using assms by (induction "is" arbitrary: ci) auto

lemma match_count_two:
  assumes "p \<in> set (peers c)" "match_index c p = Some m" "i \<le> m" "length (peers c) \<le> 2"
  shows "length (peers c) + 1 < match_count c i * 2"
proof -
  have "filter (\<lambda>q. i \<le> (case match_index c q of None \<Rightarrow> 0 | Some m \<Rightarrow> m)) (peers c) \<noteq> []"
    using assms(1-3) by (auto simp: filter_empty_conv intro!: bexI [of _ p])
  then have "0 < length (filter (\<lambda>q. i \<le> (case match_index c q of None \<Rightarrow> 0 | Some m \<Rightarrow> m)) (peers c))"
    unfolding length_greater_0_conv .
  then obtain n where "match_count c i = Suc (Suc n)" unfolding match_count_def gr0_conv_Suc by auto
  then show ?thesis using assms(4) by simp
qed

lemma leader_msg:
  assumes "replicating p l" "inbox l = []" "ni \<le> length (logs l)" "logs l \<noteq> []" "le_term (last (logs l)) = current_term l"
    "\<And>i. commit_index l = Some i \<Longrightarrow> i < length (logs l)"
  shows "\<exists>l'. next_msg so w (l\<lparr>inbox := inbox l @ [AppendEntryResult p ni (accepted (current_term l))]\<rparr>) = Done l'
    \<and> replicating p l' \<and> inbox l' = (if commit_index l = Some (length (logs l) - 1) then [] else [SendCommit, SendAES])
    \<and> logs l' = logs l \<and> current_term l' = current_term l \<and> commit_index l' = Some (length (logs l) - 1)
    \<and> next_index l' p = Some (length (logs l)) \<and> commit_chan l' = commit_chan l \<and> last_applied l' = last_applied l
    \<and> log_index l' = log_index l"
proof -
  let ?n = "length (logs l) - 1"
  let ?l = "l\<lparr>inbox := [], next_index := (next_index l)(p \<mapsto> length (logs l)), match_index := (match_index l)(p \<mapsto> ?n)\<rparr>"
  let ?from = "case commit_index l of None \<Rightarrow> 0 | Some i \<Rightarrow> i"
  have "?from \<le> ?n" using assms(4,6) by (fastforce split: option.split)
  then have r: "[?from..<length (logs l)] = [?from..<?n] @ [?n]" using assms(4) by (cases "length (logs l)") auto
  have "advance_commit ?l [?from..<length (logs l)] (commit_index l) = Some ?n"
    unfolding r using assms(1,4,5) match_count_two [of p ?l ?n ?n]
    by (intro advance_commit_last) (auto simp: replicating_def last_conv_nth)
  then show ?thesis
    using assms(1-4)
    by (auto simp: next_msg_def handle_ae_res_def slice_from_def accepted_def Let_def replicating_def send_self_def INBOX_CAP_def)
qed

section \<open>One write\<close>

text \<open>
  A leader with at most two peers and one of them, both idle: the same term and log, everything
  committed and handed over, and the leader knows it.
\<close>

definition last_idx :: "LogEntry list \<Rightarrow> nat option" where
  "last_idx ls = (if ls = [] then None else Some (length ls - 1))"

definition steady :: "nat \<Rightarrow> 's Consensus \<Rightarrow> 's Consensus \<Rightarrow> bool" where
  "steady p l f \<longleftrightarrow> replicating p l \<and> inbox l = [] \<and> log_index l = length (logs l) \<and> next_index l p = Some (length (logs l))
     \<and> commit_index l = last_idx (logs l) \<and> last_applied l = last_idx (logs l)
     \<and> idle_peer f \<and> current_term f = current_term l \<and> logs f = logs l
     \<and> commit_index f = last_idx (logs l) \<and> last_applied f = last_idx (logs l)"

lemma start_at_next: "next_index l p = Some n \<Longrightarrow> n \<le> length (logs l) \<Longrightarrow> start_at p l = n"
  by (simp add: start_at_def)

text \<open>A round that is accepted: the leader's log becomes the peer's and is committed at the leader.\<close>

lemma round_accepted:
  fixes l f :: "'s Consensus"
  assumes "replicating p l" "inbox l = [SendAES]" "next_index l p = Some ni" "ni \<le> length (logs l)" "logs l \<noteq> []"
    "le_term (last (logs l)) = current_term l" "\<And>i. commit_index l = Some i \<Longrightarrow> i < length (logs l)"
    and "idle_peer f" "current_term f = current_term l" "logs f = take ni (logs l)"
    and "\<And>req (c :: 's Consensus). ae_leader_commit req = commit_index l \<Longrightarrow> logs c = logs l \<Longrightarrow> commit_index c = commit_index f
        \<Longrightarrow> idle_peer c \<Longrightarrow> ae_commit req c = Done (c\<lparr>commit_index := ci, inbox := ms\<rparr>)"
  shows "\<exists>l' f'. aes_round so p w (l, f) = Done (l', f')
    \<and> replicating p l' \<and> inbox l' = (if commit_index l = Some (length (logs l) - 1) then [] else [SendCommit, SendAES])
    \<and> logs l' = logs l \<and> current_term l' = current_term l \<and> commit_index l' = Some (length (logs l) - 1)
    \<and> next_index l' p = Some (length (logs l)) \<and> commit_chan l' = commit_chan l \<and> last_applied l' = last_applied l
    \<and> log_index l' = log_index l
    \<and> idle_peer (f'\<lparr>inbox := []\<rparr>) \<and> inbox f' = ms \<and> logs f' = logs l \<and> commit_index f' = ci \<and> current_term f' = current_term f
    \<and> commit_chan f' = commit_chan f \<and> last_applied f' = last_applied f"
proof -
  obtain l1 req where l1: "next_msg so (fst w) (l\<lparr>calls := []\<rparr>) = Done l1" "same_role (l\<lparr>inbox := []\<rparr>) l1"
      "call_to p (calls l1) = Some (ni, req)" and req: "req_at (logs l) (current_term f) ni req" "ae_leader_commit req = commit_index l"
    by (rule send_aes_msg [OF assms(1,2), of so "fst w"]) (use assms(3,4,9) start_at_next [of l p ni] in auto)
  obtain f' where f': "next_msg so (snd w) (f\<lparr>inbox := inbox f @ [AppendEntryMsg req 0], answers := []\<rparr>) = Done f'"
      "answers f' = [AnswerAppend 0 (Inr (accepted (current_term f)))]"
      and rest_f: "idle_peer (f'\<lparr>inbox := []\<rparr>) \<and> inbox f' = ms \<and> logs f' = logs l \<and> commit_index f' = ci
        \<and> current_term f' = current_term f \<and> commit_chan f' = commit_chan f \<and> last_applied f' = last_applied f"
    using peer_msg [OF req(1) assms(4,10,8) assms(11) [OF req(2)], of so "snd w"] by blast
  have role: "replicating p l1" "inbox l1 = []" "logs l1 = logs l" "current_term l1 = current_term l" "commit_index l1 = commit_index l"
      "commit_chan l1 = commit_chan l" "last_applied l1 = last_applied l" "log_index l1 = log_index l"
    using l1(2) assms(1) by (simp_all add: same_role_def replicating_def)
  obtain l' where "next_msg so (fst w) (l1\<lparr>inbox := inbox l1 @ [AppendEntryResult p ni (accepted (current_term l1))]\<rparr>) = Done l'"
      and rest_l: "replicating p l' \<and> inbox l' = (if commit_index l1 = Some (length (logs l1) - 1) then [] else [SendCommit, SendAES])
        \<and> logs l' = logs l1 \<and> current_term l' = current_term l1 \<and> commit_index l' = Some (length (logs l1) - 1)
        \<and> next_index l' p = Some (length (logs l1)) \<and> commit_chan l' = commit_chan l1 \<and> last_applied l' = last_applied l1
        \<and> log_index l' = log_index l1"
    using leader_msg [OF role(1,2), of ni so "fst w"] role assms(4-7) by auto
  then have "aes_round so p w (l, f) = Done (l', f')"
    using l1(1,3) f' role(4) assms(9) by (simp add: aes_round_def)
  then show ?thesis using rest_l rest_f role by simp
qed

lemma last_idx_snoc [simp]: "last_idx (ls @ [x]) = Some (length ls)"
  by (simp add: last_idx_def)

lemma last_idx_neq [simp]: "last_idx ls \<noteq> Some (length ls)"
  by (cases ls) (simp_all add: last_idx_def)

lemma last_idx_less: "last_idx ls = Some i \<Longrightarrow> i < length ls"
  by (auto simp: last_idx_def split: if_splits)

text \<open>\<^verbatim>\<open>SendCommit\<close> when exactly one entry is due.\<close>

lemma send_commit_msg:
  assumes "inbox c = SendCommit # ms" "commit_index c = Some (length ls)" "last_applied c = last_idx ls" "logs c = ls @ [x]"
    "length ls < usize_max"
  shows "next_msg so w c = Done (c\<lparr>inbox := ms, last_applied := Some (length ls),
     commit_chan := commit_chan c @ [\<lparr>ce_command = le_command x, ce_term = current_term c, ce_index = length ls\<rparr>]\<rparr>)"
proof -
  have "(case last_applied c of None \<Rightarrow> 0 | Some a \<Rightarrow> if a = usize_max then 0 else a + 1) = length ls"
    using assms(3,5) by (auto simp: last_idx_def split: option.split if_splits)
  then show ?thesis using assms(1,2,4) by (simp add: next_msg_def send_commits_def slice_range_def Let_def)
qed

lemma persist_log_index [simp]: "log_index (persist_state so c) = log_index c"
  by (simp add: persist_state_def Let_def split: prod.split sum.split)

definition written :: "Command \<Rightarrow> nat \<Rightarrow> nat \<Rightarrow> CommitEntry" where
  "written cmd t i = \<lparr>ce_command = cmd, ce_term = t, ce_index = i\<rparr>"

lemma steady_write:
  fixes l f :: "'s Consensus"
  assumes "steady p l f" "length (logs l) < usize_max"
  shows "\<exists>l' f'. write_path so p w cmd (l, f) = Done (Some (length (logs l)), l', f') \<and> steady p l' f'
    \<and> logs l' = logs l @ [\<lparr>le_command = cmd, le_term = current_term l\<rparr>] \<and> current_term l' = current_term l
    \<and> commit_chan l' = commit_chan l @ [written cmd (current_term l) (length (logs l))]
    \<and> commit_chan f' = commit_chan f @ [written cmd (current_term l) (length (logs l))]"
proof -
  note st = assms(1) [unfolded steady_def]
  let ?x = "\<lparr>le_command = cmd, le_term = current_term l\<rparr>" and ?n = "length (logs l)"
  let ?ls = "logs l @ [?x]"
  let ?l0 = "l\<lparr>inbox := [Submit cmd]\<rparr>"
  have s: "handle_submit cmd l = Done (Some ?n, ?l0)"
    using st by (simp add: handle_submit_def send_self_def replicating_def INBOX_CAP_def)
  obtain l1 where l1: "next_msg so (fst w) ?l0 = Done l1" "replicating p l1" "inbox l1 = [SendAES]" "logs l1 = ?ls"
      "log_index l1 = Suc ?n" "next_index l1 p = Some ?n" "commit_index l1 = last_idx (logs l)" "last_applied l1 = last_idx (logs l)"
      "current_term l1 = current_term l" "commit_chan l1 = commit_chan l"
    using st by (auto simp: next_msg_def submit_entry_def send_self_def replicating_def INBOX_CAP_def)
  have known: "ae_commit req c = Done (c\<lparr>commit_index := last_idx (logs l), inbox := []\<rparr>)"
    if "ae_leader_commit req = commit_index l1" "logs c = logs l1" "commit_index c = commit_index f" "idle_peer c"
    for req and c :: "'s Consensus"
  proof -
    have "commit_index c = last_idx (logs l)" "inbox c = []" using that st by (simp_all add: idle_peer_def)
    then show ?thesis using ae_commit_known [of req c] that(1,2) l1(4,7) last_idx_less [of "logs l"] by (simp add: less_Suc_eq)
  qed
  obtain l2 f2 where r1: "aes_round so p w (l1, f) = Done (l2, f2)"
      "replicating p l2" "inbox l2 = [SendCommit, SendAES]" "logs l2 = ?ls" "current_term l2 = current_term l"
      "commit_index l2 = Some ?n" "next_index l2 p = Some (Suc ?n)" "commit_chan l2 = commit_chan l" "last_applied l2 = last_idx (logs l)"
      "log_index l2 = Suc ?n" "idle_peer f2" "logs f2 = ?ls" "commit_index f2 = last_idx (logs l)" "current_term f2 = current_term l"
      "commit_chan f2 = commit_chan f" "last_applied f2 = last_idx (logs l)"
    using round_accepted [OF l1(2,3,6) _ _ _ _ _ _ _ known, where so = so and w = w and f = f] l1 st last_idx_less [of "logs l"]
    by (auto simp: idle_peer_def less_Suc_eq)
  let ?e = "written cmd (current_term l) ?n"
  have c1: "next_msg so (fst w) l2 = Done (l2\<lparr>inbox := [SendAES], last_applied := Some ?n, commit_chan := commit_chan l @ [?e]\<rparr>)"
    (is "_ = Done ?l3")
    using send_commit_msg [OF r1(3,6,9,4) assms(2)] r1(5,8) by (simp add: written_def)
  have new: "ae_commit req c = Done (c\<lparr>commit_index := Some ?n, inbox := [SendCommit]\<rparr>)"
    if "ae_leader_commit req = commit_index ?l3" "logs c = logs ?l3" "commit_index c = commit_index f2" "idle_peer c"
    for req and c :: "'s Consensus"
    using ae_commit_new [of req c] that r1(4,6,13) last_idx_less [of "logs l"] by simp
  have l3: "replicating p ?l3" using r1(2) by (simp add: replicating_def)
  obtain l4 f4 where r2: "aes_round so p w (?l3, f2) = Done (l4, f4)"
      "replicating p l4" "inbox l4 = []" "logs l4 = ?ls" "current_term l4 = current_term l"
      "commit_index l4 = Some ?n" "next_index l4 p = Some (Suc ?n)" "commit_chan l4 = commit_chan l @ [?e]" "last_applied l4 = Some ?n"
      "log_index l4 = Suc ?n" "idle_peer (f4\<lparr>inbox := []\<rparr>)" "inbox f4 = [SendCommit]" "logs f4 = ?ls" "commit_index f4 = Some ?n"
      "current_term f4 = current_term l" "commit_chan f4 = commit_chan f" "last_applied f4 = last_idx (logs l)"
    using round_accepted [OF l3 _ _ _ _ _ _ _ _ _ new, where so = so and w = w and ni = "Suc ?n" and f = f2] r1 by auto
  have c2: "next_msg so (snd w) f4 = Done (f4\<lparr>inbox := [], last_applied := Some ?n, commit_chan := commit_chan f @ [?e]\<rparr>)"
    (is "_ = Done ?f5")
    using send_commit_msg [OF r2(12,14,17,13) assms(2)] r2(15,16) by (simp add: written_def)
  have "write_path so p w cmd (l, f) = Done (Some ?n, l4, ?f5)"
    using s l1(1) r1(1) c1 r2(1) c2 by (simp add: write_path_def)
  moreover have "steady p l4 ?f5" using r2 by (simp add: steady_def idle_peer_def)
  ultimately show ?thesis using r2(4,5,8) by auto
qed

section \<open>Sequences of writes\<close>

lemma steady_writes:
  fixes l f :: "'s Consensus"
  assumes "steady p l f" "length (logs l) + length xs < usize_max"
  shows "\<exists>l' f' es. write_all so p xs (l, f) = Done (map Some [length (logs l)..<length (logs l) + length xs], l', f') \<and> steady p l' f'
    \<and> commit_chan l' = commit_chan l @ es \<and> commit_chan f' = commit_chan f @ es
    \<and> es = map (\<lambda>(cmd, i). written cmd (current_term l) i) (zip (map fst xs) [length (logs l)..<length (logs l) + length xs])"
  using assms
proof (induction xs arbitrary: l f)
  case (Cons x xs)
  obtain cmd w where x: "x = (cmd, w)" by (cases x)
  obtain l1 f1 where w: "write_path so p w cmd (l, f) = Done (Some (length (logs l)), l1, f1)" "steady p l1 f1"
      "length (logs l1) = Suc (length (logs l))" "current_term l1 = current_term l"
      "commit_chan l1 = commit_chan l @ [written cmd (current_term l) (length (logs l))]"
      "commit_chan f1 = commit_chan f @ [written cmd (current_term l) (length (logs l))]"
    using steady_write [OF Cons.prems(1), of so w cmd] Cons.prems(2) by auto
  obtain l' f' es where r: "write_all so p xs (l1, f1) = Done (map Some [length (logs l1)..<length (logs l1) + length xs], l', f')"
      "steady p l' f'" "commit_chan l' = commit_chan l1 @ es" "commit_chan f' = commit_chan f1 @ es"
      "es = map (\<lambda>(cmd, i). written cmd (current_term l1) i) (zip (map fst xs) [length (logs l1)..<length (logs l1) + length xs])"
    using Cons.IH [OF w(2)] Cons.prems(2) w(3) by auto
  have u: "[length (logs l)..<length (logs l) + length (x # xs)] = length (logs l) # [length (logs l1)..<length (logs l1) + length xs]"
    using upt_conv_Cons [of "length (logs l)" "length (logs l) + length (x # xs)"] w(3) by (simp del: upt_Suc)
  show ?case unfolding u using w r x by simp
qed simp

text \<open>Clients registered at the indices their submissions returned.\<close>

definition register_all :: "(nat option \<times> nat) list \<Rightarrow> 'c Efis \<Rightarrow> 'c Efis" where
  "register_all xs st = fold (\<lambda>(i, ch) st. case i of Some i \<Rightarrow> register_waiter i ch st | None \<Rightarrow> st) xs st"

lemma register_all_subs:
  "distinct is \<Longrightarrow> length is = length chs \<Longrightarrow> n < length is \<Longrightarrow> subs (register_all (zip (map Some is) chs) st) (is ! n) = Some (chs ! n)"
proof (induction "is" arbitrary: chs st n)
  case (Cons i "is")
  obtain ch chs' where chs: "chs = ch # chs'" using Cons.prems(2) by (cases chs) auto
  have other: "subs (register_all (zip (map Some is) chs) st) i = subs st i" if "i \<notin> set is" for "is" chs and st :: "'a Efis"
    using that by (induction "is" arbitrary: chs st) (auto simp: register_all_def register_waiter_def zip_Cons1 split: list.splits)
  have step: "register_all (zip (map Some (i # is)) chs) st = register_all (zip (map Some is) chs') (register_waiter i ch st)"
    by (simp add: chs register_all_def)
  show ?case
  proof (cases n)
    case 0
    then show ?thesis unfolding step using other [of "is" chs' "register_waiter i ch st"] Cons.prems(1) chs by (simp add: register_waiter_def)
  next
    case (Suc m)
    then show ?thesis unfolding step using Cons.IH [of chs' m] Cons.prems chs by simp
  qed
qed simp

lemma map_filter_Some: "(\<And>n. n < length xs \<Longrightarrow> f (xs ! n) = Some (ys ! n)) \<Longrightarrow> length xs = length ys \<Longrightarrow> List.map_filter f xs = ys"
proof (induction xs arbitrary: ys)
  case (Cons x xs)
  obtain y ys' where ys: "ys = y # ys'" using Cons.prems(2) by (cases ys) auto
  have "f x = Some y" using Cons.prems(1) [of 0] ys by simp
  moreover have "f (xs ! n) = Some (ys' ! n)" if "n < length xs" for n using Cons.prems(1) [of "Suc n"] ys that by simp
  ultimately show ?case using Cons.IH [of ys'] Cons.prems(2) ys by (simp add: List.map_filter_simps)
qed (simp add: List.map_filter_simps)

section \<open>Properties\<close>


definition demo_steady :: "(PersistentState \<times> LogEntry list) Consensus" where
  "demo_steady = (demo_node ''n1'' 4 [])\<lparr>state := Leader, next_index := [2 \<mapsto> 0, 3 \<mapsto> 0], match_index := [2 \<mapsto> 0, 3 \<mapsto> 0]\<rparr>"


end
