(* ===== verification/Service_Tests.thy ===== *)
theory Service_Tests
  imports Rpc_Macros Wire_Schemas
begin

text \<open>
  The unit tests of \<^verbatim>\<open>efis/src/efis.rs\<close>, run on the model: a test is true when all its assertions hold and
  nothing panics or blocks. They tie the model to what the authors expect of the code, and show
  which expectations the code does not meet.

  The tests share one service (\<^verbatim>\<open>Efis::singleton\<close>), so each is stated for every state another test may
  have left. A future that is never awaited does not run: \<^verbatim>\<open>let _ = store.set(..)\<close> without \<^verbatim>\<open>await\<close> has
  no effect and is left out.
\<close>

section \<open>Running a test\<close>

text \<open>The assertions \<open>k\<close> on the result of an awaited call and the state after it.\<close>

definition awaited :: "('a \<times> 's) run \<Rightarrow> ('a \<Rightarrow> 's \<Rightarrow> bool) \<Rightarrow> bool" where
  "awaited m k = finishes m (\<lambda>(r, s). k r s)"

lemma awaited_simps [simp]: "awaited (Done (r, s)) k = k r s" "awaited Panic k = False" "awaited Hang k = False"
  by (simp_all add: awaited_def)

section \<open>The service\<close>

text \<open>
  \<^verbatim>\<open>setup\<close>: the guards without interval and path, and a service without a consensus module; the actor it
  also starts is not given to the service.
\<close>

definition tests_setup :: "8 word list res \<Rightarrow> ref_chan Efis option \<Rightarrow> ref_chan Efis run" where
  "tests_setup retrieved inst = run_map (\<lambda>g. efis_singleton g (psguard_ps psguard_new) False inst) (guard_new None None retrieved)"

lemma tests_setup_standalone: "(\<And>st. inst = Some st \<Longrightarrow> \<not> cons st) \<Longrightarrow> \<exists>st. tests_setup retrieved inst = Done st \<and> \<not> cons st"
  by (cases inst; cases retrieved) (simp_all add: tests_setup_def guard_new_def guard_from_def efis_singleton_def efis_new_def)

text \<open>A generated method called directly: without the dispatcher there is no leader check.\<close>

definition call_fn :: "env \<Rightarrow> string \<Rightarrow> ref_chan Efis handler" where
  "call_fn e m = st_fns (efis_struct e ref_broadcast (\<lambda>_. \<lparr>sub_index = None, sub_channel = 0, sub_wait = TimedOut\<rparr>)) m"

definition set_req :: "string \<Rightarrow> string \<Rightarrow> nat option \<Rightarrow> string" where
  "set_req k v x = ser_SetReq \<lparr>set_key = k, set_value = v, set_exp = x\<rparr>"

definition get_req :: "string \<Rightarrow> string" where
  "get_req k = ser_GetReq \<lparr>get_key = k\<rparr>"

definition test_set :: "env \<Rightarrow> ref_chan Efis \<Rightarrow> bool" where
  "test_set e st = awaited (call_fn e ''set'' (set_req ''key'' ''value'' (Some 10)) st)
     (\<lambda>result _. is_ok result \<and> result = Inr (ser_OkRes \<lparr>status = ''ok''\<rparr>))"

definition test_get :: "env \<Rightarrow> env \<Rightarrow> ref_chan Efis \<Rightarrow> bool" where
  "test_get e e' st = awaited (call_fn e ''set'' (set_req ''key_test'' ''value'' (Some 10)) st) (\<lambda>_ st.
     awaited (call_fn e' ''get'' (get_req ''key_test'') st)
       (\<lambda>result _. is_ok result \<and> result = Inr (ser_GetRes \<lparr>res_val = ''value''\<rparr>)))"

definition test_delete :: "env \<Rightarrow> env \<Rightarrow> ref_chan Efis \<Rightarrow> bool" where
  "test_delete e e' st = awaited (call_fn e ''set'' (set_req ''key_delete'' ''value'' (Some 10)) st) (\<lambda>_ st.
     awaited (call_fn e' ''delete'' (get_req ''key_delete'') st) (\<lambda>result _. is_ok result))"

definition test_increment :: "env \<Rightarrow> env \<Rightarrow> ref_chan Efis \<Rightarrow> bool" where
  "test_increment e e' st = awaited (call_fn e ''set'' (set_req ''key_incr'' ''1'' (Some 10)) st) (\<lambda>_ st.
     awaited (call_fn e' ''increment'' (get_req ''key_incr'') st)
       (\<lambda>result _. is_ok result \<and> result = Inr (ser_GetRes \<lparr>res_val = ''2''\<rparr>)))"

definition test_decrement :: "env \<Rightarrow> env \<Rightarrow> ref_chan Efis \<Rightarrow> bool" where
  "test_decrement e e' st = awaited (call_fn e ''set'' (set_req ''key_decr'' ''2'' (Some 10)) st) (\<lambda>_ st.
     awaited (call_fn e' ''decrement'' (get_req ''key_decr'') st)
       (\<lambda>result _. is_ok result \<and> result = Inr (ser_GetRes \<lparr>res_val = ''1''\<rparr>)))"

definition test_expire :: "env \<Rightarrow> env \<Rightarrow> ref_chan Efis \<Rightarrow> bool" where
  "test_expire e e' st = awaited (call_fn e ''set'' (set_req ''key_exp'' ''2'' None) st) (\<lambda>_ st.
     awaited (call_fn e' ''expire'' (ser_ExpireReq \<lparr>exp_key = ''key_exp'', exp_duration = 10\<rparr>) st) (\<lambda>result _. is_ok result))"

definition test_ttl :: "env \<Rightarrow> env \<Rightarrow> ref_chan Efis \<Rightarrow> bool" where
  "test_ttl e e' st = awaited (call_fn e ''set'' (set_req ''key_ttl'' ''value'' (Some 10)) st) (\<lambda>_ st.
     awaited (call_fn e' ''ttl'' (get_req ''key_ttl'') st)
       (\<lambda>result _. is_ok result \<and> result = Inr (ser_TtlRes \<lparr>res_ttl = ''9''\<rparr>)))"

definition list_req :: "string \<Rightarrow> string list \<Rightarrow> string" where
  "list_req k vs = ser_ListReq \<lparr>list_key = k, list_values = vs\<rparr>"

definition test_lpush :: "env \<Rightarrow> ref_chan Efis \<Rightarrow> bool" where
  "test_lpush e st = awaited (call_fn e ''lpush'' (list_req ''key_lpush'' [''1'', ''2'', ''3'']) st)
     (\<lambda>result _. is_ok result \<and> result = Inr (ser_OkRes \<lparr>status = ''ok''\<rparr>))"

definition test_rpush :: "env \<Rightarrow> ref_chan Efis \<Rightarrow> bool" where
  "test_rpush e st = awaited (call_fn e ''rpush'' (list_req ''key_rpush'' [''1'', ''2'', ''3'']) st)
     (\<lambda>result _. is_ok result \<and> result = Inr (ser_OkRes \<lparr>status = ''ok''\<rparr>))"

definition test_lpop :: "env \<Rightarrow> env \<Rightarrow> ref_chan Efis \<Rightarrow> bool" where
  "test_lpop e e' st = awaited (call_fn e ''lpush'' (list_req ''key_lpop'' [''1'', ''2'', ''3'']) st) (\<lambda>_ st.
     awaited (call_fn e' ''lpop'' (get_req ''key_lpop'') st)
       (\<lambda>result _. is_ok result \<and> result = Inr (ser_GetRes \<lparr>res_val = ''3''\<rparr>)))"

definition test_rpop :: "env \<Rightarrow> env \<Rightarrow> ref_chan Efis \<Rightarrow> bool" where
  "test_rpop e e' st = awaited (call_fn e ''lpush'' (list_req ''key_rpop'' [''1'', ''2'', ''3'']) st) (\<lambda>_ st.
     awaited (call_fn e' ''rpop'' (get_req ''key_rpop'') st)
       (\<lambda>result _. is_ok result \<and> result = Inr (ser_GetRes \<lparr>res_val = ''1''\<rparr>)))"

definition test_sadd :: "env \<Rightarrow> ref_chan Efis \<Rightarrow> bool" where
  "test_sadd e st = awaited (call_fn e ''sadd'' (list_req ''key_sadd'' [''value1'', ''value2'', ''value3'']) st)
     (\<lambda>result _. is_ok result)"

definition test_smembers :: "env \<Rightarrow> env \<Rightarrow> ref_chan Efis \<Rightarrow> bool" where
  "test_smembers e e' st = awaited (call_fn e ''sadd'' (list_req ''key_smembers'' [''value1'', ''value2'', ''value3'']) st) (\<lambda>_ st.
     awaited (call_fn e' ''smembers'' (get_req ''key_smembers'') st) (\<lambda>result _. is_ok result))"

definition test_zadd :: "env \<Rightarrow> ref_chan Efis \<Rightarrow> bool" where
  "test_zadd e st = awaited (call_fn e ''zadd'' (ser_MapReq \<lparr>map_key = ''test_zadd'', map_score = 12, map_value = ''value''\<rparr>) st)
     (\<lambda>result _. is_ok result)"

text \<open>The three calls of \<^verbatim>\<open>_zadd\<close> are not awaited.\<close>

definition test_zrange :: "env \<Rightarrow> ref_chan Efis \<Rightarrow> bool" where
  "test_zrange e st = awaited (call_fn e ''zrange''
       (ser_val bits_env (val_MapRange \<lparr>range_key = ''key_zrng'', range_start = 0, range_end = 1\<rparr>)) st)
     (\<lambda>result _. is_ok result)"

text \<open>The stream behind \<^verbatim>\<open>subscribe\<close> prints what the receiver yields; the test waits for its first message.\<close>

definition test_pubsub :: "env \<Rightarrow> ref_chan Efis \<Rightarrow> bool" where
  "test_pubsub e st = awaited
     (st_streams (efis_struct e ref_broadcast (\<lambda>_. \<lparr>sub_index = None, sub_channel = 0, sub_wait = TimedOut\<rparr>)) ''subscribe''
       (ser_val bits_env (val_SubReq \<lparr>sub_chan = ''ps_key''\<rparr>)) st) (\<lambda>res st.
     case res of Inl _ \<Rightarrow> False | Inr rx \<Rightarrow>
       awaited (call_fn e ''publish'' (ser_PubReq \<lparr>pub_chan = ''ps_key'', pub_value = ''ps_value''\<rparr>) st) (\<lambda>res st.
         is_ok res \<and> (case chans (pubsub st) ''ps_key'' of None \<Rightarrow> False
           | Some c \<Rightarrow> hd (map ser_string (rc_queues c ! rx)) = ''ps_value'' @ [CHR 0x0A])))"

section \<open>Methods of a service without consensus\<close>

definition printed :: "('a \<Rightarrow> string) \<Rightarrow> ('c, 'a) outcome \<Rightarrow> ((RpcError + string) \<times> 'c Efis) run" where
  "printed ser m = run_map (\<lambda>(res, st'). (map_sum id ser res, st')) m"

lemma rpc_func_printed: "de req = Done (Inr q) \<Longrightarrow> rpc_func de ser body req st = printed ser (body q st)"
  by (simp add: rpc_func_def printed_def)

lemma call_fn_eq:
  "call_fn e ''get'' = rpc_func de_GetReq ser_GetRes (get e)" "call_fn e ''ttl'' = rpc_func de_GetReq ser_TtlRes (ttl e)"
  "call_fn e ''smembers'' = rpc_func de_GetReq ser_GetRes (smembers e)" "call_fn e ''zrange'' = rpc_func de_MapRange ser_ListRes (zrange e)"
  by (simp_all add: call_fn_def efis_struct_def by_name_def efis_wrappers_def Let_def)

lemma call_read:
  "wf_GetReq q \<Longrightarrow> call_fn e ''get'' (ser_GetReq q) st = printed ser_GetRes (get e q st)"
  "wf_GetReq q \<Longrightarrow> call_fn e ''ttl'' (ser_GetReq q) st = printed ser_TtlRes (ttl e q st)"
  "wf_GetReq q \<Longrightarrow> call_fn e ''smembers'' (ser_GetReq q) st = printed ser_GetRes (smembers e q st)"
  by (simp_all add: call_fn_eq rpc_func_printed rt_GetReq)

lemma call_write:
  assumes "\<not> cons st"
  shows "wf_SetReq q1 \<Longrightarrow> call_fn e ''set'' (ser_SetReq q1) st = printed ser_OkRes (set_impl e q1 st)"
    "wf_GetReq q2 \<Longrightarrow> call_fn e ''delete'' (ser_GetReq q2) st = printed ser_OkRes (delete_impl q2 st)"
    "wf_GetReq q2 \<Longrightarrow> call_fn e ''increment'' (ser_GetReq q2) st = printed ser_GetRes (increment_impl e q2 st)"
    "wf_GetReq q2 \<Longrightarrow> call_fn e ''decrement'' (ser_GetReq q2) st = printed ser_GetRes (decrement_impl e q2 st)"
    "wf_ExpireReq q3 \<Longrightarrow> call_fn e ''expire'' (ser_ExpireReq q3) st = printed ser_OkRes (expire_impl e q3 st)"
    "wf_ListReq q4 \<Longrightarrow> call_fn e ''lpush'' (ser_ListReq q4) st = printed ser_OkRes (lpush_impl e q4 st)"
    "wf_ListReq q4 \<Longrightarrow> call_fn e ''rpush'' (ser_ListReq q4) st = printed ser_OkRes (rpush_impl e q4 st)"
    "wf_GetReq q2 \<Longrightarrow> call_fn e ''lpop'' (ser_GetReq q2) st = printed ser_GetRes (lpop_impl q2 st)"
    "wf_GetReq q2 \<Longrightarrow> call_fn e ''rpop'' (ser_GetReq q2) st = printed ser_GetRes (rpop_impl q2 st)"
    "wf_ListReq q4 \<Longrightarrow> call_fn e ''sadd'' (ser_ListReq q4) st = printed ser_OkRes (sadd_impl e q4 st)"
    "wf_MapReq q5 \<Longrightarrow> call_fn e ''zadd'' (ser_MapReq q5) st = printed ser_OkRes (zadd_impl e q5 st)"
    "wf_PubReq q6 \<Longrightarrow> call_fn e ''publish'' (ser_PubReq q6) st = printed ser_OkRes (publish_impl ref_broadcast q6 st)"
  using assms
  by (simp_all add: call_fn_def efis_struct_def by_name_def efis_wrappers_def Let_def rpc_func_printed rt_SetReq rt_GetReq rt_ExpireReq
      rt_ListReq rt_MapReq rt_PubReq set_rpc_def delete_rpc_def increment_rpc_def decrement_rpc_def expire_rpc_def lpush_rpc_def
      rpush_rpc_def lpop_rpc_def rpop_rpc_def sadd_rpc_def zadd_rpc_def publish_rpc_def replicate_ok_def replicate_value_def)

lemmas test_calls = call_read call_write set_req_def get_req_def list_req_def printed_def wf_SetReq_def wf_GetReq_def wf_ListReq_def
  wf_ExpireReq_def wf_MapReq_def wf_PubReq_def wf_eval

lemmas test_bodies = service_simps set_impl_def get_def delete_impl_def increment_impl_def decrement_impl_def bump_def expire_impl_def
  ttl_def lpush_impl_def rpush_impl_def then_modify_eq on_list_def push_fronts_rev lpop_impl_def rpop_impl_def pop_with_def pop_front_def
  pop_back_def sadd_impl_def smembers_def zadd_impl_def ds_set_def ds_get_def ds_remove_def ds_expire_def ds_ttl_def ds_modify_def
  time_add_def get_text_def stored_def

text \<open>Clocks that allow a lifetime of ten seconds.\<close>

definition clock_fits :: "env \<Rightarrow> bool" where
  "clock_fits e \<longleftrightarrow> clock e + from_secs 10 < 2 ^ 63 * nanos"

lemma test_set_ok: "\<not> cons st \<Longrightarrow> clock_fits e \<Longrightarrow> test_set e st"
  by (simp add: test_set_def test_calls test_bodies clock_fits_def)

lemma test_get_ok: "\<not> cons st \<Longrightarrow> clock_fits e \<Longrightarrow> clock e' < clock e + from_secs 10 \<Longrightarrow> test_get e e' st"
  by (simp add: test_get_def test_calls test_bodies clock_fits_def)

text \<open>What the counting tests use of 64-bit floating point: \<^verbatim>\<open>1 + 1\<close> and \<^verbatim>\<open>2 - 1\<close> in decimal.\<close>

definition counts :: "env \<Rightarrow> bool" where
  "counts e \<longleftrightarrow> map_option (\<lambda>x. env.show_f64 e (f64_inc e x)) (env.parse_f64 e ''1'') = Some ''2''
     \<and> map_option (\<lambda>x. env.show_f64 e (f64_dec e x)) (env.parse_f64 e ''2'') = Some ''1''"

lemma test_delete_ok: "\<not> cons st \<Longrightarrow> clock_fits e \<Longrightarrow> test_delete e e' st"
  by (simp add: test_delete_def test_calls test_bodies clock_fits_def)

lemma test_increment_ok: "\<not> cons st \<Longrightarrow> clock_fits e \<Longrightarrow> clock e' < clock e + from_secs 10 \<Longrightarrow> counts e' \<Longrightarrow> test_increment e e' st"
  by (auto simp: test_increment_def test_calls test_bodies clock_fits_def counts_def)

lemma test_decrement_ok: "\<not> cons st \<Longrightarrow> clock_fits e \<Longrightarrow> clock e' < clock e + from_secs 10 \<Longrightarrow> counts e' \<Longrightarrow> test_decrement e e' st"
  by (auto simp: test_decrement_def test_calls test_bodies clock_fits_def counts_def)

lemma test_expire_ok: "\<not> cons st \<Longrightarrow> clock_fits e' \<Longrightarrow> test_expire e e' st"
  by (simp add: test_expire_def test_calls test_bodies clock_fits_def)

lemma show_digit: "show_nat 9 = ''9''" "show_nat 10 = ''10''"
  by code_simp+

text \<open>The remaining lifetime is printed in whole seconds, so the test needs the clock to have moved, by at most a second.\<close>

lemma test_ttl_ok:
  assumes "\<not> cons st" "clock_fits e" "clock e < clock e'" "clock e' \<le> clock e + nanos"
  shows "test_ttl e e' st"
proof -
  have "(clock e + 10 * nanos - clock e') div nanos = 9"
    using assms(3,4) by (simp add: nanos_def)
  then show ?thesis using assms
    by (simp add: test_ttl_def test_calls test_bodies clock_fits_def from_secs_def show_digit)
qed

lemma test_ttl_same_time: "\<not> cons st \<Longrightarrow> clock_fits e \<Longrightarrow> \<not> test_ttl e e st"
  by (simp add: test_ttl_def test_calls test_bodies clock_fits_def from_secs_def ser_TtlRes_def ser_struct_def show_digit nanos_def)

lemma test_push_ok: "\<not> cons st \<Longrightarrow> test_lpush e st" "\<not> cons st \<Longrightarrow> test_rpush e st"
  by (simp_all add: test_lpush_def test_rpush_def test_calls test_bodies)

lemma test_pop_ok: "\<not> cons st \<Longrightarrow> test_lpop e e' st" "\<not> cons st \<Longrightarrow> test_rpop e e' st"
  by (simp_all add: test_lpop_def test_rpop_def test_calls test_bodies)

lemma test_set_values_ok: "\<not> cons st \<Longrightarrow> test_sadd e st" "\<not> cons st \<Longrightarrow> test_smembers e e' st"
  by (simp_all add: test_sadd_def test_smembers_def test_calls test_bodies)

lemma test_zadd_ok: "\<not> cons st \<Longrightarrow> test_zadd e st"
  by (simp add: test_zadd_def test_calls test_bodies i64_min_def i64_max_def)

text \<open>Two tests fail on a service that has not seen their key: nothing was added to the range, and no line feed is sent.\<close>

lemma rt_MapRange: "wire_str (range_key r) \<Longrightarrow> range_start r \<le> usize_max \<Longrightarrow> range_end r \<le> usize_max \<Longrightarrow>
    de_MapRange (ser_val e (val_MapRange r)) = Done (Inr r)"
  by (cases r) (simp add: de_MapRange_def val_MapRange_def ser_val_struct wire_simps)

lemma rt_SubReq: "wire_str (sub_chan r) \<Longrightarrow> de_SubReq (ser_val e (val_SubReq r)) = Done (Inr r)"
  by (cases r) (simp add: de_SubReq_def val_SubReq_def ser_val_struct wire_simps)

lemma test_zrange_fails: "data (store st) ''key_zrng'' = None \<Longrightarrow> \<not> test_zrange e st"
  by (simp add: test_zrange_def call_fn_eq rpc_func_printed rt_MapRange printed_def zrange_def test_bodies wf_eval)

lemma test_pubsub_fails: "\<not> cons st \<Longrightarrow> chans (pubsub st) ''ps_key'' = None \<Longrightarrow> \<not> test_pubsub e st"
  by (simp add: test_pubsub_def efis_struct_def by_name_def rt_SubReq subscribe_def ps_subscribe_def ref_broadcast_def test_calls
      publish_impl_def ps_publish_def lastn_def)

end
