(* ===== verification/Index_Tests.thy ===== *)
theory Index_Tests
  imports Vector_Index
begin

text \<open>
  The unit tests of \<^verbatim>\<open>efis/src/vector/flat.rs\<close>, run on the model of the index. The literals are the
  single-precision encodings; of the arithmetic, \<open>exact_ops\<close> states the few results the searches need.
\<close>

section \<open>Literals\<close>

abbreviation f0 :: f32 where "f0 \<equiv> 0x00000000"
abbreviation f05 :: f32 where "f05 \<equiv> 0x3F000000"
abbreviation f1 :: f32 where "f1 \<equiv> 0x3F800000"
abbreviation f2 :: f32 where "f2 \<equiv> 0x40000000"
abbreviation f3 :: f32 where "f3 \<equiv> 0x40400000"
abbreviation f4 :: f32 where "f4 \<equiv> 0x40800000"
abbreviation f5 :: f32 where "f5 \<equiv> 0x40A00000"
abbreviation f6 :: f32 where "f6 \<equiv> 0x40C00000"
abbreviation f9 :: f32 where "f9 \<equiv> 0x41100000"

text \<open>Differences, products and sums of these numbers, which single precision represents exactly.\<close>

definition exact_ops :: "f32_ops \<Rightarrow> bool" where
  "exact_ops fo \<longleftrightarrow> f_sub fo f0 f0 = f0 \<and> f_sub fo f1 f0 = f1 \<and> f_sub fo f2 f0 = f2
     \<and> f_mul fo f0 f0 = f0 \<and> f_mul fo f1 f1 = f1 \<and> f_mul fo f2 f2 = f4 \<and> f_mul fo f05 f1 = f05
     \<and> (\<forall>x \<in> {f0, f1, f4, f05}. f_add fo (f_sum_unit fo) x = x \<and> f_add fo x f0 = x)"

section \<open>The tests\<close>

text \<open>The bound \<^verbatim>\<open>1e-6\<close> of the test below is \<^verbatim>\<open>0x358637BD\<close>; magnitudes are ordered as their bits.\<close>

definition new_index :: "nat \<Rightarrow> FlatIndex" where
  "new_index n = \<lparr>dim = n, vecs = [], ids = [], idset = Map.empty\<rparr>"

text \<open>\<^verbatim>\<open>assert!(idx.insert(id, row).is_ok())\<close> for each row, then the rest of the test.\<close>

fun inserting :: "(nat \<times> f32 list) list \<Rightarrow> (FlatIndex \<Rightarrow> bool) \<Rightarrow> FlatIndex \<Rightarrow> bool" where
  "inserting [] k ix = k ix"
| "inserting ((i, v) # rs) k ix =
     finishes (flat_insert i v ix) (\<lambda>r. case r of Inl _ \<Rightarrow> False | Inr ix \<Rightarrow> inserting rs k ix)"

definition test_insert_and_internal_storage :: bool where
  "test_insert_and_internal_storage = inserting [(10, [f1, f2, f3]), (20, [f4, f5, f6])]
     (\<lambda>idx. ids idx = [10, 20] \<and> vecs idx = [f1, f2, f3, f4, f5, f6]) (new_index 3)"

definition test_insert_dimension_mismatch :: bool where
  "test_insert_dimension_mismatch = finishes (flat_insert 1 [f1, f2] (new_index 3)) isl"

definition test_search_exact_match ::
  "f32_ops \<Rightarrow> (nat \<Rightarrow> (nat \<times> f32) list \<Rightarrow> (nat \<times> f32) list) \<Rightarrow> ((nat \<times> f32) list \<Rightarrow> (nat \<times> f32) list) \<Rightarrow> bool" where
  "test_search_exact_match fo sel srt = inserting [(1, [f0, f0, f0]), (2, [f1, f0, f0]), (3, [f2, f0, f0])]
     (\<lambda>idx. finishes (flat_search fo sel srt [f0, f0, f0] 1 L2 idx)
        (\<lambda>res. length res = 1 \<and> fst (res ! 0) = 1 \<and> f32_magnitude (f_sub fo (snd (res ! 0)) f0) < 0x358637BD)) (new_index 3)"

definition test_search_k_neighbors ::
  "f32_ops \<Rightarrow> (nat \<Rightarrow> (nat \<times> f32) list \<Rightarrow> (nat \<times> f32) list) \<Rightarrow> ((nat \<times> f32) list \<Rightarrow> (nat \<times> f32) list) \<Rightarrow> bool" where
  "test_search_k_neighbors fo sel srt = inserting [(1, [f0, f0]), (2, [f1, f0]), (3, [f2, f0])]
     (\<lambda>idx. finishes (flat_search fo sel srt [f0, f0] 2 L2 idx)
        (\<lambda>res. length res = 2 \<and> 1 \<in> set (map fst res) \<and> 2 \<in> set (map fst res))) (new_index 2)"

definition test_search_with_cosine_product ::
  "f32_ops \<Rightarrow> (nat \<Rightarrow> (nat \<times> f32) list \<Rightarrow> (nat \<times> f32) list) \<Rightarrow> ((nat \<times> f32) list \<Rightarrow> (nat \<times> f32) list) \<Rightarrow> bool" where
  "test_search_with_cosine_product fo sel srt = inserting [(10, [f1, f0, f0]), (20, [f05, f0, f0])]
     (\<lambda>idx. finishes (flat_search fo sel srt [f1, f0, f0] 1 Cosine idx) (\<lambda>res. res \<noteq> [] \<and> fst (res ! 0) = 10)) (new_index 3)"

definition test_search_empty_index_returns_empty ::
  "f32_ops \<Rightarrow> (nat \<Rightarrow> (nat \<times> f32) list \<Rightarrow> (nat \<times> f32) list) \<Rightarrow> ((nat \<times> f32) list \<Rightarrow> (nat \<times> f32) list) \<Rightarrow> bool" where
  "test_search_empty_index_returns_empty fo sel srt =
     finishes (flat_search fo sel srt [f1, f2, f3] 5 L2 (new_index 3)) (\<lambda>res. res = [])"

definition test_delete_removes_id :: bool where
  "test_delete_removes_id = inserting [(10, [f1, f1, f1]), (20, [f2, f2, f2]), (30, [f3, f3, f3])]
     (\<lambda>idx. finishes (flat_delete 20 idx) (\<lambda>idx. ids idx = [10, 30] \<and> vecs idx = [f1, f1, f1, f3, f3, f3])) (new_index 3)"

definition test_delete_nonexistent_id_does_nothing :: bool where
  "test_delete_nonexistent_id_does_nothing = inserting [(1, [f9, f9, f9])]
     (\<lambda>idx. finishes (flat_delete 999 idx) (\<lambda>idx. ids idx = [1] \<and> vecs idx = [f9, f9, f9])) (new_index 3)"

section \<open>Outcomes\<close>

lemmas index_eval = new_index_def flat_insert_def flat_delete_def swap_remove_def Let_def

lemma updating_tests:
  "test_insert_and_internal_storage" "test_insert_dimension_mismatch" "test_delete_removes_id"
  "test_delete_nonexistent_id_does_nothing"
  by (simp_all add: test_insert_and_internal_storage_def test_insert_dimension_mismatch_def test_delete_removes_id_def
      test_delete_nonexistent_id_does_nothing_def index_eval numeral_3_eq_3)

lemma test_search_empty_fails: "\<not> test_search_empty_index_returns_empty fo sel srt"
  by (simp add: test_search_empty_index_returns_empty_def flat_search_def new_index_def distances_def chunks.simps)

text \<open>The nearest elements when the distances are strictly ascending.\<close>

lemma left_out_is_farther:
  assumes "mset r \<subseteq># mset ds" "\<forall>x \<in># mset ds - mset r. \<forall>y \<in> set r. dist_key y \<le> dist_key x" "x \<in> set ds" "x \<notin> set r" "y \<in> set r"
  shows "dist_key y \<le> dist_key x"
proof -
  have "count (mset r) x = 0" "0 < count (mset ds) x" using assms(3,4) by (simp_all only: count_mset_0_iff count_greater_zero_iff set_mset_mset not_False_eq_True)
  then have "x \<in># mset ds - mset r" unfolding in_diff_count by linarith
  then show ?thesis using assms(2,5) by blast
qed

lemma nearest_are_first:
  assumes "unstable_sorting sel srt" "no_nan ds" "sorted_wrt (<) (map dist_key ds)" "0 < k" "k \<le> length ds"
  shows "length (srt (take k (sel (k - 1) ds))) = k" "set (take k ds) = set (srt (take k (sel (k - 1) ds)))"
proof -
  let ?r = "srt (take k (sel (k - 1) ds))"
  have t: "length ?r = k" "mset ?r \<subseteq># mset ds" "\<forall>x \<in># mset ds - mset ?r. \<forall>y \<in> set ?r. dist_key y \<le> dist_key x"
    using unstable_sorting.top_k [OF assms(1,2,4,5)] by simp_all
  then show "length ?r = k" by simp
  have less: "dist_key (ds ! i) < dist_key (ds ! j)" if "i < j" "j < length ds" for i j
    using assms(3) that by (simp add: sorted_wrt_iff_nth_less)
  have d: "distinct ds" unfolding distinct_conv_nth using less by (metis linorder_neqE_nat order_less_irrefl)
  then have dr: "distinct ?r" using t(2) distinct_submset by blast
  have sub: "set ?r \<subseteq> set ds" using set_mset_mono [OF t(2)] by simp
  have "set (take k ds) \<subseteq> set ?r"
  proof (rule ccontr)
    assume "\<not> set (take k ds) \<subseteq> set ?r"
    then obtain x where "x \<in> set (take k ds)" "x \<notin> set ?r" by blast
    then obtain i where i: "i < k" "ds ! i \<notin> set ?r" using assms(5) unfolding in_set_conv_nth by auto
    have "ds ! i \<in> set ds" using i assms(5) by simp
    then have far: "dist_key y \<le> dist_key (ds ! i)" if "y \<in> set ?r" for y
      using left_out_is_farther [OF t(2,3) _ i(2) that] by blast
    have "set ?r \<subseteq> (!) ds ` {..<i}"
    proof
      fix y assume y: "y \<in> set ?r"
      then have "y \<in> set ds" using sub by blast
      then obtain j where j: "j < length ds" "y = ds ! j" unfolding in_set_conv_nth by blast
      have "\<not> i < j" using far [OF y] less [of i j] j by auto
      moreover have "i \<noteq> j" using i(2) y j(2) by blast
      ultimately have "j < i" by simp
      then show "y \<in> (!) ds ` {..<i}" using j by simp
    qed
    then have "card (set ?r) \<le> i" using surj_card_le [of "{..<i}" "set ?r" "(!) ds"] by simp
    then show False using distinct_card [OF dr] t(1) i(1) by simp
  qed
  moreover have "card (set (take k ds)) = card (set ?r)"
    using d dr t(1) assms(5) by (simp add: distinct_card)
  ultimately show "set (take k ds) = set ?r" by (simp add: card_subset_eq)
qed

lemma search_distances:
  assumes "0 < dim ix" "0 < k" "distances fo df q ix = ds" "k \<le> length ds" "\<not> list_ex (\<lambda>d. f32_is_nan (snd d)) ds"
  shows "flat_search fo sel srt q k df ix = Done (srt (take k (sel (k - 1) ds)))"
  using assms by (auto simp: flat_search_def Let_def min_def)

lemmas distance_eval = distances_def chunks.simps dist_fn_def l2_distance_def cosine_sim_def Let_def

lemmas f32_eval = f32_is_nan_def f32_magnitude_def f32_key_def f32_neg_def dist_key_def

lemma three_rows:
  assumes "exact_ops fo"
  shows "inserting [(1, [f0, f0, f0]), (2, [f1, f0, f0]), (3, [f2, f0, f0])] k (new_index 3) \<longleftrightarrow>
      k \<lparr>dim = 3, vecs = [f0, f0, f0, f1, f0, f0, f2, f0, f0], ids = [1, 2, 3], idset = [1 \<mapsto> 0, 2 \<mapsto> 1, 3 \<mapsto> Suc (Suc 0)]\<rparr>"
    and "distances fo L2 [f0, f0, f0] \<lparr>dim = 3, vecs = [f0, f0, f0, f1, f0, f0, f2, f0, f0], ids = [1, 2, 3], idset = is\<rparr>
      = [(1, f0), (2, f1), (3, f4)]"
    and "inserting [(1, [f0, f0]), (2, [f1, f0]), (3, [f2, f0])] k (new_index 2) \<longleftrightarrow>
      k \<lparr>dim = 2, vecs = [f0, f0, f1, f0, f2, f0], ids = [1, 2, 3], idset = [1 \<mapsto> 0, 2 \<mapsto> 1, 3 \<mapsto> Suc (Suc 0)]\<rparr>"
    and "distances fo L2 [f0, f0] \<lparr>dim = 2, vecs = [f0, f0, f1, f0, f2, f0], ids = [1, 2, 3], idset = is\<rparr>
      = [(1, f0), (2, f1), (3, f4)]"
  using assms by (simp_all add: index_eval distance_eval exact_ops_def)

lemma two_rows:
  assumes "exact_ops fo"
  shows "inserting [(10, [f1, f0, f0]), (20, [f05, f0, f0])] k (new_index 3) \<longleftrightarrow>
      k \<lparr>dim = 3, vecs = [f1, f0, f0, f05, f0, f0], ids = [10, 20], idset = [10 \<mapsto> 0, 20 \<mapsto> 1]\<rparr>"
    and "distances fo Cosine [f1, f0, f0] \<lparr>dim = 3, vecs = [f1, f0, f0, f05, f0, f0], ids = [10, 20], idset = is\<rparr>
      = [(10, f32_neg f1), (20, f32_neg f05)]"
  using assms by (simp_all add: index_eval distance_eval exact_ops_def)

lemma one_element: "length r = 1 \<Longrightarrow> {x} = set r \<Longrightarrow> r = [x]"
  by (cases r) auto

lemma searching_tests:
  assumes "unstable_sorting sel srt" "exact_ops fo"
  shows "test_search_exact_match fo sel srt" "test_search_k_neighbors fo sel srt" "test_search_with_cosine_product fo sel srt"
proof -
  let ?ds = "[(1 :: nat, f0), (2, f1), (3, f4)]" and ?cs = "[(10 :: nat, f32_neg f1), (20, f32_neg f05)]"
  have keys: "sorted_wrt (<) (map dist_key ?ds)" "sorted_wrt (<) (map dist_key ?cs)" "no_nan ?ds" "no_nan ?cs"
    by (simp_all add: f32_eval no_nan_def)
  note near = nearest_are_first [OF assms(1) keys(3) keys(1)] nearest_are_first [OF assms(1) keys(4) keys(2)]
  have nan: "\<not> list_ex (\<lambda>d. f32_is_nan (snd d)) ?ds" "\<not> list_ex (\<lambda>d. f32_is_nan (snd d)) ?cs"
    by (simp_all add: f32_eval)
  have "srt (take 1 (sel (1 - 1) ?ds)) = [(1, f0)]" using near(1,2) [of 1] by (intro one_element) simp_all
  then show "test_search_exact_match fo sel srt"
    using assms(2) unfolding test_search_exact_match_def three_rows(1) [OF assms(2)]
    by (subst search_distances [OF _ _ three_rows(2) [OF assms(2)] _ nan(1)]) (simp_all add: exact_ops_def f32_eval)
  have "length (srt (take 2 (sel (2 - 1) ?ds))) = 2" "set (srt (take 2 (sel (2 - 1) ?ds))) = {(1, f0), (2, f1)}"
    using near(1,2) [of 2] by simp_all
  then show "test_search_k_neighbors fo sel srt"
    unfolding test_search_k_neighbors_def three_rows(3) [OF assms(2)]
    by (subst search_distances [OF _ _ three_rows(4) [OF assms(2)] _ nan(1)]) simp_all
  have "srt (take 1 (sel (1 - 1) ?cs)) = [(10, f32_neg f1)]" using near(3,4) [of 1] by (intro one_element) simp_all
  then show "test_search_with_cosine_product fo sel srt"
    unfolding test_search_with_cosine_product_def two_rows(1) [OF assms(2)]
    by (subst search_distances [OF _ _ two_rows(2) [OF assms(2)] _ nan(2)]) simp_all
qed

end
