(* ===== verification/Store_Tests.thy ===== *)
theory Store_Tests
  imports Startup
begin

text \<open>
  The unit tests of \<^verbatim>\<open>efis/src/store.rs\<close>, \<^verbatim>\<open>pubsub.rs\<close> and \<^verbatim>\<open>storage/backup.rs\<close>, run on the model. In the tests of the
  store most calls of \<^verbatim>\<open>set\<close> are bound with \<^verbatim>\<open>let _ =\<close> and never awaited; an asynchronous function that is
  never polled does nothing, which is \<open>unawaited\<close>. The lemmas show that those tests cannot pass.
\<close>

section \<open>The store\<close>

definition unawaited :: "('s \<Rightarrow> 'a) \<Rightarrow> 's \<Rightarrow> 's" where
  "unawaited f s = s"

text \<open>\<^verbatim>\<open>DatastoreGuard::new(None, None)\<close> and \<^verbatim>\<open>store()\<close>.\<close>

definition fresh_store :: "8 word list res \<Rightarrow> Datastore run" where
  "fresh_store retrieved = run_map guard_store (guard_new None None retrieved)"

lemma fresh_store_eq [simp]: "fresh_store retrieved = Done ds_new"
  by (cases retrieved) (simp_all add: fresh_store_def guard_new_def guard_from_def)

fun expect_gets :: "bool \<Rightarrow> nat \<Rightarrow> (string \<times> Value option) list \<Rightarrow> Datastore \<Rightarrow> bool" where
  "expect_gets rl t [] ds = True"
| "expect_gets rl t ((k, res) # cs) ds = finishes (ds_get rl t k ds) (\<lambda>(r, ds). r = res \<and> expect_gets rl t cs ds)"

definition test_set_and_get :: "8 word list res \<Rightarrow> bool \<Rightarrow> nat \<Rightarrow> bool" where
  "test_set_and_get retrieved rl t = finishes (fresh_store retrieved) (\<lambda>ds.
     let vals = [(''key1'', Text ''value1'', None), (''key2'', Text ''value2'', Some (from_secs 2)), (''key3'', List [''hello''], None),
           (''key4'', Value.Set {''6.13''}, None), (''Key5'', SortedSet [(1, ''geez'')], None)];
         ds = fold (\<lambda>(k, v, d). unawaited (ds_set t k v d)) vals ds
     in expect_gets rl (t + from_secs 4)
          [(''key1'', Some (Text ''value1'')), (''key2'', None), (''key3'', Some (List [''hello''])),
           (''key4'', Some (Value.Set {''6.13''})), (''Key5'', Some (SortedSet [(1, ''geez'')]))] ds)"

definition test_remove :: "8 word list res \<Rightarrow> nat \<Rightarrow> bool" where
  "test_remove retrieved t = finishes (fresh_store retrieved) (\<lambda>ds.
     let ds = unawaited (ds_set t ''key1'' (Text ''value1'') None) ds;
         (result, ds) = ds_remove ''key1'' ds
     in is_ok result \<and> isl (fst (ds_remove ''non_existent_key'' ds)))"

text \<open>Here the second \<^verbatim>\<open>set\<close> is awaited.\<close>

definition test_expire_and_ttl :: "8 word list res \<Rightarrow> bool \<Rightarrow> nat \<Rightarrow> bool" where
  "test_expire_and_ttl retrieved rl t = finishes (fresh_store retrieved) (\<lambda>ds.
     let ds = unawaited (ds_set t ''key1'' (Text ''value1'') (Some (from_secs 2))) ds in
     finishes (ds_set t ''key2'' (Text ''value2'') None ds) (\<lambda>(_, ds).
     finishes (ds_ttl rl t ''key1'' ds) (\<lambda>(r, ds). is_ok r \<and>
     finishes (ds_ttl rl t ''key2'' ds) (\<lambda>(r, ds). is_ok r \<and>
     finishes (ds_ttl rl (t + from_secs 4) ''key1'' ds) (\<lambda>(r, ds). isl r \<and>
     finishes (ds_get rl (t + from_secs 4) ''key1'' ds) (\<lambda>(v, _). v = None))))))"

definition test_modify_existing_key :: "8 word list res \<Rightarrow> bool \<Rightarrow> nat \<Rightarrow> bool" where
  "test_modify_existing_key retrieved rl t = finishes (fresh_store retrieved) (\<lambda>ds.
     let ds = unawaited (ds_set t ''key'' (Text ''value'') None) ds in
     finishes (ds_modify ''key'' (\<lambda>v c. Done (Inr (), case v of Text _ \<Rightarrow> Text ''new_value'' | _ \<Rightarrow> v, c)) () ds) (\<lambda>(res, _, ds).
       is_ok res \<and> finishes (ds_get rl t ''key'' ds) (\<lambda>(v, _). v = Some (Text ''new_value''))))"

text \<open>\<open>dec\<close> is \<^verbatim>\<open>decode\<close> of \<^verbatim>\<open>serializer.rs\<close> at the type of the contents.\<close>

definition test_encode_decode :: "(8 word list \<Rightarrow> (string \<rightharpoonup> Item) res) \<Rightarrow> 8 word list res \<Rightarrow> nat \<Rightarrow> bool" where
  "test_encode_decode dec retrieved t = finishes (fresh_store retrieved) (\<lambda>ds.
     let ds = unawaited (ds_set t ''key'' (Text ''value'') None) ds;
         ds = unawaited (ds_set t ''key1'' (Text ''value1'') None) ds;
         test_data = [''key'' \<mapsto> \<lparr>item_value = Text ''value'', item_expiry = None\<rparr>, ''key1'' \<mapsto> \<lparr>item_value = Text ''value1'', item_expiry = None\<rparr>]
     in case ds_encode ds of Inl _ \<Rightarrow> False | Inr encoded \<Rightarrow> dec encoded = Inr test_data)"

text \<open>Within the two seconds of the test the task ticks at least once: \<open>ticks\<close> are the random numbers of its saves.\<close>

definition test_run_backup :: "8 word list res \<Rightarrow> int list \<Rightarrow> dir \<Rightarrow> bool" where
  "test_run_backup retrieved ticks d = finishes (guard_new (Some (from_secs 1)) (Some ''./backup'') retrieved) (\<lambda>g.
     finishes (backup_task (map (\<lambda>r. (Tick no_faults r, unawaited (ds_set 0 ''data'' (Text ''data'') None) (guard_store g))) ticks) d)
       (\<lambda>d. d FILE_NAME \<noteq> None))"

lemma unawaited_tests_fail:
  "\<not> test_set_and_get retrieved rl t" "\<not> test_remove retrieved t" "\<not> test_expire_and_ttl retrieved rl t"
  "\<not> test_modify_existing_key retrieved rl t"
  by (simp_all add: test_set_and_get_def test_remove_def test_expire_and_ttl_def test_modify_existing_key_def unawaited_def ds_get_def
      ds_remove_def ds_set_def ds_ttl_def ds_modify_def ds_new_def)

text \<open>Decoding no bytes is an error for any encoding that writes the number of entries first.\<close>

lemma test_encode_decode_fails: "isl (dec []) \<Longrightarrow> \<not> test_encode_decode dec retrieved t"
  by (auto simp: test_encode_decode_def ds_encode_def)

lemma backup_no_faults: "\<exists>d'. backup no_faults r ds d = Done d' \<and> d' FILE_NAME \<noteq> None"
  by (simp add: backup_def ds_encode_def backup_save_def no_faults_def Let_def)

lemma test_run_backup_ok: "ticks \<noteq> [] \<Longrightarrow> test_run_backup retrieved ticks d"
proof -
  assume t: "ticks \<noteq> []"
  have "finishes (backup_task (map (\<lambda>r. (Tick no_faults r, ds)) ticks) d) (\<lambda>d. d FILE_NAME \<noteq> None)" for ds
    using t
  proof (induction ticks arbitrary: d)
    case (Cons r ticks)
    obtain d' where "backup no_faults r ds d = Done d'" "d' FILE_NAME \<noteq> None" using backup_no_faults [of r ds d] by auto
    then show ?case using Cons.IH [of d'] by (cases "ticks = []") simp_all
  qed simp
  then show ?thesis
    by (cases retrieved) (simp_all add: test_run_backup_def guard_new_def guard_from_def run_backup_def unawaited_def)
qed

section \<open>Publish-subscribe\<close>

text \<open>Subscribe, publish, and look at the first message and the reported number of receivers.\<close>

definition test_subscribe :: "ref_chan PubSub \<Rightarrow> bool" where
  "test_subscribe ps =
     (let (rx, ps) = ps_subscribe ref_broadcast ''test_key'' ps;
          (result, ps) = ps_publish ref_broadcast ''test_key'' ''test_value'' ps
      in (case chans ps ''test_key'' of None \<Rightarrow> False | Some c \<Rightarrow> hd (rc_queues c ! rx) = ''test_value'') \<and> result = 1)"

definition test_subscribe_existing_key :: bool where
  "test_subscribe_existing_key = test_subscribe ps_new"

definition test_subscribe_new_key :: bool where
  "test_subscribe_new_key = test_subscribe ps_new"

definition test_publish_nonexistent_key :: bool where
  "test_publish_nonexistent_key \<longleftrightarrow> fst (ps_publish ref_broadcast ''test_key'' ''test_value'' ps_new) = 0"

lemma pubsub_tests: "test_subscribe_existing_key" "test_subscribe_new_key" "test_publish_nonexistent_key"
  by (simp_all add: test_subscribe_existing_key_def test_subscribe_new_key_def test_publish_nonexistent_key_def test_subscribe_def
      ps_subscribe_def ps_publish_def ps_new_def ref_broadcast_def lastn_def)

section \<open>Backups\<close>

definition test_file_backup_repo_save_and_retrieve :: "int \<Rightarrow> bytes \<Rightarrow> bool" where
  "test_file_backup_repo_save_and_retrieve r contents =
     (case repo_new False (Some Map.empty) of None \<Rightarrow> False | Some d \<Rightarrow>
        let (save_result, d) = backup_save no_faults r contents d; retrieve_result = backup_retrieve False d
        in is_ok save_result \<and> is_ok retrieve_result \<and> retrieve_result = Inr contents)"

definition test_file_backup_repo_retrieve_no_backup :: bool where
  "test_file_backup_repo_retrieve_no_backup =
     (case repo_new False (Some Map.empty) of None \<Rightarrow> False | Some d \<Rightarrow> isl (backup_retrieve False d))"

lemma backup_tests: "test_file_backup_repo_save_and_retrieve r contents" "test_file_backup_repo_retrieve_no_backup"
  by (simp_all add: test_file_backup_repo_save_and_retrieve_def test_file_backup_repo_retrieve_no_backup_def repo_new_def backup_save_def
      backup_retrieve_def no_faults_def overwrite_def Let_def)

end
