(* ===== verification/Raft_Tests.thy ===== *)
theory Raft_Tests
  imports Log_Storage
begin

text \<open>
  The unit tests of \<^verbatim>\<open>efis/src/consensus.rs\<close> (on the mock storage they define) and of
  \<^verbatim>\<open>efis/src/storage/consensus.rs\<close>, run on the model: each is true when its assertions hold.
\<close>

section \<open>The consensus module\<close>

definition make_consensus :: "string \<Rightarrow> (PersistentState \<times> LogEntry list) Consensus" where
  "make_consensus i = consensus_new mock_storage i (\<lparr>ps_current_term = 0, ps_voted_for = None, ps_last_applied = None\<rparr>, [])"

definition unknown_entry :: "nat \<Rightarrow> LogEntry" where
  "unknown_entry t = \<lparr>le_command = Unknown, le_term = t\<rparr>"

definition test_restore_state :: bool where
  "test_restore_state =
     (let persisted = \<lparr>ps_current_term = 42, ps_voted_for = Some ''5'', ps_last_applied = None\<rparr>;
          ls = [unknown_entry 1, unknown_entry 2];
          storage = snd (st_append mock_storage ls (persisted, []));
          c = consensus_new mock_storage ''1'' storage
      in current_term c = ps_current_term persisted \<and> voted_for c = ps_voted_for persisted \<and> logs c = ls)"

definition test_request_vote_granted_when_up_to_date_and_not_voted :: "world \<Rightarrow> bool" where
  "test_request_vote_granted_when_up_to_date_and_not_voted w =
     (let c = make_consensus ''1'';
          c = c\<lparr>current_term := 1, logs := logs c @ [unknown_entry 1]\<rparr>;
          (res, c) = request_vote mock_storage w
            \<lparr>rv_term = 1, rv_candidate_id = ''2'', rv_last_log_index = 0, rv_last_log_term = 1\<rparr> c
      in case res of Inl _ \<Rightarrow> False | Inr res \<Rightarrow> rvr_voted res \<and> voted_for c = Some ''2'')"

definition test_append_entries_accepts_and_appends_entries_and_updates_commit :: "world \<Rightarrow> bool" where
  "test_append_entries_accepts_and_appends_entries_and_updates_commit w =
     (let c = make_consensus ''1'';
          req = \<lparr>ae_term = 1, ae_leader = ''2'', ae_prev_log_index = None, ae_prev_log_term = None,
                 ae_entries = [unknown_entry 1], ae_leader_commit = Some 0\<rparr>
      in logs c = [] \<and> finishes (append_entries mock_storage w req (c\<lparr>current_term := 1\<rparr>)) (\<lambda>(res, c).
           case res of Inl _ \<Rightarrow> False
           | Inr res \<Rightarrow> aer_success res \<and> length (logs c) = 1 \<and> le_command (logs c ! 0) = Unknown \<and> commit_index c = Some 0))"

text \<open>The channel of the test has just been made, so what it receives is what this call sent.\<close>

definition test_send_commits_sends_committed_entries :: bool where
  "test_send_commits_sends_committed_entries =
     (let c = make_consensus ''1'';
          c = c\<lparr>logs := logs c @ [unknown_entry 1, unknown_entry 1, unknown_entry 1], last_applied := Some 0,
                commit_index := Some 2, current_term := 1, commit_chan := []\<rparr>
      in finishes (send_commits c) (\<lambda>c. case commit_chan c of
           e1 # e2 # _ \<Rightarrow> ce_command e1 = Unknown \<and> ce_index e1 = 1 \<and> ce_term e1 = 1
             \<and> ce_command e2 = Unknown \<and> ce_index e2 = 2 \<and> ce_term e2 = 1 \<and> last_applied c = Some 2
         | _ \<Rightarrow> False))"

text \<open>\<^verbatim>\<open>_submit\<close> returns the index of the last entry.\<close>

definition test_submit_appends_log_and_persists :: bool where
  "test_submit_appends_log_and_persists =
     (let c = consensus_new mock_storage ''3'' (\<lparr>ps_current_term = 7, ps_voted_for = None, ps_last_applied = None\<rparr>, [])
      in finishes (submit_entry mock_storage Unknown (c\<lparr>state := Leader, current_term := 7\<rparr>))
           (\<lambda>c. length (logs c) - 1 = 0 \<and> logs c \<noteq> [] \<and> le_command (last (logs c)) = Unknown))"

definition test_serde :: "f32_text \<Rightarrow> bool" where
  "test_serde ft =
     (let cmd = Command.Set \<lparr>set_key = ''a'', set_value = ''i'', set_exp = None\<rparr>;
          req = \<lparr>ae_term = 1, ae_leader = ''4'', ae_prev_log_index = None, ae_prev_log_term = None,
                 ae_entries = [\<lparr>le_command = cmd, le_term = 1\<rparr>], ae_leader_commit = None\<rparr>;
          res = \<lparr>aer_term = 1, aer_success = True, aer_conflict_index = Some 1, aer_conflict_term = Some 2\<rparr>
      in finishes (de_Command ft (ser_Command ft cmd)) (\<lambda>de. \<not> isl de)
         \<and> finishes (de_AppendEntries ft (ser_AppendEntries ft req)) (\<lambda>de. \<not> isl de)
         \<and> finishes (de_AppendEntriesReply (ser_AppendEntriesReply res)) (\<lambda>de. \<not> isl de))"

lemmas node_eval = make_consensus_def consensus_new_def restore_state_def mock_storage_def unknown_entry_def Let_def

lemma max_not_zero: "0 \<noteq> usize_max" "usize_max \<noteq> 0"
  by (simp_all add: usize_max_def)

lemma consensus_tests:
  "test_restore_state" "test_request_vote_granted_when_up_to_date_and_not_voted w"
  "test_append_entries_accepts_and_appends_entries_and_updates_commit w"
  "test_send_commits_sends_committed_entries" "test_submit_appends_log_and_persists"
  by (simp_all add: test_restore_state_def test_request_vote_granted_when_up_to_date_and_not_voted_def
      test_append_entries_accepts_and_appends_entries_and_updates_commit_def test_send_commits_sends_committed_entries_def
      test_submit_appends_log_and_persists_def request_vote_def last_log_def append_entries_def ae_follow_def ae_commit_def
      prev_ok_def splice_entries_def insert_at_def send_self_def INBOX_CAP_def send_commits_def slice_range_def max_not_zero
      submit_entry_def node_eval numeral_2_eq_2 numeral_3_eq_3)

lemma test_serde_ok:
  assumes "f32_codec ft"
  shows "test_serde ft"
proof -
  let ?q = "\<lparr>set_key = ''a'', set_value = ''i'', set_exp = None\<rparr>"
  let ?ae = "\<lparr>ae_term = 1, ae_leader = ''4'', ae_prev_log_index = None, ae_prev_log_term = None,
    ae_entries = [\<lparr>le_command = Command.Set ?q, le_term = 1\<rparr>], ae_leader_commit = None\<rparr>"
  have wf: "wf_Command ft (Command.Set ?q)" by (simp add: wf_SetReq_def wf_eval parens_ok_def ser_SetReq_def ser_struct_def ser_option_def)
  moreover have "wf_AppendEntries ft ?ae" using wf by (simp add: wf_AppendEntries_def wf_LogEntry_def wf_eval)
  ultimately show ?thesis
    using f32_codec.rt_Command [OF assms, of "Command.Set ?q"] f32_codec.rt_AppendEntries [OF assms, of ?ae]
      rt_AppendEntriesReply [of "\<lparr>aer_term = 1, aer_success = True, aer_conflict_index = Some 1, aer_conflict_term = Some 2\<rparr>"]
    by (simp add: test_serde_def usize_max_def)
qed

section \<open>The file storage\<close>

text \<open>On the files \<open>meta\<close> and \<open>log\<close> that earlier runs left in the directory.\<close>

definition test_store_restore :: "codec \<Rightarrow> octets option \<Rightarrow> octets \<Rightarrow> bool" where
  "test_store_restore cd meta log =
     (let test_state = \<lparr>ps_current_term = 1, ps_voted_for = Some ''3'', ps_last_applied = None\<rparr>;
          ls = [unknown_entry 10];
          storage = storage_new cd meta log;
          (r1, storage) = storage_store cd no_log_faults test_state storage;
          (r2, storage) = storage_append cd no_log_faults ls storage
      in \<not> isl r1 \<and> \<not> isl r2 \<and> (case fst (storage_restore cd storage) of Inl _ \<Rightarrow> False
           | Inr (restored_state, restored_logs) \<Rightarrow> restored_state = test_state \<and> restored_logs \<noteq> [] \<and> last restored_logs = hd ls))"

text \<open>It passes in an empty directory, when the cache of one entry is read as that entry.\<close>

lemma test_store_restore_fresh:
  assumes "binary_codec cd" "encodable cd (unknown_entry 10)" "cache_iter cd Map.empty = []" "\<And>i e. cache_iter cd [i \<mapsto> e] = [e]"
  shows "test_store_restore cd None []"
proof -
  obtain bs where "enc_meta cd \<lparr>ps_current_term = 1, ps_voted_for = Some ''3'', ps_last_applied = None\<rparr> = Inr bs"
      "dec_meta cd bs = Inr \<lparr>ps_current_term = 1, ps_voted_for = Some ''3'', ps_last_applied = None\<rparr>"
    using binary_codec.meta_rt [OF assms(1)] by blast
  then show ?thesis using assms(2-4)
    by (simp add: test_store_restore_def storage_new_def warm_cache_def storage_restore_def read_meta_def read_log.simps storage_store_def
        write_metadata_optimized_def storage_append_def append_batch_def flush_def no_log_faults_def encodable_def Let_def)
qed

end
