(* ===== verification/Rpc_Tests.thy ===== *)
theory Rpc_Tests
  imports Rpc_Macros Derive_Macro
begin

text \<open>
  The unit tests of \<^verbatim>\<open>efis/src/rpc/mod.rs\<close>, \<^verbatim>\<open>rpc/dispatcher.rs\<close> and \<^verbatim>\<open>rpc/client.rs\<close>, run on the model: structures declared
  by the tests go through the model of the derive macro, their functions through that of \<^verbatim>\<open>rpc_func\<close>,
  \<^verbatim>\<open>rpc_stream\<close> and \<^verbatim>\<open>rpc_impl\<close>. The text of the two floating-point literals is a hypothesis.
\<close>

section \<open>The text format\<close>

abbreviation plain_field :: "string \<Rightarrow> string \<Rightarrow> ty \<Rightarrow> string \<times> syn_type \<times> ty" where
  "plain_field k s t \<equiv> (k, TypePath [s], t)"

definition ty_Inner :: ty where
  "ty_Inner = TStruct [plain_field ''a'' ''usize'' TUsize, plain_field ''b'' ''bool'' TBool]"

definition ty_Test :: ty where
  "ty_Test = TStruct [plain_field ''a'' ''i32'' TI32, plain_field ''b'' ''f64'' TF64, plain_field ''c'' ''String'' TString,
     plain_field ''d'' ''Vec'' (TVec ty_Inner), plain_field ''e'' ''Inner'' ty_Inner, plain_field ''f'' ''Option'' (TOption TUsize)]"

definition inner :: "nat \<Rightarrow> bool \<Rightarrow> 'c val" where
  "inner a b = VStruct [(''a'', VUsize a), (''b'', VBool b)]"

definition test_struct :: "64 word \<Rightarrow> 'c val" where
  "test_struct x = VStruct [(''a'', VI32 2), (''b'', VF64 x), (''c'', VString ''hey''), (''d'', VVec [inner 1 True, inner 2 False]),
     (''e'', inner 1 True), (''f'', VOption None)]"

text \<open>The last assertions, a cast to \<^verbatim>\<open>Any\<close> and back, are about the language.\<close>

definition test_macro :: "'c wire_env \<Rightarrow> 64 word \<Rightarrow> bool" where
  "test_macro e x =
     (let serialized = ser_val e (test_struct x)
      in serialized = ''{a=2 b=0.2 c=hey d=[{a=1 b=true},{a=2 b=false}] e={a=1 b=true}}''
         \<and> finishes (de_val e ty_Test serialized) (\<lambda>res. res = Inr (test_struct x)))"

section \<open>The dispatcher\<close>

definition ty_Req :: ty where
  "ty_Req = TStruct [plain_field ''a'' ''i32'' TI32, plain_field ''b'' ''f64'' TF64, plain_field ''c'' ''String'' TString,
     plain_field ''d'' ''Vec'' (TVec TI32)]"

definition res_of :: "int \<Rightarrow> 'c val" where
  "res_of i = VStruct [(''a'', VI32 i)]"

fun field_a :: "'c val \<Rightarrow> int" where
  "field_a (VStruct ((_, VI32 i) # _)) = i"
| "field_a _ = 0"

text \<open>The free function and the method of the same body, and the stream of \<^verbatim>\<open>0..req.a\<close>.\<close>

definition rpc_test_fn :: "'c wire_env \<Rightarrow> unit handler" where
  "rpc_test_fn e = rpc_func (de_val e ty_Req) (ser_val e) (\<lambda>req st. Done (Inr (res_of 12), st))"

definition counting_stream :: "'c wire_env \<Rightarrow> ty \<Rightarrow> (unit, string list) stream_handler" where
  "counting_stream e t text st = run_bind (de_val e t text) (\<lambda>r. case r of
     Inl err \<Rightarrow> Done (Inl (Deserialize err), st)
   | Inr req \<Rightarrow> Done (Inr (rpc_stream_out (ser_val e) (map (\<lambda>i. res_of (int i)) [0..<nat (field_a req)])), st))"

definition test_items :: "item_fn list" where
  "test_items = [item ''singleton'' [] [Typed ''Self''] (Some ''&Self''),
     item ''rpc_fn'' [''rpc_func''] [Receiver, Typed ''Req''] (Some ''Result<Res, RpcError>''),
     item ''rpc_stream_fn'' [''rpc_stream''] [Receiver, Typed ''Req''] (Some ''Result<mpsc::Receiver<Res>, RpcError>'')]"

definition test_rpc_struct :: "'c wire_env \<Rightarrow> (unit, string list) rpc_struct" where
  "test_rpc_struct e = \<lparr>st_fns = by_name [(''rpc_fn'', rpc_test_fn e)] (\<lambda>_ _. Panic),
     st_streams = by_name [(''rpc_stream_fn'', counting_stream e ty_Req)] (\<lambda>_ _. Panic)\<rparr>"

definition test_dispatcher_registration :: "'c wire_env \<Rightarrow> bool \<Rightarrow> string option \<Rightarrow> bool" where
  "test_dispatcher_registration e led leader =
     (let dis = register_struct (register_fns led leader (test_rpc_struct e) test_items)
            (register_fn ''test'' (rpc_test_fn e) dispatcher_new)
      in finishes (dispatch_rpc dis ''test a=123 b=32.3 c=hey d=[1,2]'' ()) (\<lambda>(res, _). res = Inr ''{a=12}'')
         \<and> finishes (dispatch_rpc dis ''rpc_fn {a=123 b=32.3 c=hey d=[1,2]}'' ()) (\<lambda>(res, _). res = Inr ''{a=12}'')
         \<and> finishes (dispatch_stream dis ''rpc_stream_fn {a=4 b=32.3 c=hey d=[1,2]}'' ())
             (\<lambda>(res, _). case res of Inl _ \<Rightarrow> False | Inr vals \<Rightarrow> 5 = length vals))"

section \<open>Client and server\<close>

definition ty_One :: ty where
  "ty_One = TStruct [plain_field ''a'' ''i32'' TI32]"

text \<open>Doubling an \<^verbatim>\<open>i32\<close> panics on overflow in a test build.\<close>

definition doubling_fn :: "'c wire_env \<Rightarrow> unit handler" where
  "doubling_fn e = rpc_func (de_val e ty_One) (ser_val e) (\<lambda>req st.
     if i32_min \<le> 2 * field_a req \<and> 2 * field_a req \<le> i32_max then Done (Inr (res_of (2 * field_a req)), st) else Panic)"

definition failing_fn :: "'c wire_env \<Rightarrow> unit handler" where
  "failing_fn e = rpc_func (de_val e ty_One) (ser_val e) (\<lambda>req st. Done (Inl (Internal ''error''), st))"

definition run_server :: "'c wire_env \<Rightarrow> (unit, string list) RpcServer" where
  "run_server e = server_register_stream_fn ''test_stream'' (counting_stream e ty_One)
     (server_register_fn ''test_err'' (failing_fn e) (server_register_fn ''test'' (doubling_fn e) server_new))"

text \<open>One call over a connection: what the handler writes is what the client reads.\<close>

definition lines_socket :: "string list \<Rightarrow> socket" where
  "lines_socket ls = \<lparr>reads = map (\<lambda>l. Inr (l @ [newline])) ls, writes_left = 1, sent = []\<rparr>"

definition call_server :: "'c wire_env \<Rightarrow> string \<Rightarrow> string \<Rightarrow> ((ClientError + 'c val) \<Rightarrow> bool) \<Rightarrow> bool" where
  "call_server e m req k = finishes (handle_line (server_dispatcher (run_server e)) (m @ '' '' @ req) ()) (\<lambda>(rep, _).
     case rep of Streaming _ \<Rightarrow> False
     | Line res \<Rightarrow> finishes (process_unary (call_payload m req) (lines_socket [res])) (\<lambda>(raw, _).
         finishes (call_result (de_val e ty_One) raw) k))"

definition call_stream_server :: "'c wire_env \<Rightarrow> string \<Rightarrow> string \<Rightarrow> ('c val list \<Rightarrow> bool) \<Rightarrow> bool" where
  "call_stream_server e m req k = finishes (handle_line (server_dispatcher (run_server e)) (m @ '' '' @ req) ()) (\<lambda>(rep, _).
     case rep of Line _ \<Rightarrow> False
     | Streaming msgs \<Rightarrow> finishes (process_stream (\<lambda>_. True) (call_payload m req) (lines_socket (fst (stream_out (\<lambda>_. True) [] msgs True))))
         (\<lambda>(raws, _, _). finishes (stream_items (de_val e ty_One) raws) k))"

definition test_simple_req :: "'c wire_env \<Rightarrow> bool" where
  "test_simple_req e =
     (let req = ser_val e (res_of 12 :: 'c val)
      in call_server e ''test'' req (\<lambda>res. case res of Inl _ \<Rightarrow> False | Inr v \<Rightarrow> field_a v = 12 * 2)
         \<and> call_server e ''test_err'' req isl
         \<and> call_stream_server e ''test_stream'' req (\<lambda>vals. 12 = length vals))"

section \<open>Outcomes\<close>

lemmas printing = ser_val_struct ser_struct_def ser_i32_def ser_usize_def ser_bool_def ser_string_def ser_vec_def ser_option_def

text \<open>What the scanner finds in the texts of the tests, and the scalars in them.\<close>

lemma req_fields:
  "list_all (\<lambda>t. map (de_struct t) [''a'', ''b'', ''c'', ''d''] = [Some ''123'', Some ''32.3'', Some ''hey'', Some ''[1,2]''])
     [''a=123 b=32.3 c=hey d=[1,2]'', ''{a=123 b=32.3 c=hey d=[1,2]}'']"
  "map (de_struct ''{a=4 b=32.3 c=hey d=[1,2]}'') [''a'', ''b'', ''c'', ''d''] = [Some ''4'', Some ''32.3'', Some ''hey'', Some ''[1,2]'']"
  by code_simp+

lemma test_fields:
  "map (de_struct ''{a=2 b=0.2 c=hey d=[{a=1 b=true},{a=2 b=false}] e={a=1 b=true}}'') [''a'', ''b'', ''c'', ''d'', ''e'', ''f'']
     = [Some ''2'', Some ''0.2'', Some ''hey'', Some ''[{a=1 b=true},{a=2 b=false}]'', Some ''{a=1 b=true}'', None]"
  "map (de_struct ''{a=1 b=true}'') [''a'', ''b''] = [Some ''1'', Some ''true'']"
  "map (de_struct ''{a=2 b=false}'') [''a'', ''b''] = [Some ''2'', Some ''false'']"
  by code_simp+

lemma digits: "show_nat 1 = ''1''" "show_nat (Suc 0) = ''1''" "show_nat 2 = ''2''" "show_int 1 = ''1''" "show_int 2 = ''2''"
    "show_int 4 = ''4''" "show_int 12 = ''12''" "show_int 24 = ''24''" "show_int 123 = ''123''"
  by code_simp+

lemma number_texts:
  "de_usize ''1'' = Done (Inr 1)" "de_usize ''2'' = Done (Inr 2)" "de_i32 ''1'' = Done (Inr 1)" "de_i32 ''2'' = Done (Inr 2)"
  "de_i32 ''4'' = Done (Inr 4)" "de_i32 ''12'' = Done (Inr 12)" "de_i32 ''24'' = Done (Inr 24)" "de_i32 ''123'' = Done (Inr 123)"
  using de_ser_scalars(1) [of 1] de_ser_scalars(1) [of 2] de_ser_scalars(5) [of 1] de_ser_scalars(5) [of 2] de_ser_scalars(5) [of 4]
    de_ser_scalars(5) [of 12] de_ser_scalars(5) [of 24] de_ser_scalars(5) [of 123]
  by (simp_all add: ser_usize_def ser_i32_def usize_max_def i32_min_def i32_max_def digits)

lemma scalar_texts: "de_string ''hey'' = Done (Inr ''hey'')" "de_bool ''true'' = Done (Inr True)" "de_bool ''false'' = Done (Inr False)"
  by code_simp+

text \<open>The elements the scanner finds in a bracketed text.\<close>

definition elements :: "string \<Rightarrow> string list" where
  "elements s = vec_loop [] [] 0 False (rev (dropWhile ((=) (CHR '']'')) (rev (dropWhile ((=) (CHR ''['')) (trim s)))))"

lemma de_vec_elements:
  assumes "elements s = t # ts"
  shows "de_vec de s = collect de (t # ts)"
proof -
  let ?inner = "rev (dropWhile ((=) (CHR '']'')) (rev (dropWhile ((=) (CHR ''['')) (trim s))))"
  have v: "vec_loop [] [] 0 False ?inner = t # ts" using assms by (simp only: elements_def)
  have "vec_loop [] [] 0 False [] = []" by code_simp
  then have "?inner \<noteq> []" using v by force
  then show ?thesis unfolding de_vec_def Let_def v by (simp only: if_False)
qed

lemma element_texts:
  "elements ''[1,2]'' = [''1'', ''2'']" "elements ''[{a=1 b=true},{a=2 b=false}]'' = [''{a=1 b=true}'', ''{a=2 b=false}'']"
  by code_simp+

lemmas vec_texts = element_texts [THEN de_vec_elements]

lemmas reading = de_val_struct de_field_def de_f64_def de_map_err_def number_texts scalar_texts vec_texts collect_Cons lift_done

lemma read_req:
  assumes "parse_f64 e ''32.3'' = Inr x"
  shows "list_all (\<lambda>t. \<exists>v. de_val e ty_Req t = Done (Inr v)) [''a=123 b=32.3 c=hey d=[1,2]'', ''{a=123 b=32.3 c=hey d=[1,2]}'']"
    and "\<exists>v. de_val e ty_Req ''{a=4 b=32.3 c=hey d=[1,2]}'' = Done (Inr v) \<and> field_a v = 4"
  using assms req_fields
  by (simp_all add: ty_Req_def reading)

lemma test_macro_ok:
  assumes "show_f64 e x = ''0.2''" "parse_f64 e ''0.2'' = Inr x"
  shows "test_macro e x"
proof -
  have i: "de_val e ty_Inner ''{a=1 b=true}'' = Done (Inr (inner 1 True))" "de_val e ty_Inner ''{a=2 b=false}'' = Done (Inr (inner 2 False))"
    using test_fields(2,3) by (simp_all add: ty_Inner_def inner_def reading)
  have "ser_val e (test_struct x) = ''{a=2 b=0.2 c=hey d=[{a=1 b=true},{a=2 b=false}] e={a=1 b=true}}''"
    using assms(1) by (simp add: test_struct_def inner_def printing digits)
  then show ?thesis
    using assms(2) test_fields(1)
    by (simp add: test_macro_def test_struct_def ty_Test_def reading i)
qed

lemma test_dispatcher_registration_ok:
  assumes "parse_f64 e ''32.3'' = Inr x"
  shows "test_dispatcher_registration e led leader"
proof -
  define d where "d = register_struct (register_fns led leader (test_rpc_struct e) test_items)
    (register_fn ''test'' (rpc_test_fn e) dispatcher_new)"
  have d: "rpcs d ''test'' = Some (rpc_test_fn e)" "rpcs d ''rpc_fn'' = Some (rpc_test_fn e)"
      "streams d ''rpc_stream_fn'' = Some (counting_stream e ty_Req)" "middlewares d = []"
    by (simp_all add: d_def register_struct_def register_fns_def test_items_def expand_block test_rpc_struct_def by_name_def register_fn_def
        register_stream_fn_def dispatcher_new_def)
  obtain v w u where r: "de_val e ty_Req ''a=123 b=32.3 c=hey d=[1,2]'' = Done (Inr v)"
      "de_val e ty_Req ''{a=123 b=32.3 c=hey d=[1,2]}'' = Done (Inr w)"
      "de_val e ty_Req ''{a=4 b=32.3 c=hey d=[1,2]}'' = Done (Inr u)" "field_a u = 4"
    using read_req [OF assms] by auto
  have p: "ser_val e (res_of 12) = ''{a=12}''" by (simp add: res_of_def printing digits)
  have "dispatch_rpc d (''test'' @ '' '' @ ''a=123 b=32.3 c=hey d=[1,2]'') () = Done (Inr ''{a=12}'', ())"
      "dispatch_rpc d (''rpc_fn'' @ '' '' @ ''{a=123 b=32.3 c=hey d=[1,2]}'') () = Done (Inr ''{a=12}'', ())"
    by (subst dispatch_rpc_parts; simp add: d trimmed_def is_whitespace_def rpc_test_fn_def rpc_func_def r p)+
  moreover have "\<exists>vals. dispatch_stream d (''rpc_stream_fn'' @ '' '' @ ''{a=4 b=32.3 c=hey d=[1,2]}'') () = Done (Inr vals, ()) \<and> length vals = 5"
    by (subst dispatch_stream_parts; simp add: d trimmed_def is_whitespace_def counting_stream_def rpc_stream_out_def r)
  ultimately show ?thesis unfolding test_dispatcher_registration_def d_def [symmetric] Let_def by auto
qed

text \<open>The one-field structure of the client's test.\<close>

lemma print_one: "ser_val e (res_of i) = ''{a='' @ show_int i @ ''}''"
  using scalars_not_None(5) [of i] by (simp add: res_of_def ser_val_struct ser_struct_def ser_i32_def)

lemma read_one: "i32_min \<le> i \<Longrightarrow> i \<le> i32_max \<Longrightarrow> de_val e ty_One (ser_val e (res_of i)) = Done (Inr (res_of i))"
  by (simp add: ty_One_def res_of_def ser_val_struct de_val_struct wire_simps key_ok_def key_char_def is_whitespace_def lift_done)

lemma server_parts:
  "rpcs (server_dispatcher (run_server e)) ''test'' = Some (doubling_fn e)"
  "rpcs (server_dispatcher (run_server e)) ''test_err'' = Some (failing_fn e)"
  "rpcs (server_dispatcher (run_server e)) ''test_stream'' = None"
  "streams (server_dispatcher (run_server e)) ''test_stream'' = Some (counting_stream e ty_One)"
  "middlewares (server_dispatcher (run_server e)) = []"
  by (simp_all add: run_server_def server_register_fn_def server_register_stream_fn_def server_new_def register_fn_def
      register_stream_fn_def dispatcher_new_def)

lemma answers_of_server:
  "handle_line (server_dispatcher (run_server e)) (''test'' @ '' '' @ ser_val e (res_of 12)) () = Done (Line (ser_val e (res_of 24)), ())"
  "handle_line (server_dispatcher (run_server e)) (''test_err'' @ '' '' @ ser_val e (res_of 12)) ()
     = Done (Line (ser_ErrorRes (rpc_error_display (Internal ''error''))), ())"
  "handle_line (server_dispatcher (run_server e)) (''test_stream'' @ '' '' @ ser_val e (res_of 12)) ()
     = Done (Streaming (rpc_stream_out (ser_val e) (map (\<lambda>i. res_of (int i)) [0..<12])), ())"
proof -
  have r: "de_val e ty_One (ser_val e (res_of 12)) = Done (Inr (res_of 12))" by (rule read_one) (simp_all add: i32_min_def i32_max_def)
  have a: "field_a (res_of 12) = 12" by (simp add: res_of_def)
  note parts = dispatch_rpc_parts dispatch_stream_parts server_parts trimmed_def is_whitespace_def
  show "handle_line (server_dispatcher (run_server e)) (''test'' @ '' '' @ ser_val e (res_of 12)) () = Done (Line (ser_val e (res_of 24)), ())"
    unfolding handle_line_def by (subst dispatch_rpc_parts; simp add: parts doubling_fn_def rpc_func_def r a i32_min_def i32_max_def)
  show "handle_line (server_dispatcher (run_server e)) (''test_err'' @ '' '' @ ser_val e (res_of 12)) ()
     = Done (Line (ser_ErrorRes (rpc_error_display (Internal ''error''))), ())"
    unfolding handle_line_def by (subst dispatch_rpc_parts; simp add: parts failing_fn_def rpc_func_def r)
  show "handle_line (server_dispatcher (run_server e)) (''test_stream'' @ '' '' @ ser_val e (res_of 12)) ()
     = Done (Streaming (rpc_stream_out (ser_val e) (map (\<lambda>i. res_of (int i)) [0..<12])), ())"
  proof -
    have "dispatch_stream (server_dispatcher (run_server e)) (''test_stream'' @ '' '' @ ser_val e (res_of 12)) ()
        = Done (Inr (rpc_stream_out (ser_val e) (map (\<lambda>i. res_of (int i)) [0..<12])), ())"
      by (subst dispatch_stream_parts; simp add: parts counting_stream_def r a)
    moreover have "dispatch_rpc (server_dispatcher (run_server e)) (''test_stream'' @ '' '' @ ser_val e (res_of 12)) ()
        = Done (Inl (MethodNotFound ''test_stream''), ())"
      by (subst dispatch_rpc_parts; simp add: parts)
    ultimately show ?thesis by (simp only: handle_line_def run_bind.simps prod.case sum.case RpcError.case)
  qed
qed

lemma stream_items_ser:
  "(\<And>x. x \<in> set xs \<Longrightarrow> de (ser x) = Done (Inr x)) \<Longrightarrow> stream_items de (map ser xs) = Done xs"
  by (induction xs) simp_all

lemma client_texts:
  "parse_redirect ''{a=24}'' = None" "isl (case de_ErrorRes ''{a=24}'' of Done r \<Rightarrow> r | _ \<Rightarrow> Inr [])"
  "parse_redirect (ser_ErrorRes (rpc_error_display (Internal ''error''))) = None"
  "\<not> isl (case de_ErrorRes (ser_ErrorRes (rpc_error_display (Internal ''error''))) of Done r \<Rightarrow> r | _ \<Rightarrow> Inl [])"
  "newline \<notin> set (ser_ErrorRes (rpc_error_display (Internal ''error'')))"
  by code_simp+

lemma stream_texts:
  "let msgs = map (\<lambda>i. ''{a='' @ show_int (int i) @ ''}'') [0..<12] in
     fst (stream_out (\<lambda>_. True) [] (msgs @ [''done'']) True) = msgs @ [''done'']
     \<and> read_stream (\<lambda>_. True) [] [] (map (\<lambda>l. Inr (l @ [newline])) (msgs @ [''done''])) = Done (msgs, Inr (), [])"
  by code_simp

lemma read_line: "newline \<notin> set res \<Longrightarrow>
    process_unary pl (lines_socket [res]) = Done (Inr res, \<lparr>reads = [], writes_left = 0, sent = [pl]\<rparr>)"
  by (auto simp: process_unary_def sock_write_def lines_socket_def takeWhile_tail)

lemma test_simple_req_ok: "test_simple_req e"
proof -
  let ?err = "ser_ErrorRes (rpc_error_display (Internal ''error''))" and ?vs = "map (\<lambda>i. res_of (int i)) [0..<12]"
  let ?msgs = "map (\<lambda>i. ''{a='' @ show_int (int i) @ ''}'') [0..<12]"
  have p: "ser_val e (res_of 24) = ''{a=24}''" by (simp add: print_one digits)
  have r: "de_val e ty_One ''{a=24}'' = Done (Inr (res_of 24))" using read_one [of 24 e] p by (simp add: i32_min_def i32_max_def)
  obtain m where "de_ErrorRes ''{a=24}'' = Done (Inl m)" using client_texts(2) by (cases "de_ErrorRes ''{a=24}''") (auto simp: isl_def)
  then have "call_result (de_val e ty_One) (Inr ''{a=24}'') = Done (Inr (res_of 24))"
    using client_texts(1) r by (simp add: call_result_def classify_def)
  then have 1: "call_server e ''test'' (ser_val e (res_of 12)) (\<lambda>res. case res of Inl _ \<Rightarrow> False | Inr v \<Rightarrow> field_a v = 12 * 2)"
    unfolding call_server_def answers_of_server p by (simp add: read_line) (simp add: res_of_def)
  obtain m' where "de_ErrorRes ?err = Done (Inr m')"
    using client_texts(4) by (auto simp del: rpc_error_display.simps split: run.splits sum.splits) (metis sum.collapse(2))
  then have "call_result (de_val e ty_One) (Inr ?err) = Done (Inl (ClientError.Server m'))"
    using client_texts(3) by (simp add: call_result_def classify_def)
  then have 2: "call_server e ''test_err'' (ser_val e (res_of 12)) isl"
    unfolding call_server_def answers_of_server by (simp add: read_line client_texts(5) del: rpc_error_display.simps)
  have o: "rpc_stream_out (ser_val e) ?vs = ?msgs @ [''done'']" by (simp add: rpc_stream_out_def print_one)
  have "stream_items (de_val e ty_One) (map (ser_val e) ?vs) = Done ?vs"
    by (rule stream_items_ser) (auto intro!: read_one simp: i32_min_def i32_max_def)
  then have items: "stream_items (de_val e ty_One) ?msgs = Done ?vs" by (simp add: print_one comp_def)
  have 3: "call_stream_server e ''test_stream'' (ser_val e (res_of 12)) (\<lambda>vals. 12 = length vals)"
    using stream_texts items unfolding call_stream_server_def answers_of_server o Let_def
    by (simp add: process_stream_def sock_write_def lines_socket_def del: upt_Suc upt_conv_Cons read_stream.simps stream_out.simps)
  show ?thesis unfolding test_simple_req_def Let_def using 1 2 3 by blast
qed

end
