(* ===== verification/Spec2Isabelle.thy ===== *)
theory Spec2Isabelle
  imports Vector_Index Datastore Backup_Repo Rpc_Codec Wire_Types Commands Raft_Types Pubsub Dispatcher
    Rpc_Client Server Service Consensus_Node Log_Storage Consensus_Cluster Log_Agreement Commit_Relay Startup
    Wire_Schemas Rpc_Macros Replication_Round Write_Path Service_Tests Index_Tests Store_Tests Raft_Tests Rpc_Tests
begin

text \<open>
  Verification of Efis, an in-memory data store with a text protocol, publish-subscribe, a flat
  vector index and replication by a Raft-style log. The sources are the Rust crates under
  \<^verbatim>\<open>src/efis\<close> (the program) and \<^verbatim>\<open>src/macros\<close> (its derive and attribute macros).

  \<^bold>\<open>The program.\<close> A client (\<^verbatim>\<open>rpc/client.rs\<close>) sends a line \<open>method {key=value \<dots>}\<close>; the connection handler
  (\<^verbatim>\<open>rpc/server.rs\<close>) gives it to the dispatcher (\<^verbatim>\<open>rpc/dispatcher.rs\<close>), which finds the method, whose
  generated wrapper reads the request (\<^verbatim>\<open>rpc/mod.rs\<close>, \<^verbatim>\<open>macros/src/lib.rs\<close>) and, for a writing method,
  checks that this node is the leader. The service (\<^verbatim>\<open>efis.rs\<close>) runs the command on the store
  (\<^verbatim>\<open>store.rs\<close>, with vectors in \<^verbatim>\<open>vector/\<close>) and the registry of channels (\<^verbatim>\<open>pubsub.rs\<close>); with replication it
  submits the command (\<^verbatim>\<open>commands.rs\<close>) to the consensus actor (\<^verbatim>\<open>consensus.rs\<close>), which hands committed
  commands back in log order, and answers the client that waits at the entry's index. The store
  is backed up to a file (\<^verbatim>\<open>storage/backup.rs\<close>), the consensus state is kept behind the trait \<^verbatim>\<open>Storage\<close>.

  \<^bold>\<open>The theories.\<close>
  \<^item> \<open>Efis_Prelude\<close>: outcomes of running code (\<open>Done\<close>, \<open>Panic\<close>, \<open>Hang\<close>), checked slices, text and decimal
    numbers as the Rust standard library defines them, with the shared lemmas.
  \<^item> \<open>Vector_Index\<close> (\<^verbatim>\<open>vector/mod.rs\<close>, \<^verbatim>\<open>vector/flat.rs\<close>): distances and \<open>FlatIndex\<close>. An index refines a
    finite map from identifiers to rows; a search returns the nearest rows; the cases that panic.
    The locale \<open>vec_index\<close> is the contract of the trait \<^verbatim>\<open>Index\<close>, \<open>unstable_sorting\<close> that of the sorts.
  \<^item> \<open>Datastore\<close> (\<^verbatim>\<open>store.rs\<close>): values, expiry, every operation, the guard. The live view, the
    contract \<open>kv_store\<close> of the service's store, deadlines, and the behaviours around expired keys.
  \<^item> \<open>Backup_Repo\<close> (\<^verbatim>\<open>storage/backup.rs\<close>): saving is atomic under all failures.
  \<^item> \<open>Rpc_Codec\<close>, \<open>Wire_Types\<close>, \<open>Commands\<close>, \<open>Raft_Types\<close> (\<^verbatim>\<open>rpc/mod.rs\<close>, the derive macro, the structures of
    \<^verbatim>\<open>efis.rs\<close> and \<^verbatim>\<open>consensus.rs\<close>, \<^verbatim>\<open>commands.rs\<close>): printers and readers, what survives the wire, the
    round trips from scalars up to whole \<^verbatim>\<open>append_entries\<close> messages, and the inputs that are lost or
    panic. The locale \<open>f32_codec\<close> states what is used of floating-point text.
  \<^item> \<open>Pubsub\<close> (\<^verbatim>\<open>pubsub.rs\<close>): the registry over the contract \<open>broadcast\<close> of tokio's channels; what a subscriber
    receives in every interleaving.
  \<^item> \<open>Dispatcher\<close> (\<^verbatim>\<open>rpc/dispatcher.rs\<close>, the wrappers of \<^verbatim>\<open>macros/src/lib.rs\<close>, one line of \<^verbatim>\<open>rpc/server.rs\<close>): routing of
    requests. \<open>Rpc_Client\<close> (\<^verbatim>\<open>rpc/client.rs\<close>): framing, the connection task with its reconnections, the
    classification of answers, redirects; every caller is served once and in order. \<open>Server\<close>
    (\<^verbatim>\<open>rpc/server.rs\<close>): sessions, the listener with its permits and retries; client and server together
    match every call with its answer.
  \<^item> \<open>Service\<close> (\<^verbatim>\<open>efis.rs\<close>): all methods, the application of committed commands, the waiting clients, the
    table of methods; end-to-end properties through protocol, service and store.
  \<^item> \<open>Consensus_Node\<close> (\<^verbatim>\<open>consensus.rs\<close>): the actor's state as a record, one definition per method and
    message, and the step relation \<open>node_step\<close>; terms and votes, log merging, commit index and the
    stream of committed entries as invariants of all runs.
  \<^item> \<open>Log_Storage\<close> (\<^verbatim>\<open>storage/consensus.rs\<close>): the metadata file and the log file of length-prefixed records
    behind a buffer and a cache. The locale \<open>binary_codec\<close> states what is used of the binary encoding,
    \<open>raft_storage\<close> what the node relies on and \<open>rebooting_storage\<close> what a restart relies on; durability of
    term and vote, the effect of a crash on the log, and the order in which a restart recovers it.
  \<^item> \<open>Consensus_Cluster\<close>: several nodes, their calls as numbered tasks that may be delayed, repeated or
    lost, and restarts, as the step relation \<open>cluster_step\<close>. A run carries the votes cast and the terms
    led in it; election safety follows from an invariant over votes, tasks and counts.
  \<^item> \<open>Log_Agreement\<close>: the logs of a cluster without restarts, by an invariant over all logs ever held; two
    logs with the same term at an index agree up to it.
  \<^item> \<open>Commit_Relay\<close> (\<^verbatim>\<open>ConsensusHandle::subscribe\<close> and \<^verbatim>\<open>process_cmd\<close>): the two bounded channels between the
    actor and the service, the order they keep and the entries a slow service loses.
  \<^item> \<open>Startup\<close>: the consensus module's methods behind the dispatcher, the backup task of \<^verbatim>\<open>store.rs\<close>, and
    \<^verbatim>\<open>run_rpc\<close> of \<^verbatim>\<open>main.rs\<close>; the calls of a cluster cross the text protocol unchanged.
  \<^item> \<open>Derive_Macro\<close>, \<open>Wire_Schemas\<close> (the derive macro of \<^verbatim>\<open>macros/src/lib.rs\<close>): printer and reader for an arbitrary
    declaration, as an interpretation of types of the wire; what a reader returns has the declared
    type, which values are read back as printed, and that the codecs of \<open>Wire_Types\<close> and \<open>Raft_Types\<close> are
    the expansions for the program's structures.
  \<^item> \<open>Rpc_Macros\<close> (the attribute macros): which signatures are accepted and what is registered for an
    \<^verbatim>\<open>impl\<close> block; the dispatchers of the program are the expansions for its two blocks.
  \<^item> \<open>Replication_Round\<close>: requests, replies and conflict indices between a leader and one peer; a peer that
    lags holds the leader's log after boundedly many rounds.
  \<^item> \<open>Write_Path\<close>: a write from \<^verbatim>\<open>submit\<close> through both inboxes to the services of leader and peer and to
    the client that waits, and sequences of writes.
  \<^item> \<open>Service_Tests\<close>, \<open>Index_Tests\<close>, \<open>Store_Tests\<close>, \<open>Raft_Tests\<close>, \<open>Rpc_Tests\<close>: the unit tests of the sources, run on the
    model; the lemmas say which pass and which cannot, as a check of the model against what the
    authors expect of the code.

  \<^bold>\<open>Correspondence.\<close> A method keeps its name; the methods of \<^verbatim>\<open>efis.rs\<close> with a leading underscore carry
  the suffix \<open>_impl\<close> and their public counterparts \<open>_rpc\<close>, the store's operations the prefix \<open>ds_\<close>, the
  index's \<open>flat_\<close>, printers and readers \<open>ser_\<close> and \<open>de_\<close>. State is passed and returned; an error is \<open>Inl\<close>
  of its message. Clock readings, random numbers, floating-point arithmetic, hash iteration
  order and third-party crates are parameters; what is used of them is a locale or a
  hypothesis, each with an instance.

  \<^bold>\<open>Bounds and fuel.\<close> Terms wrap at \<open>2 ^ 64\<close> as \<^verbatim>\<open>usize\<close> does, so the run invariants are stated for runs
  whose steps start within \<open>in_bounds\<close>. The inbox of the actor holds 1024 messages, the listener has
  1000 permits, the relay channels hold 1024 and 16 entries. The only fuel is the number of
  redirects in \<open>call_with_redirect\<close>, a loop the code does not bound; the connection attempts of
  \<open>io_loop\<close> and the retries of \<open>accept\<close> are arguments that these loops consume; every other loop is a
  total function.

  \<^bold>\<open>Not modelled.\<close> Bytes on sockets below the level of reads, writes and lines; the bytes of the binary
  encoding (the bincode crate, of which \<open>binary_codec\<close> states what is used); how the environment becomes a
  configuration (the envy crate) and log messages; the token streams of the macros below the items they match on;
  characters beyond U+00FF; the benchmark scripts under \<^verbatim>\<open>src/test\<close>.

  \<^bold>\<open>Limits of what holds.\<close> Two usual properties of such a log are not stated because the code does not
  have them: a restart does not bring the log back in order (\<open>Log_Storage\<close>), and an entry
  can be committed without a majority (\<open>Consensus_Node\<close>), so committed entries need not
  survive a change of leader.

  \<^bold>\<open>Plan.\<close> What could still be added is depth: agreement of logs for runs with restarts under the
  hypothesis that the recovered log is a prefix, and a write that meets a change of leader.
\<close>

section \<open>Submitting and waiting\<close>

text \<open>What a client does once \<^verbatim>\<open>submit\<close> gave it an index.\<close>

definition submit_and_wait ::
  "Command \<Rightarrow> nat \<Rightarrow> 's Consensus \<times> 'c Efis \<Rightarrow> ('s Consensus \<times> 'c Efis) run" where
  "submit_and_wait cmd ch p =
     run_map (\<lambda>(i, node). (node, snd (handle_consensus i ch TimedOut (snd p)))) (handle_submit cmd (fst p))"

text \<open>
  C35. Two clients that submit before the actor has appended the first command wait at the same
  index, and the second registration replaces the first: after both, the first client is not
  registered at any index, so no committed entry will ever answer it, although both commands are
  in the actor's inbox.
\<close>

theorem concurrent_submits_lose_a_client:
  assumes "length (inbox node) + 2 \<le> INBOX_CAP" "\<not> rx_closed node" "ch \<noteq> ch'" "ch \<notin> ran (subs efis)"
  shows "\<exists>node' efis'. run_bind (submit_and_wait a ch (node, efis)) (submit_and_wait b ch') = Done (node', efis')
    \<and> inbox node' = inbox node @ [Submit a, Submit b]
    \<and> subs efis' = (subs efis)(log_index node \<mapsto> ch') \<and> ch \<notin> ran (subs efis')"
proof -
  have "ran ((subs efis)(log_index node \<mapsto> ch')) \<subseteq> insert ch' (ran (subs efis))"
    by (auto simp: ran_def split: if_splits)
  then show ?thesis
    using assms by (auto simp: submit_and_wait_def handle_submit_def send_self_def handle_consensus_def
        register_waiter_def)
qed

theorem concurrent_submits_lose_a_client_witness:
  "\<exists>node' efis'. run_bind (submit_and_wait (Delete \<lparr>get_key = ''a''\<rparr>) 1 (demo_node ''n1'' 4 [], demo_efis))
       (submit_and_wait (Delete \<lparr>get_key = ''b''\<rparr>) 2) = Done (node', efis') \<and> 1 \<notin> ran (subs efis')"
  using concurrent_submits_lose_a_client [of "demo_node ''n1'' 4 []" 1 2 demo_efis "Delete \<lparr>get_key = ''a''\<rparr>"
      "Delete \<lparr>get_key = ''b''\<rparr>"]
  by (force simp: INBOX_CAP_def demo_efis_def)

end
